(* ===== verification/Prelude.thy ===== *)
theory Prelude
  imports Main "HOL-Library.Word" "HOL-Library.Sublist"
begin

text \<open>
  Shared vocabulary of the development: machine integers, C strings and the routines of the C
  library (\<open>string.h\<close>, \<open>stdio.h\<close>, \<open>stdlib.h\<close>) that the firmware uses, and the \<open>esp_err_t\<close>
  codes its calls return, with the facts about them that several components need.

  A C string is a \<^typ>\<open>string\<close>, the characters before the terminating NUL. A buffer of \<open>n\<close>
  bytes holds a string of at most \<open>n - 1\<close> characters, so \<open>snprintf\<close>, \<open>strlcpy\<close> and \<open>strlcat\<close>
  are the truncations below.
\<close>

unbundle bit_operations_syntax

type_synonym u8 = "8 word"
type_synonym u16 = "16 word"
type_synonym u32 = "32 word"

type_synonym esp_err = int

abbreviation (input) ESP_OK :: esp_err where "ESP_OK \<equiv> 0"
abbreviation (input) ESP_FAIL :: esp_err where "ESP_FAIL \<equiv> -1"

named_theorems cstring_simps "evaluation and length facts of the C string routines"

section \<open>Bounded copies\<close>

definition snprintf_s :: "nat \<Rightarrow> string \<Rightarrow> string" where
  "snprintf_s n s = take (n - 1) s"

definition strlcpy_s :: "nat \<Rightarrow> string \<Rightarrow> string" where
  "strlcpy_s n s = take (n - 1) s"

definition strlcat_s :: "nat \<Rightarrow> string \<Rightarrow> string \<Rightarrow> string" where
  "strlcat_s n d s = d @ take (n - 1 - length d) s"

lemma snprintf_s_length [cstring_simps]: "0 < n \<Longrightarrow> length (snprintf_s n s) < n"
  by (cases n) (auto simp: snprintf_s_def min_def)

lemma snprintf_s_less: "0 < n \<Longrightarrow> n \<le> m \<Longrightarrow> length (snprintf_s n s) < m"
  by (rule order.strict_trans2 [OF snprintf_s_length])

lemma snprintf_s_fits [cstring_simps]: "length s < n \<Longrightarrow> snprintf_s n s = s"
  by (simp add: snprintf_s_def)

lemma strlcpy_s_fits [cstring_simps]: "length s < n \<Longrightarrow> strlcpy_s n s = s"
  by (simp add: strlcpy_s_def)

lemma strlcat_s_fits [cstring_simps]: "length d + length s < n \<Longrightarrow> strlcat_s n d s = d @ s"
  by (simp add: strlcat_s_def)

lemma strlcat_s_length [cstring_simps]: "length d < n \<Longrightarrow> length (strlcat_s n d s) < n"
  unfolding strlcat_s_def by (simp add: min_def) linarith

section \<open>Searching and comparing\<close>

text \<open>
  \<open>strncmp (a, b, n) == 0\<close>: on strings without a NUL byte, the first \<open>n\<close> characters agree and
  neither string ends before the other there.
\<close>

definition strncmp_eq :: "string \<Rightarrow> string \<Rightarrow> nat \<Rightarrow> bool" where
  "strncmp_eq a b n \<longleftrightarrow> take n a = take n b"

text \<open>\<open>strstr\<close>: the suffix that starts at the first occurrence, \<open>None\<close> for a null pointer.\<close>

fun strstr :: "string \<Rightarrow> string \<Rightarrow> string option" where
  "strstr h n = (if prefix n h then Some h
                 else (case h of [] \<Rightarrow> None | _ # h' \<Rightarrow> strstr h' n))"

declare strstr.simps [simp del]

text \<open>\<open>strchr\<close> and \<open>strrchr\<close>: the suffix from the first and from the last occurrence.\<close>

fun strchr :: "string \<Rightarrow> char \<Rightarrow> string option" where
  "strchr [] c = None"
| "strchr (x # xs) c = (if x = c then Some (x # xs) else strchr xs c)"

fun strrchr :: "string \<Rightarrow> char \<Rightarrow> string option" where
  "strrchr [] c = None"
| "strrchr (x # xs) c =
     (case strrchr xs c of Some t \<Rightarrow> Some t
      | None \<Rightarrow> if x = c then Some (x # xs) else None)"

lemma strstr_Some_iff: "(strstr h n \<noteq> None) = sublist n h"
proof (induction h)
  case Nil
  show ?case by (subst strstr.simps) simp
next
  case (Cons a h)
  show ?case by (subst strstr.simps) (simp add: Cons.IH [symmetric] sublist_Cons_right)
qed

lemma strstr_split: "strstr h n = Some t \<Longrightarrow> \<exists>p. h = p @ t \<and> prefix n t"
proof (induction h)
  case Nil
  then show ?case by (subst (asm) strstr.simps) (auto split: if_splits)
next
  case (Cons a h)
  show ?case
  proof (cases "prefix n (a # h)")
    case True
    with Cons.prems have "t = a # h" by (subst (asm) strstr.simps) simp
    with True show ?thesis by auto
  next
    case False
    with Cons.prems have "strstr h n = Some t" by (subst (asm) strstr.simps) simp
    then obtain p where "h = p @ t \<and> prefix n t" using Cons.IH by blast
    then have "a # h = (a # p) @ t \<and> prefix n t" by simp
    then show ?thesis by blast
  qed
qed

text \<open>A separator that cannot start inside the part before it is found right after that part.\<close>

lemma strstr_after:
  assumes "c \<notin> set p"
  shows "strstr (p @ (c # n) @ s) (c # n) = Some ((c # n) @ s)"
  using assms by (induction p) (subst strstr.simps, simp)+

lemma strchr_append: "c \<notin> set p \<Longrightarrow> strchr (p @ c # s) c = Some (c # s)"
  by (induction p) auto

lemma strchr_None_iff: "(strchr s c = None) = (c \<notin> set s)"
  by (induction s) auto

lemma strchr_Some: "strchr s c = Some t \<Longrightarrow> \<exists>p r. s = p @ t \<and> t = c # r \<and> c \<notin> set p"
proof (induction s)
  case Nil
  then show ?case by simp
next
  case (Cons a s)
  show ?case
  proof (cases "a = c")
    case True
    with Cons.prems show ?thesis by auto
  next
    case False
    with Cons.prems Cons.IH obtain p r where "s = p @ t" "t = c # r" "c \<notin> set p" by auto
    with False have "a # s = (a # p) @ t \<and> t = c # r \<and> c \<notin> set (a # p)" by auto
    then show ?thesis by blast
  qed
qed

lemma strrchr_None_iff: "(strrchr s c = None) = (c \<notin> set s)"
  by (induction s) (auto split: option.splits)

lemma strrchr_append: "c \<notin> set s \<Longrightarrow> strrchr (p @ c # s) c = Some (c # s)"
proof (induction p)
  case Nil
  then show ?case by (simp add: strrchr_None_iff [THEN iffD2])
next
  case (Cons a p)
  then show ?case by simp
qed

section \<open>Numbers as text\<close>

definition digit_char :: "nat \<Rightarrow> char" where
  "digit_char d = char_of (48 + d)"

definition is_digit :: "char \<Rightarrow> bool" where
  "is_digit c \<longleftrightarrow> 48 \<le> (of_char c :: nat) \<and> (of_char c :: nat) \<le> 57"

definition digit_val :: "char \<Rightarrow> nat" where
  "digit_val c = of_char c - 48"

text \<open>\<open>%d\<close> of a non-negative number, and of any \<open>int\<close>.\<close>

fun dec_nat :: "nat \<Rightarrow> string" where
  "dec_nat n = (if n < 10 then [digit_char n] else dec_nat (n div 10) @ [digit_char (n mod 10)])"

declare dec_nat.simps [simp del]

definition dec_int :: "int \<Rightarrow> string" where
  "dec_int i = (if i < 0 then CHR ''-'' # dec_nat (nat (- i)) else dec_nat (nat i))"

fun digits_val :: "nat \<Rightarrow> string \<Rightarrow> nat" where
  "digits_val acc [] = acc"
| "digits_val acc (c # cs) =
     (if is_digit c then digits_val (10 * acc + digit_val c) cs else acc)"

lemma is_digit_digit_char [simp]: "d < 10 \<Longrightarrow> is_digit (digit_char d)"
  by (simp add: is_digit_def digit_char_def)

lemma digit_val_digit_char [simp]: "d < 10 \<Longrightarrow> digit_val (digit_char d) = d"
  by (simp add: digit_val_def digit_char_def)

lemma dec_nat_digits: "c \<in> set (dec_nat n) \<Longrightarrow> is_digit c"
proof (induction n rule: dec_nat.induct)
  case (1 n)
  then show ?case
    by (cases "n < 10") (auto simp: dec_nat.simps [of n])
qed

lemma dec_nat_not_Nil [simp]: "dec_nat n \<noteq> []"
  by (subst dec_nat.simps) simp

lemma digits_val_append:
  "(\<And>c. c \<in> set ds \<Longrightarrow> is_digit c) \<Longrightarrow> digits_val acc (ds @ s) = digits_val (digits_val acc ds) s"
  by (induction ds arbitrary: acc) auto

lemma digits_val_dec_nat: "digits_val 0 (dec_nat n) = n"
proof (induction n rule: dec_nat.induct)
  case (1 n)
  show ?case
  proof (cases "n < 10")
    case True
    then show ?thesis by (simp add: dec_nat.simps [of n])
  next
    case False
    then have "digits_val 0 (dec_nat (n div 10)) = n div 10" using 1 by simp
    with False show ?thesis
      by (simp add: dec_nat.simps [of n] digits_val_append dec_nat_digits)
  qed
qed

lemma digits_val_dec_nat_stop:
  "(s = [] \<or> \<not> is_digit (hd s)) \<Longrightarrow> digits_val 0 (dec_nat n @ s) = n"
proof -
  assume stop: "s = [] \<or> \<not> is_digit (hd s)"
  have "digits_val n s = n" using stop by (cases s) auto
  then show ?thesis
    by (simp add: digits_val_append dec_nat_digits digits_val_dec_nat)
qed

lemma dec_nat_inject [simp]: "dec_nat m = dec_nat n \<longleftrightarrow> m = n"
  by (metis digits_val_dec_nat)

lemma dec_nat_length: "n < 10 ^ k \<Longrightarrow> 0 < k \<Longrightarrow> length (dec_nat n) \<le> k"
proof (induction k arbitrary: n)
  case 0
  then show ?case by simp
next
  case (Suc k)
  show ?case
  proof (cases "n < 10")
    case True
    then show ?thesis by (simp add: dec_nat.simps [of n])
  next
    case False
    then have "0 < k" using Suc.prems by (cases k) auto
    moreover have "n div 10 < 10 ^ k" using Suc.prems(1) by (simp add: less_mult_imp_div_less mult.commute)
    ultimately have "length (dec_nat (n div 10)) \<le> k" by (rule Suc.IH [rotated])
    with False show ?thesis by (simp add: dec_nat.simps [of n])
  qed
qed

lemma digits_val_less:
  "(\<And>c. c \<in> set ds \<Longrightarrow> is_digit c) \<Longrightarrow> digits_val acc ds < (acc + 1) * 10 ^ length ds"
proof (induction ds arbitrary: acc)
  case Nil
  then show ?case by simp
next
  case (Cons c ds)
  have "digit_val c < 10" using Cons.prems [of c] by (auto simp: is_digit_def digit_val_def)
  then have "10 * acc + digit_val c + 1 \<le> 10 * (acc + 1)" by simp
  then have "(10 * acc + digit_val c + 1) * 10 ^ length ds \<le> 10 * (acc + 1) * 10 ^ length ds"
    by (rule mult_le_mono1)
  moreover have "digits_val (10 * acc + digit_val c) ds < (10 * acc + digit_val c + 1) * 10 ^ length ds"
    using Cons.IH Cons.prems by simp
  ultimately have "digits_val (10 * acc + digit_val c) ds < 10 * (acc + 1) * 10 ^ length ds"
    by (rule order.strict_trans2 [rotated])
  also have "\<dots> = (acc + 1) * 10 ^ length (c # ds)" by (simp add: algebra_simps)
  finally show ?case using Cons.prems by simp
qed

lemma dec_nat_length_bound: "length (dec_nat n) \<le> k \<Longrightarrow> n < 10 ^ k"
proof -
  assume l: "length (dec_nat n) \<le> k"
  have "n < 10 ^ length (dec_nat n)"
    using digits_val_less [of "dec_nat n" 0] by (simp add: digits_val_dec_nat dec_nat_digits)
  also have "\<dots> \<le> 10 ^ k" using l by (simp add: power_increasing)
  finally show ?thesis .
qed

lemma dec_nat_hd_not_minus: "hd (dec_nat n) \<noteq> CHR ''-''"
  using dec_nat_digits [of "hd (dec_nat n)" n] by (auto simp: is_digit_def)

lemma dec_int_inject [simp]: "dec_int i = dec_int j \<longleftrightarrow> i = j"
proof
  assume e: "dec_int i = dec_int j"
  have mixed: "CHR ''-'' # xs \<noteq> dec_nat n" for xs n
    using dec_nat_hd_not_minus [of n] by (metis list.sel(1))
  show "i = j"
    using e mixed by (auto simp: dec_int_def eq_nat_nat_iff split: if_splits) (metis mixed)+
qed simp

text \<open>
  \<open>atoi\<close>: leading white space, an optional sign, digits up to the first other character;
  \<open>int\<close> and \<open>long\<close> are 32 bits on the target and \<open>strtol\<close> saturates.
\<close>

definition is_space :: "char \<Rightarrow> bool" where
  "is_space c \<longleftrightarrow> (of_char c :: nat) = 32 \<or> (9 \<le> (of_char c :: nat) \<and> (of_char c :: nat) \<le> 13)"

definition saturate32 :: "int \<Rightarrow> int" where
  "saturate32 i = max (- 2147483648) (min 2147483647 i)"

definition atoi :: "string \<Rightarrow> int" where
  "atoi s =
     (case dropWhile is_space s of
        [] \<Rightarrow> 0
      | c # cs \<Rightarrow>
          if c = CHR ''-'' then saturate32 (- int (digits_val 0 cs))
          else if c = CHR ''+'' then saturate32 (int (digits_val 0 cs))
          else saturate32 (int (digits_val 0 (c # cs))))"

lemma atoi_dec_nat:
  assumes "n \<le> 2147483647" and "s = [] \<or> \<not> is_digit (hd s)"
  shows "atoi (dec_nat n @ s) = int n"
proof -
  obtain c cs where d: "dec_nat n = c # cs" by (cases "dec_nat n") auto
  then have "is_digit c" using dec_nat_digits [of c n] by simp
  then have c: "\<not> is_space c" "c \<noteq> CHR ''-''" "c \<noteq> CHR ''+''"
    by (auto simp: is_digit_def is_space_def)
  have "digits_val 0 (c # cs @ s) = n"
    using digits_val_dec_nat_stop [OF assms(2), of n] d by simp
  with c d assms(1) show ?thesis
    by (simp add: atoi_def saturate32_def del: digits_val.simps)
qed

text \<open>\<open>%02X\<close> of a byte.\<close>

definition hex_char :: "nat \<Rightarrow> char" where
  "hex_char d = (if d < 10 then char_of (48 + d) else char_of (55 + d))"

definition hex2 :: "u8 \<Rightarrow> string" where
  "hex2 b = [hex_char (unat b div 16), hex_char (unat b mod 16)]"

lemma length_hex2 [simp]: "length (hex2 b) = 2"
  by (simp add: hex2_def)

section \<open>Lists\<close>

lemma map_option_eq_Some_iff: "map_option f x = Some y \<longleftrightarrow> (\<exists>z. x = Some z \<and> f z = y)"
  by (cases x) auto

lemma prefix_append_same [simp]: "prefix p (p @ s)"
  by simp

section \<open>Words by their bits\<close>

lemma nat8_cases: "n < 8 \<Longrightarrow> n = 0 \<or> n = 1 \<or> n = 2 \<or> n = 3 \<or> n = 4 \<or> n = 5 \<or> n = 6 \<or> n = (7::nat)"
  by auto

lemma nat32_cases:
  "n < 32 \<Longrightarrow> n \<in> {31,30,29,28,27,26,25,24,23,22,21,20,19,18,17,16,15,14,13,12,11,10,9,8,7,6,5,4,3,2,1,0::nat}"
proof -
  assume "n < 32"
  then have "n \<in> {..<32}" by simp
  then show ?thesis by (simp add: lessThan_nat_numeral lessThan_Suc)
qed

lemma word8_eqI:
  assumes "\<And>n. n \<in> {0,1,2,3,4,5,6,7} \<Longrightarrow> bit (a::u8) n = bit b n"
  shows "a = b"
proof (rule bit_word_eqI)
  fix n assume "n < LENGTH(8)"
  then show "bit a n = bit b n" using nat8_cases [of n] by (intro assms) simp
qed

lemma word32_eqI:
  assumes "\<And>n. n \<in> {31,30,29,28,27,26,25,24,23,22,21,20,19,18,17,16,15,14,13,12,11,10,9,8,7,6,5,4,3,2,1,0} \<Longrightarrow> bit (a::u32) n = bit b n"
  shows "a = b"
proof (rule bit_word_eqI)
  fix n assume "n < LENGTH(32)"
  then show "bit a n = bit b n" by (intro assms nat32_cases) simp
qed

lemma bit_less_power: "(w :: 'a::len word) < 2 ^ k \<Longrightarrow> k \<le> n \<Longrightarrow> \<not> bit w n"
  by (metis bit_take_bit_iff less_mask_eq linorder_not_le take_bit_eq_mask)

end
