(* ===== verification/Flags.thy ===== *)
theory Flags
  imports Prelude
begin

text \<open>
  The event flags of the firmware: the union \<open>myByte\<close> of \<open>main/myByte.h\<close> (eight one-bit
  fields over a byte, bit 0 first, as the compiler of the little-endian target lays them out),
  the three bytes \<open>btnFlag\<close>, \<open>btnFlag2\<close> and \<open>btnFlag3\<close> and the flag macros of
  \<open>main/globals.h\<close>. Every other component raises, tests and clears flags through
  \<open>flag_get\<close> and \<open>flag_set\<close>; the laws it needs are those of the locale \<open>flag_store\<close>.
\<close>

section \<open>myByte\<close>

record myByte =
  byte :: u8

definition bits_get :: "nat \<Rightarrow> myByte \<Rightarrow> bool" where
  "bits_get i m = bit (byte m) i"

definition bits_put :: "nat \<Rightarrow> bool \<Rightarrow> myByte \<Rightarrow> myByte" where
  "bits_put i v m =
     m\<lparr>byte := (if v then Bit_Operations.set_bit i (byte m) else unset_bit i (byte m))\<rparr>"

lemma bits_get_put:
  "i < 8 \<Longrightarrow> bits_get j (bits_put i v m) = (if i = j then v else bits_get j m)"
  by (auto simp: bits_get_def bits_put_def bit_set_bit_iff bit_unset_bit_iff)

lemma myByte_eqI:
  fixes m m' :: myByte
  assumes "\<And>i. i < 8 \<Longrightarrow> bits_get i m = bits_get i m'"
  shows "m = m'"
proof -
  have "byte m = byte m'" by (rule bit_word_eqI) (use assms in \<open>simp add: bits_get_def\<close>)
  then show ?thesis by simp
qed

section \<open>The flag bytes and the flag macros\<close>

record flags =
  btnFlag :: myByte
  btnFlag2 :: myByte
  btnFlag3 :: myByte

datatype flag =
    BTN_UP_PRESSED | BTN_UP_RELEASED | BTN_DOWN_PRESSED | BTN_DOWN_RELEASED
  | BTN_ENTER_PRESSED | BTN_ENTER_RELEASED
  | BTN_UP_RELEASED_LONGPRESS | BTN_DOWN_RELEASED_LONGPRESS
  | BTN_ENTER_RELEASED_LONGPRESS | INITIALIZING | FETCHNEWINFODATA | FETCHNEWDEVICESDATA
  | POSTNONEWDATA | PAUSENEWDATAFETCH | FETCHNEWALIVE | UPDATECURRENTINFO
  | FETCHNEWFIRMWAREDATA | FETCHNEWDATETIMEDATA | SETNEWINFODATA | SETNEWDEVICEDATA
  | SETNEWDATETIME | FETCHNEWDEVICEDATA | SETCONSUMEDCURRENT | POPULATEDEVICES

text \<open>The byte (0, 1, 2 for \<open>btnFlag\<close>, \<open>btnFlag2\<close>, \<open>btnFlag3\<close>) and the bit of each macro.\<close>

fun flag_pos :: "flag \<Rightarrow> nat \<times> nat" where
  "flag_pos BTN_UP_PRESSED = (0, 0)"
| "flag_pos BTN_UP_RELEASED = (0, 1)"
| "flag_pos BTN_DOWN_PRESSED = (0, 2)"
| "flag_pos BTN_DOWN_RELEASED = (0, 3)"
| "flag_pos BTN_ENTER_PRESSED = (0, 4)"
| "flag_pos BTN_ENTER_RELEASED = (0, 5)"
| "flag_pos BTN_UP_RELEASED_LONGPRESS = (0, 6)"
| "flag_pos BTN_DOWN_RELEASED_LONGPRESS = (0, 7)"
| "flag_pos BTN_ENTER_RELEASED_LONGPRESS = (1, 0)"
| "flag_pos INITIALIZING = (1, 1)"
| "flag_pos FETCHNEWINFODATA = (1, 2)"
| "flag_pos FETCHNEWDEVICESDATA = (1, 3)"
| "flag_pos POSTNONEWDATA = (1, 4)"
| "flag_pos PAUSENEWDATAFETCH = (1, 5)"
| "flag_pos FETCHNEWALIVE = (1, 6)"
| "flag_pos UPDATECURRENTINFO = (1, 7)"
| "flag_pos FETCHNEWFIRMWAREDATA = (2, 0)"
| "flag_pos FETCHNEWDATETIMEDATA = (2, 1)"
| "flag_pos SETNEWINFODATA = (2, 2)"
| "flag_pos SETNEWDEVICEDATA = (2, 3)"
| "flag_pos SETNEWDATETIME = (2, 4)"
| "flag_pos FETCHNEWDEVICEDATA = (2, 5)"
| "flag_pos SETCONSUMEDCURRENT = (2, 6)"
| "flag_pos POPULATEDEVICES = (2, 7)"

definition flag_byte :: "nat \<Rightarrow> flags \<Rightarrow> myByte" where
  "flag_byte b s = (if b = 0 then btnFlag s else if b = 1 then btnFlag2 s else btnFlag3 s)"

definition flag_byte_put :: "nat \<Rightarrow> myByte \<Rightarrow> flags \<Rightarrow> flags" where
  "flag_byte_put b m s =
     (if b = 0 then s\<lparr>btnFlag := m\<rparr>
      else if b = 1 then s\<lparr>btnFlag2 := m\<rparr> else s\<lparr>btnFlag3 := m\<rparr>)"

definition flag_get :: "flag \<Rightarrow> flags \<Rightarrow> bool" where
  "flag_get f s = (case flag_pos f of (b, i) \<Rightarrow> bits_get i (flag_byte b s))"

definition flag_set :: "flag \<Rightarrow> bool \<Rightarrow> flags \<Rightarrow> flags" where
  "flag_set f v s =
     (case flag_pos f of (b, i) \<Rightarrow> flag_byte_put b (bits_put i v (flag_byte b s)) s)"

text \<open>\<open>main.cpp\<close> starts with the three bytes zero.\<close>

definition flags_init :: flags where
  "flags_init = \<lparr>btnFlag = \<lparr>byte = 0\<rparr>, btnFlag2 = \<lparr>byte = 0\<rparr>, btnFlag3 = \<lparr>byte = 0\<rparr>\<rparr>"

lemma flag_pos_bounds: "flag_pos f = (b, i) \<Longrightarrow> b < 3 \<and> i < 8"
  by (cases f) auto

lemma flag_pos_inject: "flag_pos f = flag_pos g \<Longrightarrow> f = g"
  by (cases f; cases g) simp_all

lemma flag_pos_surj: "b < 3 \<Longrightarrow> i < 8 \<Longrightarrow> \<exists>f. flag_pos f = (b, i)"
proof -
  assume "b < 3" "i < 8"
  then have "b \<in> {0, 1, 2}" "i \<in> {0, 1, 2, 3, 4, 5, 6, 7}" by auto
  then show ?thesis
    by (elim insertE emptyE; simp only:; metis flag_pos.simps)
qed

lemma flag_byte_put_same: "b < 3 \<Longrightarrow> flag_byte b (flag_byte_put b m s) = m"
  by (auto simp: flag_byte_def flag_byte_put_def)

lemma flag_byte_put_other:
  "b < 3 \<Longrightarrow> c < 3 \<Longrightarrow> b \<noteq> c \<Longrightarrow> flag_byte c (flag_byte_put b m s) = flag_byte c s"
  by (auto simp: flag_byte_def flag_byte_put_def)

section \<open>The interface the other components use\<close>

locale flag_store =
  fixes get :: "'f \<Rightarrow> 's \<Rightarrow> bool"
    and put :: "'f \<Rightarrow> bool \<Rightarrow> 's \<Rightarrow> 's"
  assumes get_put: "get g (put f v s) = (if f = g then v else get g s)"
    and ext: "(\<And>f. get f s = get f t) \<Longrightarrow> s = t"
begin

lemma get_put_same: "get f (put f v s) = v"
  by (simp add: get_put)

lemma get_put_other: "f \<noteq> g \<Longrightarrow> get g (put f v s) = get g s"
  by (simp add: get_put)

lemma put_same: "put f (get f s) s = s"
  by (rule ext) (simp add: get_put)

lemma put_put: "put f w (put f v s) = put f w s"
  by (rule ext) (simp add: get_put)

lemma put_commute: "f \<noteq> g \<Longrightarrow> put f v (put g w s) = put g w (put f v s)"
  by (rule ext) (auto simp: get_put)

lemma put_id: "get f s = v \<Longrightarrow> put f v s = s"
  using put_same by blast

lemma get_clear_all:
  "get g (foldl (\<lambda>t f. put f False t) s fs) = (get g s \<and> g \<notin> set fs)"
  by (induction fs arbitrary: s) (auto simp: get_put)

end

lemma flag_get_set: "flag_get g (flag_set f v s) = (if f = g then v else flag_get g s)"
proof -
  obtain b i where f: "flag_pos f = (b, i)" by (cases "flag_pos f")
  obtain c j where g: "flag_pos g = (c, j)" by (cases "flag_pos g")
  have bd: "b < 3" "i < 8" "c < 3" "j < 8" using flag_pos_bounds f g by blast+
  have "f = g \<longleftrightarrow> b = c \<and> i = j" using f g flag_pos_inject by force
  then show ?thesis
    using f g bd flag_byte_put_other [of b c]
    by (cases "b = c") (simp_all add: flag_get_def flag_set_def flag_byte_put_same bits_get_put)
qed

lemma flags_ext:
  assumes "\<And>f. flag_get f s = flag_get f t"
  shows "s = t"
proof -
  have "flag_byte b s = flag_byte b t" if "b < 3" for b
  proof (rule myByte_eqI)
    fix i :: nat assume "i < 8"
    with that obtain f where "flag_pos f = (b, i)" using flag_pos_surj by blast
    with assms [of f] show "bits_get i (flag_byte b s) = bits_get i (flag_byte b t)"
      by (simp add: flag_get_def)
  qed
  from this [of 0] this [of 1] this [of 2] show ?thesis by (simp add: flag_byte_def)
qed

interpretation fl: flag_store flag_get flag_set
  by unfold_locales (auto simp: flag_get_set intro: flags_ext)

lemmas flag_simps [simp] = flag_get_set

lemma flag_get_init [simp]: "flag_get f flags_init = False"
  by (cases f) (simp_all add: flag_get_def flags_init_def flag_byte_def bits_get_def)

end
