(* ===== verification/Buttons.thy ===== *)
theory Buttons
  imports Flags
begin

text \<open>
  \<open>main/buttons.c\<close>: the debounced sampling of the three push buttons and the classification of
  a release as ignored, short or long. The GPIO input is a parameter \<open>lvl pin k\<close>, the level that
  the \<open>k\<close>-th call of \<open>gpio_get_level\<close> reads on the pin, so that two calls of \<open>debounce\<close> inside one
  \<open>check_buttons\<close> may see different levels, as on the board. \<open>currentTime\<close> is the tick count in
  milliseconds, an unsigned 32-bit number that wraps.
\<close>

section \<open>State\<close>

datatype button = ENTER | UP | DOWN

record btn_state =
  bt_flags :: flags
  btnEnterDuration :: u32
  btnUpDuration :: u32
  btnDownDuration :: u32
  bt_samples :: nat

type_synonym levels = "nat \<Rightarrow> nat \<Rightarrow> int"

definition BTN_PRESS_TIME :: u32 where "BTN_PRESS_TIME = 30"
definition BTN_LONGPRESS_TIME :: u32 where "BTN_LONGPRESS_TIME = 1500"

fun btn_pin :: "button \<Rightarrow> nat" where
  "btn_pin ENTER = 39"
| "btn_pin UP = 35"
| "btn_pin DOWN = 34"

fun btn_pressed_flag :: "button \<Rightarrow> flag" where
  "btn_pressed_flag ENTER = BTN_ENTER_PRESSED"
| "btn_pressed_flag UP = BTN_UP_PRESSED"
| "btn_pressed_flag DOWN = BTN_DOWN_PRESSED"

fun btn_released_flag :: "button \<Rightarrow> flag" where
  "btn_released_flag ENTER = BTN_ENTER_RELEASED"
| "btn_released_flag UP = BTN_UP_RELEASED"
| "btn_released_flag DOWN = BTN_DOWN_RELEASED"

fun btn_longpress_flag :: "button \<Rightarrow> flag" where
  "btn_longpress_flag ENTER = BTN_ENTER_RELEASED_LONGPRESS"
| "btn_longpress_flag UP = BTN_UP_RELEASED_LONGPRESS"
| "btn_longpress_flag DOWN = BTN_DOWN_RELEASED_LONGPRESS"

fun btn_duration :: "button \<Rightarrow> btn_state \<Rightarrow> u32" where
  "btn_duration ENTER s = btnEnterDuration s"
| "btn_duration UP s = btnUpDuration s"
| "btn_duration DOWN s = btnDownDuration s"

fun btn_duration_put :: "button \<Rightarrow> u32 \<Rightarrow> btn_state \<Rightarrow> btn_state" where
  "btn_duration_put ENTER t s = s\<lparr>btnEnterDuration := t\<rparr>"
| "btn_duration_put UP t s = s\<lparr>btnUpDuration := t\<rparr>"
| "btn_duration_put DOWN t s = s\<lparr>btnDownDuration := t\<rparr>"

abbreviation bt_get :: "flag \<Rightarrow> btn_state \<Rightarrow> bool" where
  "bt_get f s \<equiv> flag_get f (bt_flags s)"

definition bt_set :: "flag \<Rightarrow> bool \<Rightarrow> btn_state \<Rightarrow> btn_state" where
  "bt_set f v s = s\<lparr>bt_flags := flag_set f v (bt_flags s)\<rparr>"

section \<open>debounce\<close>

definition sample_count :: nat where "sample_count = 10"

fun debounce_loop :: "levels \<Rightarrow> nat \<Rightarrow> nat \<Rightarrow> nat \<Rightarrow> btn_state \<Rightarrow> nat \<times> btn_state" where
  "debounce_loop lvl pin 0 count s = (count, s)"
| "debounce_loop lvl pin (Suc n) count s =
     (let pin_state = lvl pin (bt_samples s);
          count' = (if pin_state = 1 then Suc count else count)
      in debounce_loop lvl pin n count' (s\<lparr>bt_samples := Suc (bt_samples s)\<rparr>))"

definition debounce :: "levels \<Rightarrow> nat \<Rightarrow> btn_state \<Rightarrow> bool \<times> btn_state" where
  "debounce lvl pin s =
     (case debounce_loop lvl pin sample_count 0 s of
        (count, s') \<Rightarrow> (count > sample_count div 2, s'))"

section \<open>check\_buttons\<close>

text \<open>
  One of the three blocks of \<open>check_buttons\<close>. C evaluates \<open>debounce(pin) && !PRESSED\<close> first and,
  when that is false, calls \<open>debounce\<close> a second time for \<open>!debounce(pin) && PRESSED\<close>.
\<close>

definition btn_release :: "u32 \<Rightarrow> button \<Rightarrow> btn_state \<Rightarrow> btn_state" where
  "btn_release currentTime b s =
     (let s1 = bt_set (btn_pressed_flag b) False s;
          held = currentTime - btn_duration b s1;
          s2 = (if BTN_PRESS_TIME \<le> held \<and> held < BTN_LONGPRESS_TIME
                then bt_set (btn_released_flag b) True s1
                else if BTN_LONGPRESS_TIME \<le> held
                then bt_set (btn_longpress_flag b) True s1
                else s1)
      in btn_duration_put b 0 s2)"

definition check_button :: "levels \<Rightarrow> u32 \<Rightarrow> button \<Rightarrow> btn_state \<Rightarrow> btn_state" where
  "check_button lvl currentTime b s =
     (case debounce lvl (btn_pin b) s of (d1, s1) \<Rightarrow>
        if d1 \<and> \<not> bt_get (btn_pressed_flag b) s1
        then btn_duration_put b currentTime (bt_set (btn_pressed_flag b) True s1)
        else (case debounce lvl (btn_pin b) s1 of (d2, s2) \<Rightarrow>
                if \<not> d2 \<and> bt_get (btn_pressed_flag b) s2
                then btn_release currentTime b s2
                else s2))"

definition tick_ms :: "u32 \<Rightarrow> u32 \<Rightarrow> u32" where
  "tick_ms tick_period ticks = ticks * tick_period"

definition check_buttons :: "levels \<Rightarrow> u32 \<Rightarrow> u32 \<Rightarrow> btn_state \<Rightarrow> btn_state" where
  "check_buttons lvl tick_period ticks s =
     (let currentTime = tick_ms tick_period ticks
      in check_button lvl currentTime DOWN
           (check_button lvl currentTime UP
             (check_button lvl currentTime ENTER s)))"

section \<open>Facts\<close>

lemma btn_flags_distinct [simp]:
  "btn_pressed_flag a = btn_pressed_flag b \<longleftrightarrow> a = b"
  "btn_released_flag a = btn_released_flag b \<longleftrightarrow> a = b"
  "btn_longpress_flag a = btn_longpress_flag b \<longleftrightarrow> a = b"
  "btn_pressed_flag a \<noteq> btn_released_flag b"
  "btn_released_flag a \<noteq> btn_pressed_flag b"
  "btn_pressed_flag a \<noteq> btn_longpress_flag b"
  "btn_longpress_flag a \<noteq> btn_pressed_flag b"
  "btn_released_flag a \<noteq> btn_longpress_flag b"
  "btn_longpress_flag a \<noteq> btn_released_flag b"
  by (cases a; cases b; simp)+

lemma bt_get_set [simp]: "bt_get g (bt_set f v s) = (if f = g then v else bt_get g s)"
  by (simp add: bt_set_def)

lemma btn_duration_set [simp]: "btn_duration b (bt_set f v s) = btn_duration b s"
  by (cases b) (simp_all add: bt_set_def)

lemma btn_duration_put_simps [simp]:
  "btn_duration a (btn_duration_put b t s) = (if a = b then t else btn_duration a s)"
  "bt_flags (btn_duration_put b t s) = bt_flags s"
  "bt_samples (btn_duration_put b t s) = bt_samples s"
  by (cases a; cases b; simp)+

lemma bt_samples_set [simp]: "bt_samples (bt_set f v s) = bt_samples s"
  by (simp add: bt_set_def)

lemma btn_duration_samples [simp]:
  "btn_duration b (s\<lparr>bt_samples := k\<rparr>) = btn_duration b s"
  by (cases b) simp_all

lemma debounce_loop_eq:
  "debounce_loop lvl pin n count s =
     (count + card {k. bt_samples s \<le> k \<and> k < bt_samples s + n \<and> lvl pin k = 1},
      s\<lparr>bt_samples := bt_samples s + n\<rparr>)"
proof (induction n arbitrary: count s)
  case 0
  have "{k. bt_samples s \<le> k \<and> k < bt_samples s + 0 \<and> lvl pin k = 1} = {}" by auto
  then show ?case by (simp del: Collect_conj_eq)
next
  case (Suc n)
  let ?k = "bt_samples s"
  let ?A = "{k. Suc ?k \<le> k \<and> k < Suc ?k + n \<and> lvl pin k = 1}"
  have "{k. ?k \<le> k \<and> k < ?k + Suc n \<and> lvl pin k = 1} = (if lvl pin ?k = 1 then insert ?k ?A else ?A)"
    by (auto simp: le_less Suc_le_eq)
  moreover have "finite ?A" "?k \<notin> ?A" by auto
  ultimately show ?case by (simp add: Let_def Suc.IH)
qed

lemma debounce_eq:
  "debounce lvl pin s =
     (card {k. bt_samples s \<le> k \<and> k < bt_samples s + 10 \<and> lvl pin k = 1} > 5,
      s\<lparr>bt_samples := bt_samples s + 10\<rparr>)"
  by (simp add: debounce_def debounce_loop_eq sample_count_def)

text \<open>A pin that keeps one level over the samples of a call reads as that level.\<close>

lemma debounce_stable:
  assumes "\<And>k. bt_samples s \<le> k \<Longrightarrow> k < bt_samples s + 10 \<Longrightarrow> lvl pin k = v"
  shows "debounce lvl pin s = (v = 1, s\<lparr>bt_samples := bt_samples s + 10\<rparr>)"
proof -
  have "{k. bt_samples s \<le> k \<and> k < bt_samples s + 10 \<and> lvl pin k = 1} =
        (if v = 1 then {bt_samples s ..< bt_samples s + 10} else {})"
    using assms by auto
  then show ?thesis by (simp add: debounce_eq)
qed

text \<open>How a release after \<open>d\<close> milliseconds is classified.\<close>

definition release_class :: "u32 \<Rightarrow> button \<Rightarrow> flag \<Rightarrow> bool" where
  "release_class d b f \<longleftrightarrow>
     (if d < BTN_PRESS_TIME then False
      else if d < BTN_LONGPRESS_TIME then f = btn_released_flag b
      else f = btn_longpress_flag b)"

lemma press_times: "BTN_PRESS_TIME \<le> BTN_LONGPRESS_TIME"
  by (simp add: BTN_PRESS_TIME_def BTN_LONGPRESS_TIME_def)

lemma btn_release_flags:
  "bt_get f (btn_release t b s) =
     (f \<noteq> btn_pressed_flag b \<and>
      (release_class (t - btn_duration b s) b f \<or> bt_get f s))"
  using press_times
  by (auto simp: btn_release_def Let_def release_class_def)

lemma btn_release_duration: "btn_duration b (btn_release t b s) = 0"
  by (simp add: btn_release_def Let_def)

lemma check_button_press:
  assumes "fst (debounce lvl (btn_pin b) s)" and "\<not> bt_get (btn_pressed_flag b) s"
  shows "check_button lvl t b s =
     btn_duration_put b t (bt_set (btn_pressed_flag b) True (s\<lparr>bt_samples := bt_samples s + 10\<rparr>))"
  using assms by (simp add: check_button_def debounce_eq)

lemma check_button_idle:
  assumes "\<not> fst (debounce lvl (btn_pin b) s)" and "\<not> bt_get (btn_pressed_flag b) s"
  shows "check_button lvl t b s = s\<lparr>bt_samples := bt_samples s + 20\<rparr>"
  using assms by (simp add: check_button_def debounce_eq)

lemma check_button_pressed:
  assumes "bt_get (btn_pressed_flag b) s"
  shows "check_button lvl t b s =
     (let s1 = s\<lparr>bt_samples := bt_samples s + 10\<rparr>;
          s2 = s\<lparr>bt_samples := bt_samples s + 20\<rparr>
      in if fst (debounce lvl (btn_pin b) s1) then s2 else btn_release t b s2)"
  using assms by (simp add: check_button_def debounce_eq Let_def add.commute)

text \<open>A block of one button leaves the flags and the time stamps of the others alone.\<close>

lemma check_button_frame:
  assumes "f \<noteq> btn_pressed_flag b" "f \<noteq> btn_released_flag b" "f \<noteq> btn_longpress_flag b"
  shows "bt_get f (check_button lvl t b s) = bt_get f s"
  using assms
  by (simp add: check_button_def debounce_eq btn_release_def Let_def)

lemma check_button_frame_duration:
  "a \<noteq> b \<Longrightarrow> btn_duration a (check_button lvl t b s) = btn_duration a s"
  by (simp add: check_button_def debounce_eq btn_release_def Let_def)

section \<open>The abstract button\<close>

text \<open>
  What one button promises to the rest of the firmware, when its pin is steady during a call:
  a four-field state (pressed, short release pending, long release pending, time stamp) and one
  step. \<open>check_buttons\<close> implements it for the three buttons at once.
\<close>

record btn_view =
  v_pressed :: bool
  v_short :: bool
  v_long :: bool
  v_since :: u32

definition btn_view_of :: "button \<Rightarrow> btn_state \<Rightarrow> btn_view" where
  "btn_view_of b s =
     \<lparr>v_pressed = bt_get (btn_pressed_flag b) s, v_short = bt_get (btn_released_flag b) s,
      v_long = bt_get (btn_longpress_flag b) s, v_since = btn_duration b s\<rparr>"

definition button_spec :: "bool \<Rightarrow> u32 \<Rightarrow> btn_view \<Rightarrow> btn_view" where
  "button_spec high t v =
     (if high \<and> \<not> v_pressed v then v\<lparr>v_pressed := True, v_since := t\<rparr>
      else if \<not> high \<and> v_pressed v
      then (let held = t - v_since v
            in v\<lparr>v_pressed := False,
                 v_short := (v_short v \<or> (30 \<le> held \<and> held < 1500)),
                 v_long := (v_long v \<or> 1500 \<le> held),
                 v_since := 0\<rparr>)
      else v)"

lemma check_button_spec:
  assumes "\<And>k. lvl (btn_pin b) k = v"
  shows "btn_view_of b (check_button lvl t b s) = button_spec (v = 1) t (btn_view_of b s)"
proof -
  have d: "debounce lvl (btn_pin b) u = (v = 1, u\<lparr>bt_samples := bt_samples u + 10\<rparr>)" for u
    by (rule debounce_stable) (rule assms)
  show ?thesis
    by (auto simp: check_button_def d btn_view_of_def button_spec_def btn_release_def Let_def
        BTN_PRESS_TIME_def BTN_LONGPRESS_TIME_def)
qed

lemma check_button_view_other:
  "a \<noteq> b \<Longrightarrow> btn_view_of a (check_button lvl t b s) = btn_view_of a s"
  by (simp add: btn_view_of_def check_button_frame check_button_frame_duration)

lemma check_buttons_refines_block:
  assumes "\<And>k. lvl (btn_pin b) k = v"
  shows "btn_view_of b (check_buttons lvl period ticks s) =
     button_spec (v = 1) (ticks * period) (btn_view_of b s)"
  using assms
  by (cases b)
    (simp_all add: check_buttons_def tick_ms_def Let_def check_button_spec check_button_view_other)

text \<open>
  C9. For every button whose pin keeps one level during the call, \<open>check_buttons\<close> does to that
  button exactly one step of the abstract button at the current time in milliseconds, whatever
  the other two pins do meanwhile and however the clock has wrapped.
\<close>

theorem check_buttons_refines_spec:
  assumes "\<And>k. lvl (btn_pin b) k = v"
  shows "btn_view_of b (check_buttons lvl period ticks s) =
     button_spec (v = 1) (ticks * period) (btn_view_of b s)"
  using assms by (rule check_buttons_refines_block)

theorem check_buttons_refines_spec_witness:
  "btn_view_of UP (check_buttons (\<lambda>pin k. if pin = 35 then 1 else 0) 10 200
       \<lparr>bt_flags = flags_init, btnEnterDuration = 0, btnUpDuration = 0, btnDownDuration = 0,
        bt_samples = 0\<rparr>) =
   \<lparr>v_pressed = True, v_short = False, v_long = False, v_since = 2000\<rparr>"
  by (subst check_buttons_refines_spec [where v = 1])
    (simp_all add: button_spec_def btn_view_of_def)

text \<open>
  C33. A press seen at some time and a release seen \<open>d\<close> milliseconds later are classified by \<open>d\<close>
  alone, on 32-bit times that may wrap in between: under 30 ms nothing is reported, from 30 ms
  to 1499 ms a short release, from 1500 ms a long one; the button ends up not pressed.
\<close>

theorem press_then_release:
  assumes "\<And>k. lvl1 (btn_pin b) k = 1" and "\<And>k. lvl2 (btn_pin b) k = 0"
    and "\<not> bt_get (btn_pressed_flag b) s"
    and "\<not> bt_get (btn_released_flag b) s" and "\<not> bt_get (btn_longpress_flag b) s"
  shows "btn_view_of b (check_buttons lvl2 1 (t + d) (check_buttons lvl1 1 t s)) =
     \<lparr>v_pressed = False, v_short = (30 \<le> d \<and> d < 1500), v_long = (1500 \<le> d), v_since = 0\<rparr>"
proof -
  have 1: "btn_view_of b (check_buttons lvl1 1 t u) = button_spec True t (btn_view_of b u)" for u
    using assms(1) by (simp add: check_buttons_refines_block)
  have 2: "btn_view_of b (check_buttons lvl2 1 (t + d) u) = button_spec False (t + d) (btn_view_of b u)"
    for u using assms(2) by (simp add: check_buttons_refines_block)
  show ?thesis unfolding 1 2
    using assms(3-5) by (simp add: button_spec_def btn_view_of_def Let_def)
qed

theorem press_then_release_witness:
  "btn_view_of ENTER
     (check_buttons (\<lambda>_ _. 0) 1 (4294967290 + 100)
       (check_buttons (\<lambda>_ _. 1) 1 4294967290
         \<lparr>bt_flags = flags_init, btnEnterDuration = 0, btnUpDuration = 0, btnDownDuration = 0,
          bt_samples = 0\<rparr>)) =
   \<lparr>v_pressed = False, v_short = True, v_long = False, v_since = 0\<rparr>"
  by (subst press_then_release) simp_all

end
