(* ===== verification/Lcd.thy ===== *)
theory Lcd
  imports Prelude
begin

text \<open>
  \<open>main/lcd_utils.c\<close>: the character display behind a PCF8574 I/O expander. A byte is sent as two
  nibbles in the high half of the expander's port, each written twice, with the enable line
  (bit 2) high and then low; bit 0 is the register select line and bit 3 the backlight.

  The first part models the routines as the list of I2C transactions they issue, with the return
  codes of the driver as a parameter. The second part is the contract: a model of the controller
  on the other side (an HD44780 with two lines, as its data sheet describes it), which latches a
  nibble on each falling edge of the enable line, and the proof that the routines drive it to show
  what they are given.
\<close>

section \<open>The bus and the two send routines\<close>

record lcd_bus =
  i2c_tx :: "(u8 \<times> u8 list) list"
  i2c_ret :: "nat \<Rightarrow> esp_err"

definition SLAVE_ADDRESS_LCD :: u8 where "SLAVE_ADDRESS_LCD = 0x27"

text \<open>One call of the driver: the transaction is recorded, its return code is the environment's.\<close>

definition i2c_write :: "u8 list \<Rightarrow> lcd_bus \<Rightarrow> esp_err \<times> lcd_bus" where
  "i2c_write data l =
     (i2c_ret l (length (i2c_tx l)), l\<lparr>i2c_tx := i2c_tx l @ [(SLAVE_ADDRESS_LCD, data)]\<rparr>)"

definition lcd_cmd_bytes :: "u8 \<Rightarrow> u8 list" where
  "lcd_cmd_bytes cmd =
     (let data_u = cmd AND 0xf0;
          data_l = push_bit 4 cmd AND 0xf0
      in [data_u OR 0x0C, data_u OR 0x08, data_l OR 0x0C, data_l OR 0x08])"

definition lcd_data_bytes :: "u8 \<Rightarrow> u8 list" where
  "lcd_data_bytes data =
     (let data_u = data AND 0xf0;
          data_l = push_bit 4 data AND 0xf0
      in [data_u OR 0x0D, data_u OR 0x09, data_l OR 0x0D, data_l OR 0x09])"

definition lcd_send_cmd :: "u8 \<Rightarrow> lcd_bus \<Rightarrow> esp_err \<times> lcd_bus" where
  "lcd_send_cmd cmd l = i2c_write (lcd_cmd_bytes cmd) l"

definition lcd_send_data :: "u8 \<Rightarrow> lcd_bus \<Rightarrow> esp_err \<times> lcd_bus" where
  "lcd_send_data data l = i2c_write (lcd_data_bytes data) l"

text \<open>The callers below all drop the return code.\<close>

definition send_cmd :: "u8 \<Rightarrow> lcd_bus \<Rightarrow> lcd_bus" where
  "send_cmd c l = snd (lcd_send_cmd c l)"

definition send_data :: "u8 \<Rightarrow> lcd_bus \<Rightarrow> lcd_bus" where
  "send_data c l = snd (lcd_send_data c l)"

section \<open>The routines built on them\<close>

definition char_byte :: "char \<Rightarrow> u8" where
  "char_byte c = word_of_nat (of_char c)"

fun lcd_send_string :: "string \<Rightarrow> lcd_bus \<Rightarrow> lcd_bus" where
  "lcd_send_string [] l = l"
| "lcd_send_string (c # cs) l = lcd_send_string cs (send_data (char_byte c) l)"

definition lcd_init :: "lcd_bus \<Rightarrow> lcd_bus" where
  "lcd_init l =
     foldl (\<lambda>b c. send_cmd c b) l
       [0x30, 0x30, 0x30, 0x20, 0x28, 0x08, 0x01, 0x06, 0x0C]"

fun lcd_spaces :: "nat \<Rightarrow> lcd_bus \<Rightarrow> lcd_bus" where
  "lcd_spaces 0 l = l"
| "lcd_spaces (Suc n) l = lcd_spaces n (send_data 0x20 l)"

definition lcd_clear :: "lcd_bus \<Rightarrow> lcd_bus" where
  "lcd_clear l = lcd_spaces 70 (send_cmd 0x80 l)"

definition lcd_clear_line :: "int \<Rightarrow> lcd_bus \<Rightarrow> lcd_bus" where
  "lcd_clear_line row l =
     lcd_spaces 16
       (if row = 1 then send_cmd 0x80 l
        else if row = 2 then send_cmd 0xC0 l
        else l)"

text \<open>\<open>col\<close> is an \<open>int\<close>, narrowed to \<open>char\<close> in the call of \<open>lcd_send_cmd\<close>.\<close>

definition lcd_put_cur :: "int \<Rightarrow> u32 \<Rightarrow> lcd_bus \<Rightarrow> lcd_bus" where
  "lcd_put_cur row col l =
     (let col' = (if row = 0 then col OR 0x80 else if row = 1 then col OR 0xC0 else col)
      in send_cmd (ucast col') l)"

section \<open>The controller\<close>

text \<open>
  The expander's output drives the controller: a nibble and the register select line are latched
  when enable goes from 1 to 0; two nibbles make a byte, the high one first.
\<close>

record lcd_dev =
  d_en :: bool
  d_half :: "(bool \<times> u8) option"
  d_addr :: nat
  d_ram :: "nat \<Rightarrow> u8"

text \<open>
  Display memory of a two-line controller: line 1 is 0x00 to 0x27, line 2 is 0x40 to 0x67, the
  address increments after a write and runs from the end of one line to the start of the other.
\<close>

definition ddram_next :: "nat \<Rightarrow> nat" where
  "ddram_next a = (if a = 0x27 then 0x40 else if a = 0x67 then 0 else a + 1)"

definition dev_byte :: "bool \<Rightarrow> u8 \<Rightarrow> lcd_dev \<Rightarrow> lcd_dev" where
  "dev_byte rs b d =
     (if rs then d\<lparr>d_ram := (d_ram d)(d_addr d := b), d_addr := ddram_next (d_addr d)\<rparr>
      else if bit b 7 then d\<lparr>d_addr := unat (b AND 0x7F)\<rparr>
      else if b = 1 then d\<lparr>d_ram := (\<lambda>_. 0x20), d_addr := 0\<rparr>
      else d)"

definition dev_port :: "lcd_dev \<Rightarrow> u8 \<Rightarrow> lcd_dev" where
  "dev_port d p =
     (if d_en d \<and> \<not> bit p 2
      then (case d_half d of
              None \<Rightarrow> d\<lparr>d_en := False, d_half := Some (bit p 0, p AND 0xf0)\<rparr>
            | Some (_, u) \<Rightarrow>
                dev_byte (bit p 0) (u OR drop_bit 4 (p AND 0xf0)) (d\<lparr>d_en := False, d_half := None\<rparr>))
      else d\<lparr>d_en := bit p 2\<rparr>)"

definition dev_run :: "lcd_dev \<Rightarrow> u8 list \<Rightarrow> lcd_dev" where
  "dev_run d ps = foldl dev_port d ps"

definition dev_of_bus :: "lcd_dev \<Rightarrow> lcd_bus \<Rightarrow> lcd_dev" where
  "dev_of_bus d l = dev_run d (concat (map snd (i2c_tx l)))"

definition dev_idle :: "lcd_dev \<Rightarrow> bool" where
  "dev_idle d \<longleftrightarrow> \<not> d_en d \<and> d_half d = None"

lemma nibbles_join:
  fixes u :: u8
  shows "(u AND 0xf0) OR drop_bit 4 (push_bit 4 u AND 0xf0) = u"
proof (rule bit_word_eqI)
  fix n assume "n < LENGTH(8)"
  then have "n < 8" by simp
  then show "bit ((u AND 0xf0) OR drop_bit 4 (push_bit 4 u AND 0xf0)) n = bit u n"
    using nat8_cases [OF \<open>n < 8\<close>] by (elim disjE) (simp_all add: bit_simps)
qed

lemma nibbles_join' [simp]:
  fixes u :: u8
  shows "(u AND 240) OR (drop_bit 4 (push_bit 4 u) AND 15) = u"
  using nibbles_join [of u] by simp

lemma port_bits:
  fixes u :: u8
  shows "bit ((u AND 0xf0) OR 0x0C) 2" "\<not> bit ((u AND 0xf0) OR 0x08) 2"
    "bit ((u AND 0xf0) OR 0x0D) 2" "\<not> bit ((u AND 0xf0) OR 0x09) 2"
    "\<not> bit ((u AND 0xf0) OR 0x08) 0" "bit ((u AND 0xf0) OR 0x09) 0"
    "((u AND 0xf0) OR 0x08) AND 0xf0 = u AND 0xf0" "((u AND 0xf0) OR 0x09) AND 0xf0 = u AND 0xf0"
  by (simp_all add: bit_simps bit.conj_disj_distrib2 and.assoc)

lemma dev_byte_idle: "dev_idle (dev_byte rs b d) = dev_idle d"
  by (simp add: dev_byte_def dev_idle_def)

lemma dev_idle_upd [simp]: "\<not> d_en d \<Longrightarrow> d_half d = None \<Longrightarrow> d\<lparr>d_en := False, d_half := None\<rparr> = d"
  by (cases d) simp

text \<open>The four port writes of a command or of a datum are one byte at the controller.\<close>

lemma dev_run_cmd: "dev_idle d \<Longrightarrow> dev_run d (lcd_cmd_bytes c) = dev_byte False c d"
  by (simp add: dev_run_def lcd_cmd_bytes_def Let_def dev_port_def port_bits nibbles_join dev_idle_def)

lemma dev_run_data: "dev_idle d \<Longrightarrow> dev_run d (lcd_data_bytes c) = dev_byte True c d"
  by (simp add: dev_run_def lcd_data_bytes_def Let_def dev_port_def port_bits nibbles_join dev_idle_def)

lemma dev_of_bus_write:
  "dev_of_bus d (snd (i2c_write bs l)) = dev_run (dev_of_bus d l) bs"
  by (simp add: dev_of_bus_def dev_run_def i2c_write_def)

lemma dev_of_bus_cmd [simp]:
  "dev_idle (dev_of_bus d l) \<Longrightarrow> dev_of_bus d (send_cmd c l) = dev_byte False c (dev_of_bus d l)"
  by (simp add: send_cmd_def lcd_send_cmd_def dev_of_bus_write dev_run_cmd)

lemma dev_of_bus_data [simp]:
  "dev_idle (dev_of_bus d l) \<Longrightarrow> dev_of_bus d (send_data c l) = dev_byte True c (dev_of_bus d l)"
  by (simp add: send_data_def lcd_send_data_def dev_of_bus_write dev_run_data)

definition dev_puts :: "u8 list \<Rightarrow> lcd_dev \<Rightarrow> lcd_dev" where
  "dev_puts bs d = foldl (\<lambda>e b. dev_byte True b e) d bs"

lemma dev_puts_idle [simp]: "dev_idle (dev_puts bs d) = dev_idle d"
  by (induction bs arbitrary: d) (simp_all add: dev_puts_def dev_byte_idle)

lemma dev_puts_append: "dev_puts (as @ bs) d = dev_puts bs (dev_puts as d)"
  by (simp add: dev_puts_def)

lemma dev_of_bus_string:
  "dev_idle (dev_of_bus d l) \<Longrightarrow>
   dev_of_bus d (lcd_send_string s l) = dev_puts (map char_byte s) (dev_of_bus d l)"
  by (induction s arbitrary: l) (simp_all add: dev_puts_def dev_byte_idle)

lemma dev_of_bus_spaces:
  "dev_idle (dev_of_bus d l) \<Longrightarrow>
   dev_of_bus d (lcd_spaces n l) = dev_puts (replicate n 0x20) (dev_of_bus d l)"
  by (induction n arbitrary: l) (simp_all add: dev_puts_def dev_byte_idle)

section \<open>What the display shows\<close>

text \<open>A run of bytes that stays inside one line.\<close>

definition one_line :: "nat \<Rightarrow> nat \<Rightarrow> bool" where
  "one_line a n \<longleftrightarrow> a + n \<le> 0x28 \<or> (0x40 \<le> a \<and> a + n \<le> 0x68)"

lemma dev_puts_ram:
  "one_line (d_addr d) (length bs) \<Longrightarrow>
   d_ram (dev_puts bs d) x =
     (if d_addr d \<le> x \<and> x < d_addr d + length bs then bs ! (x - d_addr d) else d_ram d x)"
proof (induction bs arbitrary: d)
  case Nil
  then show ?case by (auto simp: dev_puts_def)
next
  case (Cons b bs)
  let ?e = "dev_byte True b d"
  have e: "dev_puts (b # bs) d = dev_puts bs ?e" by (simp add: dev_puts_def)
  show ?case
  proof (cases "bs = []")
    case True
    then show ?thesis by (auto simp: dev_puts_def dev_byte_def)
  next
    case False
    then have n: "1 \<le> length bs" by (cases bs) auto
    with Cons.prems have a: "d_addr ?e = d_addr d + 1"
      by (auto simp: dev_byte_def ddram_next_def one_line_def)
    with Cons.prems have "one_line (d_addr ?e) (length bs)" by (auto simp: one_line_def)
    from Cons.IH [OF this] have "d_ram (dev_puts (b # bs) d) x =
        (if d_addr d + 1 \<le> x \<and> x < d_addr d + 1 + length bs then bs ! (x - (d_addr d + 1))
         else d_ram ?e x)"
      by (simp only: e a)
    moreover have "d_ram ?e = (d_ram d)(d_addr d := b)" by (simp add: dev_byte_def)
    ultimately show ?thesis by (auto simp: nth_Cons')
  qed
qed

lemma dev_puts_addr:
  "one_line (d_addr d) (length bs) \<Longrightarrow> bs \<noteq> [] \<Longrightarrow>
   d_addr (dev_puts bs d) = ddram_next (d_addr d + length bs - 1)"
proof (induction bs arbitrary: d)
  case Nil
  then show ?case by simp
next
  case (Cons b bs)
  let ?e = "dev_byte True b d"
  have e: "dev_puts (b # bs) d = dev_puts bs ?e" by (simp add: dev_puts_def)
  show ?case
  proof (cases "bs = []")
    case True
    then show ?thesis by (simp add: dev_puts_def dev_byte_def)
  next
    case False
    then have n: "1 \<le> length bs" by (cases bs) auto
    with Cons.prems have a: "d_addr ?e = d_addr d + 1"
      by (auto simp: dev_byte_def ddram_next_def one_line_def)
    with Cons.prems have "one_line (d_addr ?e) (length bs)" by (auto simp: one_line_def)
    from Cons.IH [OF this False] show ?thesis by (simp add: e a)
  qed
qed

text \<open>The text of the 16 visible columns of a line.\<close>

definition visible :: "lcd_dev \<Rightarrow> nat \<Rightarrow> u8 list" where
  "visible d row = map (\<lambda>c. d_ram d (0x40 * row + c)) [0..<16]"

definition padded :: "string \<Rightarrow> u8 list" where
  "padded s = take 16 (map char_byte s @ replicate 16 0x20)"

lemma dev_clear:
  assumes "dev_idle (dev_of_bus d l)"
  shows "dev_idle (dev_of_bus d (lcd_clear l))"
    and "c < 40 \<Longrightarrow> d_ram (dev_of_bus d (lcd_clear l)) c = 0x20"
    and "c < 30 \<Longrightarrow> d_ram (dev_of_bus d (lcd_clear l)) (0x40 + c) = 0x20"
proof -
  let ?d0 = "dev_byte False 0x80 (dev_of_bus d l)"
  let ?d1 = "dev_puts (replicate 40 0x20) ?d0"
  have z: "d_addr ?d0 = 0" by (simp add: dev_byte_def)
  have one: "d_ram ?d1 x = (if x < 40 then 0x20 else d_ram ?d0 x)" for x
    by (subst dev_puts_ram) (simp_all add: z one_line_def)
  have a1: "d_addr ?d1 = 0x40"
    by (subst dev_puts_addr) (simp_all add: z one_line_def ddram_next_def)
  have r: "replicate 70 (0x20 :: u8) = replicate 40 0x20 @ replicate 30 0x20"
    by (simp flip: replicate_add)
  have eq: "dev_of_bus d (lcd_clear l) = dev_puts (replicate 30 0x20) ?d1"
    unfolding lcd_clear_def
    by (subst dev_of_bus_spaces) (simp_all add: assms dev_byte_idle r dev_puts_append)
  have two: "d_ram (dev_puts (replicate 30 0x20) ?d1) x =
      (if 0x40 \<le> x \<and> x < 0x40 + 30 then 0x20 else d_ram ?d1 x)" for x
    by (subst dev_puts_ram) (auto simp: a1 one_line_def)
  show "dev_idle (dev_of_bus d (lcd_clear l))"
    by (simp add: eq dev_byte_idle assms)
  show "c < 40 \<Longrightarrow> d_ram (dev_of_bus d (lcd_clear l)) c = 0x20" by (simp add: eq two one)
  show "c < 30 \<Longrightarrow> d_ram (dev_of_bus d (lcd_clear l)) (0x40 + c) = 0x20" by (simp add: eq two)
qed

text \<open>\<open>lcd_put_cur\<close> to the start of a line.\<close>

lemma dev_put_cur:
  assumes "dev_idle (dev_of_bus d l)"
  shows "dev_of_bus d (lcd_put_cur 0 0 l) = (dev_of_bus d l)\<lparr>d_addr := 0\<rparr>"
    and "dev_of_bus d (lcd_put_cur 1 0 l) = (dev_of_bus d l)\<lparr>d_addr := 0x40\<rparr>"
  using assms by (simp_all add: lcd_put_cur_def Let_def dev_byte_def)

lemma dev_idle_addr [simp]: "dev_idle (d\<lparr>d_addr := a\<rparr>) = dev_idle d"
  by (simp add: dev_idle_def)

section \<open>Two lines of text\<close>

text \<open>The two calls with which the firmware writes a line.\<close>

definition lcd_row :: "int \<Rightarrow> string \<Rightarrow> lcd_bus \<Rightarrow> lcd_bus" where
  "lcd_row row s b = lcd_send_string s (lcd_put_cur row 0 b)"

lemma dev_row:
  assumes "dev_idle (dev_of_bus d l)" and "r = 0 \<or> r = 1" and "length s \<le> 40"
  shows "dev_idle (dev_of_bus d (lcd_row r s l))"
    and "d_ram (dev_of_bus d (lcd_row r s l)) x =
      (if 0x40 * nat r \<le> x \<and> x < 0x40 * nat r + length s then char_byte (s ! (x - 0x40 * nat r))
       else d_ram (dev_of_bus d l) x)"
proof -
  have c: "dev_of_bus d (lcd_put_cur r 0 l) = (dev_of_bus d l)\<lparr>d_addr := 0x40 * nat r\<rparr>"
    using assms(2) dev_put_cur [OF assms(1)] by auto
  have e: "dev_of_bus d (lcd_row r s l) = dev_puts (map char_byte s) ((dev_of_bus d l)\<lparr>d_addr := 0x40 * nat r\<rparr>)"
    unfolding lcd_row_def by (subst dev_of_bus_string) (simp_all add: c assms(1))
  show "dev_idle (dev_of_bus d (lcd_row r s l))" by (simp add: e assms(1))
  show "d_ram (dev_of_bus d (lcd_row r s l)) x =
      (if 0x40 * nat r \<le> x \<and> x < 0x40 * nat r + length s then char_byte (s ! (x - 0x40 * nat r))
       else d_ram (dev_of_bus d l) x)"
    unfolding e by (subst dev_puts_ram) (use assms(2,3) in \<open>auto simp: one_line_def\<close>)
qed

lemma visible_padded:
  assumes "\<And>c. c < 16 \<Longrightarrow> d_ram d (0x40 * r + c) = (if c < length s then char_byte (s ! c) else 0x20)"
  shows "visible d r = padded s"
  by (rule nth_equalityI) (auto simp: visible_def padded_def assms nth_append)

lemma two_rows_visible:
  assumes "dev_idle (dev_of_bus d l)" and "length a \<le> 40" and "length b \<le> 40"
  shows "visible (dev_of_bus d (lcd_row 1 b (lcd_row 0 a (lcd_clear l)))) 0 = padded a"
    and "visible (dev_of_bus d (lcd_row 1 b (lcd_row 0 a (lcd_clear l)))) 1 = padded b"
proof -
  note cl = dev_clear [OF assms(1)]
  note r0 = dev_row [OF cl(1), of 0 a]
  have i0: "dev_idle (dev_of_bus d (lcd_row 0 a (lcd_clear l)))" using r0(1) assms(2) by simp
  note r1 = dev_row(2) [OF i0, of 1 b]
  show "visible (dev_of_bus d (lcd_row 1 b (lcd_row 0 a (lcd_clear l)))) 0 = padded a"
    by (rule visible_padded) (use r0(2) r1 cl(2) assms(2,3) in auto)
  show "visible (dev_of_bus d (lcd_row 1 b (lcd_row 0 a (lcd_clear l)))) 1 = padded b"
    by (rule visible_padded) (use r0(2) r1 cl(3) assms(2,3) in auto)
qed

section \<open>Properties\<close>

lemma two_lines_shown_parts:
  assumes "dev_idle (dev_of_bus d l)" and "length a \<le> 40" and "length b \<le> 40"
  defines "l' \<equiv> lcd_send_string b (lcd_put_cur 1 0 (lcd_send_string a (lcd_put_cur 0 0 (lcd_clear l))))"
  shows "visible (dev_of_bus d l') 0 = padded a" and "visible (dev_of_bus d l') 1 = padded b"
  using two_rows_visible [OF assms(1-3)] by (simp_all add: l'_def lcd_row_def)

text \<open>
  C32. After \<open>lcd_clear\<close> and a text for each line, the 16 columns of the two lines show the two
  texts, cut off or filled up with blanks, whatever the display showed before.
\<close>

theorem two_lines_shown:
  assumes "dev_idle (dev_of_bus d l)" and "length a \<le> 40" and "length b \<le> 40"
  defines "l' \<equiv> lcd_send_string b (lcd_put_cur 1 0 (lcd_send_string a (lcd_put_cur 0 0 (lcd_clear l))))"
  shows "visible (dev_of_bus d l') 0 = padded a \<and> visible (dev_of_bus d l') 1 = padded b"
  using two_lines_shown_parts [OF assms(1-3)] by (simp add: l'_def)

theorem two_lines_shown_witness:
  "visible (dev_of_bus \<lparr>d_en = False, d_half = None, d_addr = 7, d_ram = (\<lambda>_. 0)\<rparr>
     (lcd_send_string ''WIFI'' (lcd_put_cur 1 0 (lcd_send_string ''INICIANDO'' (lcd_put_cur 0 0
        (lcd_clear \<lparr>i2c_tx = [], i2c_ret = (\<lambda>_. 0)\<rparr>)))))) 1 = padded ''WIFI''"
  by (rule two_lines_shown [THEN conjunct2]) (simp_all add: dev_of_bus_def dev_run_def dev_idle_def)

end
