(* ===== verification/Gpio.thy ===== *)
theory Gpio
  imports Prelude
begin

text \<open>
  \<open>main/devicesRelay_utils.c\<close>, the relay driver, and the output registers of the chip it writes
  through \<open>gpio_set_level\<close> (\<open>components/driver/gpio/gpio.c\<close> and the register accesses of
  \<open>components/hal/esp32/include/hal/gpio_ll.h\<close>). A pin number is a C \<open>int\<close>; a shift by a negative
  number or past the width is undefined and has no value here.
\<close>

section \<open>Registers\<close>

record gpio_dev =
  g_enable :: u32
  g_out :: u32
  g_out1 :: u32
  g_log :: "(int \<times> nat) list"

abbreviation (input) ESP_ERR_INVALID_ARG :: esp_err where "ESP_ERR_INVALID_ARG \<equiv> 0x102"

text \<open>
  \<open>SOC_GPIO_VALID_OUTPUT_GPIO_MASK\<close>: pins 0 to 39 without 24, 28 to 31 and the inputs 34 to 39. For a number from
  64 on (no pin of the chip; it would have to come from the storage) the shift in \<open>GPIO_IS_VALID_OUTPUT_GPIO\<close> is
  undefined in C; here it is an invalid pin.
\<close>

definition valid_output_gpio :: "int \<Rightarrow> bool" where
  "valid_output_gpio pin \<longleftrightarrow>
     0 \<le> pin \<and> pin < 34 \<and> pin \<notin> {24, 28, 29, 30, 31}"

definition gpio_ll_set_level :: "nat \<Rightarrow> nat \<Rightarrow> gpio_dev \<Rightarrow> gpio_dev" where
  "gpio_ll_set_level pin level g =
     (if level \<noteq> 0
      then (if pin < 32 then g\<lparr>g_out := g_out g OR push_bit pin 1\<rparr>
            else g\<lparr>g_out1 := g_out1 g OR push_bit (pin - 32) 1\<rparr>)
      else (if pin < 32 then g\<lparr>g_out := g_out g AND NOT (push_bit pin 1)\<rparr>
            else g\<lparr>g_out1 := g_out1 g AND NOT (push_bit (pin - 32) 1)\<rparr>))"

text \<open>Every call is also logged, with its pin and level, whether the pin is valid or not.\<close>

definition gpio_set_level :: "int \<Rightarrow> nat \<Rightarrow> gpio_dev \<Rightarrow> esp_err \<times> gpio_dev" where
  "gpio_set_level pin level g =
     (let g' = g\<lparr>g_log := g_log g @ [(pin, level)]\<rparr>
      in if valid_output_gpio pin then (ESP_OK, gpio_ll_set_level (nat pin) level g')
         else (ESP_ERR_INVALID_ARG, g'))"

section \<open>setPower and get\_gpio\_output\_gpio\_level\<close>

text \<open>The relay is active low: powered is level 0. The port is a \<open>uint8_t\<close>.\<close>

definition setPower :: "bool \<Rightarrow> u8 \<Rightarrow> gpio_dev \<Rightarrow> gpio_dev" where
  "setPower isPowered gpioPort g =
     (if isPowered then snd (gpio_set_level (uint gpioPort) 0 g)
      else snd (gpio_set_level (uint gpioPort) 1 g))"

text \<open>
  The result is \<open>None\<close> where the C shift \<open>1ULL << pin\<close> is undefined. \<open>GPIO.enable\<close> is a 32-bit
  register, so the test against a 64-bit mask fails for every pin from 32 on.
\<close>

definition get_gpio_output_gpio_level :: "int \<Rightarrow> gpio_dev \<Rightarrow> int option" where
  "get_gpio_output_gpio_level pin g =
     (if pin < 0 \<or> 64 \<le> pin then None
      else if (ucast (g_enable g) :: 64 word) AND push_bit (nat pin) 1 \<noteq> 0
      then Some (if pin < 32 then of_bool (bit (g_out g) (nat pin))
                 else of_bool (bit (g_out1 g) (nat pin - 32)))
      else Some (-1))"

section \<open>Facts\<close>

lemma mask_bit: "((w :: 64 word) AND push_bit n 1 \<noteq> 0) = bit w n"
  by (simp add: and_exp_eq_0_iff_not_bit)

lemma get_level_enabled:
  assumes "0 \<le> pin" "pin < 32" "bit (g_enable g) (nat pin)"
  shows "get_gpio_output_gpio_level pin g = Some (of_bool (bit (g_out g) (nat pin)))"
  using assms by (simp add: get_gpio_output_gpio_level_def mask_bit bit_simps del: push_bit_of_1)

lemma out_bit_set_level:
  assumes "p < 32" "q < 32"
  shows "bit (g_out (gpio_ll_set_level p level g)) q =
     (if p = q then level \<noteq> 0 else bit (g_out g) q)"
  using assms by (auto simp: gpio_ll_set_level_def bit_simps)

lemma gpio_ll_frame [simp]: "g_enable (gpio_ll_set_level p level g) = g_enable g"
  by (simp add: gpio_ll_set_level_def)

lemma gpio_set_level_out:
  assumes "valid_output_gpio p" "p < 32" "q < 32"
  shows "bit (g_out (snd (gpio_set_level p level g))) q =
     (if nat p = q then level \<noteq> 0 else bit (g_out g) q)"
  using assms by (simp add: gpio_set_level_def valid_output_gpio_def out_bit_set_level Let_def)

lemma gpio_set_level_enable [simp]: "g_enable (snd (gpio_set_level p level g)) = g_enable g"
  by (simp add: gpio_set_level_def Let_def)

lemma setPower_eq: "setPower on port g = snd (gpio_set_level (uint port) (of_bool (\<not> on)) g)"
  by (simp add: setPower_def)

lemma setPower_enable [simp]: "g_enable (setPower on port g) = g_enable g"
  by (simp add: setPower_eq)

lemma setPower_log: "g_log (setPower on port g) = g_log g @ [(uint port, of_bool (\<not> on))]"
  by (simp add: setPower_eq gpio_set_level_def gpio_ll_set_level_def Let_def)

section \<open>Properties\<close>

text \<open>
  C35. On an output pin below 32 the level that \<open>get_gpio_output_gpio_level\<close> reads after
  \<open>setPower\<close> is 0 when the relay was powered and 1 when not (the relay is active low), and every
  other pin reads as before.
\<close>

theorem setPower_read_back:
  assumes "valid_output_gpio p" and "p < 32" and "uint port = p"
    and "bit (g_enable g) (nat p)" and "0 \<le> q" and "q < 32" and "bit (g_enable g) (nat q)"
  shows "get_gpio_output_gpio_level q (setPower on port g) =
     (if q = p then Some (if on then 0 else 1) else get_gpio_output_gpio_level q g)"
proof -
  have p0: "0 \<le> p" using assms(1) by (simp add: valid_output_gpio_def)
  have "bit (g_out (setPower on port g)) (nat q) =
      (if nat p = nat q then \<not> on else bit (g_out g) (nat q))"
    using assms p0 by (simp add: setPower_eq gpio_set_level_out nat_less_iff)
  then show ?thesis
    using assms p0 by (auto simp: get_level_enabled eq_nat_nat_iff)
qed

theorem setPower_read_back_witness:
  "get_gpio_output_gpio_level 23
     (setPower True 23 \<lparr>g_enable = 0x800000, g_out = 0x800000, g_out1 = 0, g_log = []\<rparr>) = Some 0"
  by (subst setPower_read_back [where p = 23]) (simp_all add: valid_output_gpio_def bit_simps)

text \<open>
  For the pins 32 to 39 the level is never read: the test of the 32-bit enable register
  against a mask above bit 31 always fails, so the result is -1 even when the pin is an output
  that is being driven, and the branch that reads the second output register is unreachable.
\<close>

theorem high_pins_never_outputs:
  assumes "32 \<le> pin" and "pin < 64"
  shows "get_gpio_output_gpio_level pin g = Some (-1)"
proof -
  have "\<not> bit (g_enable g) (nat pin)" using assms by (auto dest: bit_imp_le_length)
  then show ?thesis
    using assms by (simp add: get_gpio_output_gpio_level_def mask_bit bit_simps del: push_bit_of_1)
qed

theorem high_pins_never_outputs_witness:
  "valid_output_gpio 33 \<and> get_gpio_output_gpio_level 33
     (snd (gpio_set_level 33 1 \<lparr>g_enable = 0, g_out = 0, g_out1 = 0, g_log = []\<rparr>)) = Some (-1)"
  by (subst high_pins_never_outputs) (simp_all add: valid_output_gpio_def)

end
