(* ===== verification/NvsApi.thy ===== *)
theory NvsApi
  imports Prelude
begin

text \<open>
  The part of the non-volatile storage that the firmware calls
  (\<open>components/nvs_flash/src/nvs_api.cpp\<close>, \<open>nvs_handle_simple.cpp\<close>, \<open>nvs_storage.cpp\<close>) at the
  level of its API: the namespace \<open>storage\<close> with its string items and its \<open>uint8_t\<close> items.
  Items are found by type and key, so the two kinds are two maps. Keys have at most 15
  characters and a string with its terminator at most 4000 bytes. Every call may also fail for a
  reason below this level (flash, memory): the parameter \<open>nv_fault\<close> gives the error code the
  \<open>k\<close>-th call fails with, \<open>ESP_OK\<close> when it does not.

  The locale \<open>item_store\<close> is the interface \<open>nvs_utils.c\<close> rests on.
\<close>

section \<open>State\<close>

abbreviation (input) ESP_ERR_NVS_NOT_FOUND :: esp_err where "ESP_ERR_NVS_NOT_FOUND \<equiv> 0x1102"
abbreviation (input) ESP_ERR_NVS_READ_ONLY :: esp_err where "ESP_ERR_NVS_READ_ONLY \<equiv> 0x1104"
abbreviation (input) ESP_ERR_NVS_KEY_TOO_LONG :: esp_err where "ESP_ERR_NVS_KEY_TOO_LONG \<equiv> 0x1109"
abbreviation (input) ESP_ERR_NVS_INVALID_LENGTH :: esp_err where "ESP_ERR_NVS_INVALID_LENGTH \<equiv> 0x110c"
abbreviation (input) ESP_ERR_NVS_NO_FREE_PAGES :: esp_err where "ESP_ERR_NVS_NO_FREE_PAGES \<equiv> 0x110d"
abbreviation (input) ESP_ERR_NVS_VALUE_TOO_LONG :: esp_err where "ESP_ERR_NVS_VALUE_TOO_LONG \<equiv> 0x110e"
abbreviation (input) ESP_ERR_NVS_NEW_VERSION_FOUND :: esp_err where
  "ESP_ERR_NVS_NEW_VERSION_FOUND \<equiv> 0x1110"

datatype open_mode = NVS_READONLY | NVS_READWRITE

record nvs =
  nv_ns :: bool
  nv_str :: "string \<rightharpoonup> string"
  nv_u8 :: "string \<rightharpoonup> u8"
  nv_fault :: "nat \<Rightarrow> esp_err"
  nv_calls :: nat

definition nvs_call :: "nvs \<Rightarrow> esp_err \<times> nvs" where
  "nvs_call n = (nv_fault n (nv_calls n), n\<lparr>nv_calls := Suc (nv_calls n)\<rparr>)"

section \<open>Operations\<close>

text \<open>Opening read-only needs the namespace to exist, opening read-write creates it.\<close>

definition nvs_open :: "open_mode \<Rightarrow> nvs \<Rightarrow> esp_err \<times> nvs" where
  "nvs_open mode n =
     (case nvs_call n of (e, n1) \<Rightarrow>
        if e \<noteq> ESP_OK then (e, n1)
        else if nv_ns n1 then (ESP_OK, n1)
        else if mode = NVS_READONLY then (ESP_ERR_NVS_NOT_FOUND, n1)
        else (ESP_OK, n1\<lparr>nv_ns := True\<rparr>))"

definition nvs_check_item :: "open_mode \<Rightarrow> string \<Rightarrow> nat \<Rightarrow> nvs \<Rightarrow> esp_err \<times> nvs" where
  "nvs_check_item mode key sz n =
     (if mode = NVS_READONLY then (ESP_ERR_NVS_READ_ONLY, n)
      else if 15 < length key then (ESP_ERR_NVS_KEY_TOO_LONG, n)
      else if 4000 < sz then (ESP_ERR_NVS_VALUE_TOO_LONG, n)
      else nvs_call n)"

definition nvs_set_str :: "open_mode \<Rightarrow> string \<Rightarrow> string \<Rightarrow> nvs \<Rightarrow> esp_err \<times> nvs" where
  "nvs_set_str mode key v n =
     (case nvs_check_item mode key (length v + 1) n of (e, n1) \<Rightarrow>
        if e \<noteq> ESP_OK then (e, n1) else (ESP_OK, n1\<lparr>nv_str := (nv_str n1)(key \<mapsto> v)\<rparr>))"

definition nvs_set_u8 :: "open_mode \<Rightarrow> string \<Rightarrow> u8 \<Rightarrow> nvs \<Rightarrow> esp_err \<times> nvs" where
  "nvs_set_u8 mode key v n =
     (case nvs_check_item mode key 1 n of (e, n1) \<Rightarrow>
        if e \<noteq> ESP_OK then (e, n1) else (ESP_OK, n1\<lparr>nv_u8 := (nv_u8 n1)(key \<mapsto> v)\<rparr>))"

text \<open>
  \<open>nvs_get_str\<close> with a buffer of \<open>len\<close> bytes that holds \<open>buf\<close>: the buffer is written only when the
  string and its terminator fit.
\<close>

definition nvs_get_str :: "string \<Rightarrow> string \<Rightarrow> nat \<Rightarrow> nvs \<Rightarrow> esp_err \<times> string \<times> nvs" where
  "nvs_get_str key buf len n =
     (case nvs_call n of (e, n1) \<Rightarrow>
        if e \<noteq> ESP_OK then (e, buf, n1)
        else (case nv_str n1 key of
                None \<Rightarrow> (ESP_ERR_NVS_NOT_FOUND, buf, n1)
              | Some v \<Rightarrow>
                  if len < length v + 1 then (ESP_ERR_NVS_INVALID_LENGTH, buf, n1)
                  else (ESP_OK, v, n1)))"

definition nvs_get_u8 :: "string \<Rightarrow> u8 \<Rightarrow> nvs \<Rightarrow> esp_err \<times> u8 \<times> nvs" where
  "nvs_get_u8 key out n =
     (case nvs_call n of (e, n1) \<Rightarrow>
        if e \<noteq> ESP_OK then (e, out, n1)
        else (case nv_u8 n1 key of
                None \<Rightarrow> (ESP_ERR_NVS_NOT_FOUND, out, n1)
              | Some v \<Rightarrow> (ESP_OK, v, n1)))"

text \<open>A handle that is open commits at once: every set has already been written.\<close>

definition nvs_commit :: "nvs \<Rightarrow> esp_err \<times> nvs" where
  "nvs_commit n = (ESP_OK, n)"

definition nvs_close :: "nvs \<Rightarrow> nvs" where
  "nvs_close n = n"

definition nvs_flash_erase :: "nvs \<Rightarrow> esp_err \<times> nvs" where
  "nvs_flash_erase n =
     (case nvs_call n of (e, n1) \<Rightarrow>
        if e \<noteq> ESP_OK then (e, n1)
        else (ESP_OK, n1\<lparr>nv_ns := False, nv_str := Map.empty, nv_u8 := Map.empty\<rparr>))"

definition nvs_flash_init :: "nvs \<Rightarrow> esp_err \<times> nvs" where
  "nvs_flash_init n = nvs_call n"

section \<open>The interface of a store of items\<close>

locale item_store =
  fixes set_item :: "string \<Rightarrow> 'v \<Rightarrow> 's \<Rightarrow> esp_err \<times> 's"
    and lookup :: "'s \<Rightarrow> string \<rightharpoonup> 'v"
  assumes set_ok: "fst (set_item k v s) = ESP_OK \<Longrightarrow> lookup (snd (set_item k v s)) = (lookup s)(k \<mapsto> v)"
    and set_err: "fst (set_item k v s) \<noteq> ESP_OK \<Longrightarrow> lookup (snd (set_item k v s)) = lookup s"
begin

lemma set_same: "fst (set_item k v s) = ESP_OK \<Longrightarrow> lookup (snd (set_item k v s)) k = Some v"
  by (simp add: set_ok)

lemma set_other: "k \<noteq> k' \<Longrightarrow> lookup (snd (set_item k v s)) k' = lookup s k'"
  by (cases "fst (set_item k v s) = ESP_OK") (simp_all add: set_ok set_err)

text \<open>An item is the old one or the new one, whatever the call returns.\<close>

lemma set_old_or_new:
  "lookup (snd (set_item k v s)) k = Some v \<or> lookup (snd (set_item k v s)) k = lookup s k"
  by (cases "fst (set_item k v s) = ESP_OK") (simp_all add: set_ok set_err)

lemma fold_other:
  "k \<notin> fst ` set kvs \<Longrightarrow>
   lookup (foldl (\<lambda>m (k, v). snd (set_item k v m)) s kvs) k = lookup s k"
  by (induction kvs arbitrary: s) (auto simp: set_other)

lemma set_dom: "dom (lookup s) \<subseteq> dom (lookup (snd (set_item k v s)))"
  by (cases "fst (set_item k v s) = ESP_OK") (auto simp: set_ok set_err)

end

interpretation strs: item_store "nvs_set_str NVS_READWRITE" nv_str
  by unfold_locales
    (auto simp: nvs_set_str_def nvs_check_item_def nvs_call_def split: prod.splits if_splits)

interpretation u8s: item_store "nvs_set_u8 NVS_READWRITE" nv_u8
  by unfold_locales
    (auto simp: nvs_set_u8_def nvs_check_item_def nvs_call_def split: prod.splits if_splits)

section \<open>A store without faults\<close>

text \<open>No call fails below the API; the facts the functional properties are stated under.\<close>

definition nv_healthy :: "nvs \<Rightarrow> bool" where
  "nv_healthy n \<longleftrightarrow> nv_fault n = (\<lambda>_. ESP_OK)"

lemma nvs_call_healthy [simp]:
  "nv_healthy n \<Longrightarrow> nvs_call n = (ESP_OK, n\<lparr>nv_calls := Suc (nv_calls n)\<rparr>)"
  by (simp add: nvs_call_def nv_healthy_def)

lemma nv_healthy_update [simp]:
  "nv_healthy (n\<lparr>nv_calls := c\<rparr>) = nv_healthy n" "nv_healthy (n\<lparr>nv_str := m\<rparr>) = nv_healthy n"
  "nv_healthy (n\<lparr>nv_u8 := m'\<rparr>) = nv_healthy n" "nv_healthy (n\<lparr>nv_ns := b\<rparr>) = nv_healthy n"
  by (simp_all add: nv_healthy_def)

lemma nvs_open_rw [simp]:
  "nv_healthy n \<Longrightarrow>
   nvs_open NVS_READWRITE n = (ESP_OK, n\<lparr>nv_calls := Suc (nv_calls n), nv_ns := True\<rparr>)"
  by (simp add: nvs_open_def)

lemma nvs_open_ro [simp]:
  "nv_healthy n \<Longrightarrow> nv_ns n \<Longrightarrow>
   nvs_open NVS_READONLY n = (ESP_OK, n\<lparr>nv_calls := Suc (nv_calls n)\<rparr>)"
  by (simp add: nvs_open_def)

lemma nvs_set_str_healthy [simp]:
  "nv_healthy n \<Longrightarrow> length k \<le> 15 \<Longrightarrow> length v < 4000 \<Longrightarrow>
   nvs_set_str NVS_READWRITE k v n =
     (ESP_OK, n\<lparr>nv_calls := Suc (nv_calls n), nv_str := (nv_str n)(k \<mapsto> v)\<rparr>)"
  by (simp add: nvs_set_str_def nvs_check_item_def)

lemma nvs_set_u8_healthy [simp]:
  "nv_healthy n \<Longrightarrow> length k \<le> 15 \<Longrightarrow>
   nvs_set_u8 NVS_READWRITE k v n =
     (ESP_OK, n\<lparr>nv_calls := Suc (nv_calls n), nv_u8 := (nv_u8 n)(k \<mapsto> v)\<rparr>)"
  by (simp add: nvs_set_u8_def nvs_check_item_def)

lemma nvs_get_str_healthy [simp]:
  "nv_healthy n \<Longrightarrow> nv_str n k = Some v \<Longrightarrow> length v < len \<Longrightarrow>
   nvs_get_str k buf len n = (ESP_OK, v, n\<lparr>nv_calls := Suc (nv_calls n)\<rparr>)"
  by (simp add: nvs_get_str_def)

lemma nvs_get_u8_healthy [simp]:
  "nv_healthy n \<Longrightarrow> nv_u8 n k = Some v \<Longrightarrow>
   nvs_get_u8 k out n = (ESP_OK, v, n\<lparr>nv_calls := Suc (nv_calls n)\<rparr>)"
  by (simp add: nvs_get_u8_def)

end
