(* ===== verification/NvsUtils.thy ===== *)
theory NvsUtils
  imports NvsApi
begin

text \<open>
  \<open>main/nvs_utils.c\<close>: the settings of the device in non-volatile storage. Each routine opens the
  namespace \<open>storage\<close>, makes its calls in order, logs the failures and goes on, as the source
  does. Buffers that a routine writes (\<open>ssid\<close>, \<open>url\<close>, \<open>firmwareVersion\<close>) are passed in and
  returned, with the size of the buffer where the C code passes one.
\<close>

section \<open>Constants and keys\<close>

definition FIRMWARE :: string where "FIRMWARE = ''1.0.1''"

definition URL_MAX_LEN :: nat where "URL_MAX_LEN = 256"
definition SERVER_URL_MAX_LEN :: nat where "SERVER_URL_MAX_LEN = 156"
definition WIFI_SSID_MAX_LEN :: nat where "WIFI_SSID_MAX_LEN = 32"
definition WIFI_PASS_MAX_LEN :: nat where "WIFI_PASS_MAX_LEN = 64"

definition disp_url_of :: "string \<Rightarrow> string" where
  "disp_url_of device_id =
     ''https://sicaewebapp-default-rtdb.firebaseio.com/dispositivos/'' @ device_id @ ''/data/''"

definition events_url_of :: "string \<Rightarrow> string" where
  "events_url_of device_id =
     ''https://sicaewebapp-default-rtdb.firebaseio.com/events/'' @ device_id @ ''/''"

text \<open>The key of a device's pin, \<open>"device-%d"\<close> in a buffer of 16 bytes.\<close>

definition device_key :: "int \<Rightarrow> string" where
  "device_key device_number = snprintf_s 16 (''device-'' @ dec_int device_number)"

section \<open>Routines\<close>

text \<open>\<open>nvs_init\<close>; \<open>None\<close> is the abort of \<open>ESP_ERROR_CHECK\<close>.\<close>

definition nvs_init :: "nvs \<Rightarrow> nvs option" where
  "nvs_init n =
     (case nvs_flash_init n of (ret, n1) \<Rightarrow>
        if ret = ESP_ERR_NVS_NO_FREE_PAGES \<or> ret = ESP_ERR_NVS_NEW_VERSION_FOUND
        then (case nvs_flash_erase n1 of (e, n2) \<Rightarrow>
                if e \<noteq> ESP_OK then None
                else (case nvs_flash_init n2 of (ret2, n3) \<Rightarrow>
                        if ret2 \<noteq> ESP_OK then None else Some n3))
        else if ret \<noteq> ESP_OK then None else Some n1)"

definition read_firmware :: "string \<Rightarrow> nvs \<Rightarrow> string \<times> nvs" where
  "read_firmware firmwareVersion n =
     (case nvs_open NVS_READONLY n of (err, n1) \<Rightarrow>
        if err \<noteq> ESP_OK then (firmwareVersion, n1)
        else (case nvs_get_str ''firmware'' firmwareVersion 16 n1 of (err, buf, n2) \<Rightarrow>
                (if err \<noteq> ESP_OK then ''0.0.0'' else buf, nvs_close n2)))"

definition save_firmware :: "nvs \<Rightarrow> nvs" where
  "save_firmware n =
     (case nvs_open NVS_READWRITE n of (err, n1) \<Rightarrow>
        if err \<noteq> ESP_OK then n1
        else (let n2 = snd (nvs_set_str NVS_READWRITE ''firmware'' FIRMWARE n1);
                  n3 = snd (nvs_commit n2)
              in nvs_close n3))"

definition read_server_credentials ::
    "string \<Rightarrow> nat \<Rightarrow> string \<Rightarrow> nat \<Rightarrow> nvs \<Rightarrow> string \<times> string \<times> nvs" where
  "read_server_credentials disp_url disp_url_len events_url events_url_len n =
     (case nvs_open NVS_READONLY n of (err, n1) \<Rightarrow>
        if err \<noteq> ESP_OK then (disp_url, events_url, n1)
        else (case nvs_get_str ''disp_url'' disp_url disp_url_len n1 of (_, d, n2) \<Rightarrow>
              case nvs_get_str ''events_url'' events_url events_url_len n2 of (_, e, n3) \<Rightarrow>
                (d, e, nvs_close n3)))"

text \<open>The second component is the global buffer \<open>url\<close>, which the routine formats into.\<close>

definition save_server_credentials :: "string \<Rightarrow> string \<Rightarrow> nvs \<Rightarrow> string \<times> nvs" where
  "save_server_credentials device_id url n =
     (case nvs_open NVS_READWRITE n of (err, n1) \<Rightarrow>
        if err \<noteq> ESP_OK then (url, n1)
        else (let u1 = snprintf_s URL_MAX_LEN (disp_url_of device_id);
                  n2 = snd (nvs_set_str NVS_READWRITE ''disp_url'' u1 n1);
                  u2 = snprintf_s URL_MAX_LEN (events_url_of device_id);
                  n3 = snd (nvs_set_str NVS_READWRITE ''events_url'' u2 n2);
                  n4 = snd (nvs_commit n3)
              in (u2, nvs_close n4)))"

definition save_wifi_credentials :: "string \<Rightarrow> string \<Rightarrow> string \<Rightarrow> nvs \<Rightarrow> nvs" where
  "save_wifi_credentials ssid password url n =
     (case nvs_open NVS_READWRITE n of (err, n1) \<Rightarrow>
        if err \<noteq> ESP_OK then n1
        else (let n2 = snd (nvs_set_str NVS_READWRITE ''wifi_ssid'' ssid n1);
                  n3 = snd (nvs_set_str NVS_READWRITE ''wifi_password'' password n2);
                  n4 = snd (nvs_commit n3)
              in nvs_close n4))"

definition read_wifi_credentials ::
    "string \<Rightarrow> nat \<Rightarrow> string \<Rightarrow> nat \<Rightarrow> nvs \<Rightarrow> string \<times> string \<times> nvs" where
  "read_wifi_credentials ssid ssid_len password password_len n =
     (case nvs_open NVS_READONLY n of (err, n1) \<Rightarrow>
        if err \<noteq> ESP_OK then (ssid, password, n1)
        else (case nvs_get_str ''wifi_ssid'' ssid ssid_len n1 of (_, s, n2) \<Rightarrow>
              case nvs_get_str ''wifi_password'' password password_len n2 of (_, p, n3) \<Rightarrow>
                (s, p, nvs_close n3)))"

definition save_ap_credentials :: "string \<Rightarrow> string \<Rightarrow> nvs \<Rightarrow> nvs" where
  "save_ap_credentials ssid password n =
     (case nvs_open NVS_READWRITE n of (err, n1) \<Rightarrow>
        if err \<noteq> ESP_OK then n1
        else (let n2 = snd (nvs_set_str NVS_READWRITE ''ap_ssid'' ssid n1);
                  n3 = snd (nvs_set_str NVS_READWRITE ''ap_password'' password n2);
                  n4 = snd (nvs_commit n3)
              in nvs_close n4))"

definition read_ap_credentials ::
    "string \<Rightarrow> nat \<Rightarrow> string \<Rightarrow> nat \<Rightarrow> nvs \<Rightarrow> string \<times> string \<times> nvs" where
  "read_ap_credentials ssid ssid_len password password_len n =
     (case nvs_open NVS_READWRITE n of (err, n1) \<Rightarrow>
        if err \<noteq> ESP_OK then (ssid, password, n1)
        else (case nvs_get_str ''ap_ssid'' ssid ssid_len n1 of (_, s, n2) \<Rightarrow>
              case nvs_get_str ''ap_password'' password password_len n2 of (_, p, n3) \<Rightarrow>
                (s, p, nvs_close n3)))"

definition write_device_pin_to_nvs :: "int \<Rightarrow> u8 \<Rightarrow> nvs \<Rightarrow> esp_err \<times> nvs" where
  "write_device_pin_to_nvs device_number gpio_pin n =
     (case nvs_open NVS_READWRITE n of (err, n1) \<Rightarrow>
        if err \<noteq> ESP_OK then (err, n1)
        else (case nvs_set_u8 NVS_READWRITE (device_key device_number) gpio_pin n1 of (err, n2) \<Rightarrow>
                if err \<noteq> ESP_OK then (err, nvs_close n2)
                else (case nvs_commit n2 of (err, n3) \<Rightarrow> (err, nvs_close n3))))"

text \<open>\<open>gpio_pin\<close> is the caller's byte; it keeps its value when the key is not read.\<close>

definition read_device_pin_from_nvs :: "int \<Rightarrow> u8 \<Rightarrow> nvs \<Rightarrow> esp_err \<times> u8 \<times> nvs" where
  "read_device_pin_from_nvs device_number gpio_pin n =
     (case nvs_open NVS_READONLY n of (err, n1) \<Rightarrow>
        if err \<noteq> ESP_OK then (err, gpio_pin, n1)
        else (case nvs_get_u8 (device_key device_number) gpio_pin n1 of (err, pin, n2) \<Rightarrow>
                (err, pin, nvs_close n2)))"

definition default_items :: "string \<Rightarrow> (string \<times> string) list" where
  "default_items device_id =
     [(''firmware'', FIRMWARE), (''wifi_ssid'', ''Koba S21''), (''wifi_password'', ''koba1254''),
      (''disp_url'', snprintf_s URL_MAX_LEN (disp_url_of device_id)),
      (''events_url'', snprintf_s URL_MAX_LEN (events_url_of device_id)),
      (''ap_ssid'', snprintf_s 64 (''AP-'' @ device_id)),
      (''ap_password'', snprintf_s 64 (device_id @ ''password''))]"

definition set_strs :: "(string \<times> string) list \<Rightarrow> nvs \<Rightarrow> nvs" where
  "set_strs kvs n = foldl (\<lambda>m (k, v). snd (nvs_set_str NVS_READWRITE k v m)) n kvs"

text \<open>
  The seven string items, the pin of device 0 and the flag \<open>initialized\<close>, each written and a
  failure logged, when the flag was not found or is 0. Any other read error leaves the local
  variable at 0, so it counts as not initialized too. The result holds \<open>url\<close> as well.
\<close>

definition initialize_nvs_with_default_data :: "string \<Rightarrow> string \<Rightarrow> nvs \<Rightarrow> string \<times> nvs" where
  "initialize_nvs_with_default_data device_id url n =
     (case nvs_open NVS_READWRITE n of (err, n1) \<Rightarrow>
        if err \<noteq> ESP_OK then (url, n1)
        else (case nvs_get_u8 ''initialized'' 0 n1 of (err, initialized, n2) \<Rightarrow>
                if err = ESP_ERR_NVS_NOT_FOUND \<or> initialized = 0
                then (let n3 = set_strs (default_items device_id) n2;
                          n4 = snd (nvs_set_u8 NVS_READWRITE ''device-0'' 23 n3);
                          n5 = snd (nvs_set_u8 NVS_READWRITE ''initialized'' 1 n4);
                          n6 = snd (nvs_commit n5)
                      in (snprintf_s URL_MAX_LEN (events_url_of device_id), nvs_close n6))
                else (url, nvs_close n2)))"

section \<open>Keys\<close>

lemma device_key_fits:
  assumes "0 \<le> i" "i < 100000000"
  shows "device_key i = ''device-'' @ dec_nat (nat i)" "length (device_key i) \<le> 15"
proof -
  have "length (dec_nat (nat i)) \<le> 8"
    by (rule dec_nat_length) (use assms in \<open>simp_all add: nat_less_iff\<close>)
  then show 1: "device_key i = ''device-'' @ dec_nat (nat i)"
    using assms by (simp add: device_key_def dec_int_def snprintf_s_fits)
  show "length (device_key i) \<le> 15"
    using \<open>length (dec_nat (nat i)) \<le> 8\<close> by (simp add: 1)
qed

lemma device_key_inject:
  assumes "0 \<le> i" "i < 100000000" "0 \<le> j" "j < 100000000"
  shows "device_key i = device_key j \<longleftrightarrow> i = j"
  using assms by (simp add: device_key_fits eq_nat_nat_iff)

lemma device_key_length: "length (device_key i) \<le> 15"
  using snprintf_s_length [of 16] by (simp add: device_key_def snprintf_s_def)

section \<open>Reading back what was written\<close>

lemma write_device_pin_healthy:
  "nv_healthy n \<Longrightarrow>
   write_device_pin_to_nvs i p n =
     (ESP_OK, n\<lparr>nv_calls := nv_calls n + 2, nv_ns := True, nv_u8 := (nv_u8 n)(device_key i \<mapsto> p)\<rparr>)"
  by (simp add: write_device_pin_to_nvs_def nvs_commit_def nvs_close_def device_key_length)

lemma read_device_pin_healthy:
  "nv_healthy n \<Longrightarrow> nv_ns n \<Longrightarrow>
   read_device_pin_from_nvs i g n =
     (case nv_u8 n (device_key i) of
        None \<Rightarrow> (ESP_ERR_NVS_NOT_FOUND, g, n\<lparr>nv_calls := nv_calls n + 2\<rparr>)
      | Some p \<Rightarrow> (ESP_OK, p, n\<lparr>nv_calls := nv_calls n + 2\<rparr>))"
  by (simp add: read_device_pin_from_nvs_def nvs_get_u8_def nvs_close_def split: option.split)

text \<open>A device whose pin cannot be read leaves the caller's variable as it was.\<close>

lemma read_device_pin_error:
  "read_device_pin_from_nvs i g n = (e, p, n') \<Longrightarrow> e \<noteq> ESP_OK \<Longrightarrow> p = g"
  by (auto simp: read_device_pin_from_nvs_def nvs_get_u8_def split: prod.splits if_splits option.splits)

lemma read_device_pin_items:
  "read_device_pin_from_nvs i g n = (e, p, n') \<Longrightarrow> nv_str n' = nv_str n \<and> nv_u8 n' = nv_u8 n"
  by (auto simp: read_device_pin_from_nvs_def nvs_open_def nvs_get_u8_def nvs_call_def nvs_close_def
      split: prod.splits if_splits option.splits)

text \<open>
  C36. On a healthy store the pin written for device \<open>j\<close> is the pin read for device \<open>j\<close>, and the
  pins of all other devices are read as before, for device numbers of at most eight digits.
\<close>

theorem device_pin_roundtrip:
  assumes "nv_healthy n" and "nv_ns n"
    and "0 \<le> i" and "i < 100000000" and "0 \<le> j" and "j < 100000000"
  shows "(case read_device_pin_from_nvs i g (snd (write_device_pin_to_nvs j p n)) of
            (e, q, _) \<Rightarrow> (e, q)) =
     (if i = j then (ESP_OK, p)
      else (case read_device_pin_from_nvs i g n of (e, q, _) \<Rightarrow> (e, q)))"
  using assms
  by (simp add: write_device_pin_healthy read_device_pin_healthy device_key_inject split: option.split)

theorem device_pin_roundtrip_witness:
  "(case read_device_pin_from_nvs 3 7 (snd (write_device_pin_to_nvs 3 23
        \<lparr>nv_ns = True, nv_str = Map.empty, nv_u8 = Map.empty, nv_fault = (\<lambda>_. 0), nv_calls = 0\<rparr>)) of
      (e, q, _) \<Rightarrow> (e, q)) = (ESP_OK, 23)"
  by (subst device_pin_roundtrip) (simp_all add: nv_healthy_def)

text \<open>
  From nine digits on the 16-byte key buffer cuts the last digit off, so a device shares its
  key with another one and writing the pin of one overwrites the pin of the other.
\<close>

theorem device_key_collision:
  assumes "100000000 \<le> i" and "i < 1000000000"
  shows "device_key i = device_key (i div 10) \<and> i div 10 \<noteq> i"
proof -
  have n: "\<not> nat i < 10" "nat (i div 10) = nat i div 10" using assms by (auto simp: nat_div_distrib)
  let ?d = "dec_nat (nat i div 10)"
  have "length (dec_nat (nat i div 10 div 10)) \<le> 7"
    by (rule dec_nat_length) (use assms in \<open>auto simp: less_mult_imp_div_less\<close>)
  then have "length ?d \<le> 8" using assms by (subst dec_nat.simps) (auto simp: nat_div_distrib)
  moreover have "8 \<le> length ?d"
  proof (rule ccontr)
    assume "\<not> 8 \<le> length ?d"
    then have "nat i div 10 < 10 ^ 7" by (intro dec_nat_length_bound) simp
    then show False using assms by simp
  qed
  ultimately have l: "length ?d = 8" by simp
  have "dec_int i = ?d @ [digit_char (nat i mod 10)]"
    using assms by (simp add: dec_int_def dec_nat.simps [of "nat i"])
  moreover have "dec_int (i div 10) = ?d" using assms by (simp add: dec_int_def n)
  ultimately show ?thesis using l assms by (auto simp: device_key_def snprintf_s_def)
qed

theorem device_key_collision_witness:
  "device_key 123456789 = device_key 12345678"
  using device_key_collision [of 123456789] by simp

section \<open>Credentials\<close>

lemma nvs_get_str_cases:
  "nv_healthy n \<Longrightarrow>
   nvs_get_str k buf len n =
     (case nv_str n k of
        None \<Rightarrow> (ESP_ERR_NVS_NOT_FOUND, buf, n\<lparr>nv_calls := Suc (nv_calls n)\<rparr>)
      | Some v \<Rightarrow> if length v < len then (ESP_OK, v, n\<lparr>nv_calls := Suc (nv_calls n)\<rparr>)
                  else (ESP_ERR_NVS_INVALID_LENGTH, buf, n\<lparr>nv_calls := Suc (nv_calls n)\<rparr>))"
  by (auto simp: nvs_get_str_def split: option.split)

lemma save_wifi_healthy:
  "nv_healthy n \<Longrightarrow> length ssid < 4000 \<Longrightarrow> length password < 4000 \<Longrightarrow>
   save_wifi_credentials ssid password u n =
     n\<lparr>nv_calls := nv_calls n + 3, nv_ns := True,
       nv_str := (nv_str n)(''wifi_ssid'' \<mapsto> ssid, ''wifi_password'' \<mapsto> password)\<rparr>"
  by (simp add: save_wifi_credentials_def nvs_commit_def nvs_close_def Let_def)

lemma read_wifi_healthy:
  "nv_healthy n \<Longrightarrow> nv_ns n \<Longrightarrow>
   (case read_wifi_credentials sb sl pb pl n of (s, p, _) \<Rightarrow> (s, p)) =
     (case nv_str n ''wifi_ssid'' of None \<Rightarrow> sb | Some v \<Rightarrow> if length v < sl then v else sb,
      case nv_str n ''wifi_password'' of None \<Rightarrow> pb | Some v \<Rightarrow> if length v < pl then v else pb)"
  by (simp add: read_wifi_credentials_def nvs_get_str_cases split: option.split)

text \<open>
  C37. Credentials saved and then read into the firmware's buffers (32 and 64 bytes) come back
  unchanged when they fit with their terminator. An SSID of 32 characters, the longest the
  standard allows, does not fit: the read fails and the buffer keeps what it held before, while
  the password is still read.
\<close>

theorem wifi_credentials_roundtrip:
  assumes "nv_healthy n" and "length ssid < 4000" and "length password < WIFI_PASS_MAX_LEN"
  shows "(case read_wifi_credentials sb WIFI_SSID_MAX_LEN pb WIFI_PASS_MAX_LEN
            (save_wifi_credentials ssid password u n) of (s, p, _) \<Rightarrow> (s, p)) =
     (if length ssid < WIFI_SSID_MAX_LEN then ssid else sb, password)"
  using assms by (simp add: save_wifi_healthy read_wifi_healthy WIFI_PASS_MAX_LEN_def)

theorem wifi_credentials_roundtrip_witness:
  "(case read_wifi_credentials ''old'' WIFI_SSID_MAX_LEN [] WIFI_PASS_MAX_LEN
      (save_wifi_credentials ''abcdefghijklmnopqrstuvwxyz012345'' ''secret'' []
        \<lparr>nv_ns = True, nv_str = Map.empty, nv_u8 = Map.empty, nv_fault = (\<lambda>_. 0), nv_calls = 0\<rparr>) of
      (s, p, _) \<Rightarrow> (s, p)) = (''old'', ''secret'')"
  by (subst wifi_credentials_roundtrip)
    (simp_all add: nv_healthy_def WIFI_PASS_MAX_LEN_def WIFI_SSID_MAX_LEN_def)

section \<open>First start\<close>

lemma set_strs_Nil [simp]: "set_strs [] n = n"
  by (simp add: set_strs_def)

lemma set_strs_Cons [simp]:
  "set_strs ((k, v) # kvs) n = set_strs kvs (snd (nvs_set_str NVS_READWRITE k v n))"
  by (simp add: set_strs_def)

lemma set_strs_healthy:
  "nv_healthy n \<Longrightarrow> (\<forall>(k, v) \<in> set kvs. length k \<le> 15 \<and> length v < 4000) \<Longrightarrow>
   set_strs kvs n =
     n\<lparr>nv_calls := nv_calls n + length kvs, nv_str := nv_str n ++ map_of (rev kvs)\<rparr>"
  by (induction kvs arbitrary: n) (auto simp: map_add_upd_left)

lemma nvs_set_str_frame [simp]:
  "nv_u8 (snd (nvs_set_str m k v n)) = nv_u8 n" "nv_fault (snd (nvs_set_str m k v n)) = nv_fault n"
  by (simp_all add: nvs_set_str_def nvs_check_item_def nvs_call_def split: prod.splits)

lemma nvs_set_u8_frame [simp]: "nv_str (snd (nvs_set_u8 m k v n)) = nv_str n"
  by (simp add: nvs_set_u8_def nvs_check_item_def nvs_call_def split: prod.splits)

lemma set_strs_u8 [simp]: "nv_u8 (set_strs kvs n) = nv_u8 n"
  by (induction kvs arbitrary: n) auto

lemma nvs_open_items:
  "nvs_open m n = (e, n') \<Longrightarrow> nv_str n' = nv_str n \<and> nv_u8 n' = nv_u8 n"
  by (auto simp: nvs_open_def nvs_call_def split: if_splits)

lemma nvs_get_u8_items:
  "nvs_get_u8 k g n = (e, p, n') \<Longrightarrow> nv_str n' = nv_str n \<and> nv_u8 n' = nv_u8 n"
  by (auto simp: nvs_get_u8_def nvs_call_def split: if_splits option.splits)

lemma disp_url_fits:
  "length device_id \<le> 80 \<Longrightarrow> snprintf_s URL_MAX_LEN (disp_url_of device_id) = disp_url_of device_id"
  by (rule snprintf_s_fits) (simp add: URL_MAX_LEN_def disp_url_of_def)

lemma events_url_fits:
  "length device_id \<le> 80 \<Longrightarrow> snprintf_s URL_MAX_LEN (events_url_of device_id) = events_url_of device_id"
  by (rule snprintf_s_fits) (simp add: URL_MAX_LEN_def events_url_of_def)

lemma default_items_small:
  "\<forall>(k, v) \<in> set (default_items device_id). length k \<le> 15 \<and> length v < 4000"
  by (auto simp: default_items_def FIRMWARE_def URL_MAX_LEN_def intro: snprintf_s_less)

lemma initialize_nvs_fresh:
  assumes "nv_healthy n" and "nv_u8 n ''initialized'' = None"
  shows "snd (initialize_nvs_with_default_data device_id u n) =
    n\<lparr>nv_calls := nv_calls n + 11, nv_ns := True,
      nv_str := nv_str n ++ map_of (rev (default_items device_id)),
      nv_u8 := (nv_u8 n)(''device-0'' \<mapsto> 23, ''initialized'' \<mapsto> 1)\<rparr>"
proof -
  have "length (default_items device_id) = 7" by (simp add: default_items_def)
  then show ?thesis
    using assms
    by (simp add: initialize_nvs_with_default_data_def nvs_get_u8_def set_strs_healthy
        default_items_small nvs_commit_def nvs_close_def Let_def)
qed

lemma initialize_nvs_done:
  assumes "nv_healthy n" and "nv_u8 n ''initialized'' = Some v" and "v \<noteq> 0"
  shows "initialize_nvs_with_default_data device_id u n =
    (u, n\<lparr>nv_calls := nv_calls n + 2, nv_ns := True\<rparr>)"
  using assms by (simp add: initialize_nvs_with_default_data_def nvs_close_def)

text \<open>
  Whatever calls fail, the first-start routine touches no string item but its seven and no
  byte item but \<open>device-0\<close> and \<open>initialized\<close>; the pins stored for other devices survive it.
\<close>

theorem initialize_nvs_frame:
  assumes "k \<notin> {''firmware'', ''wifi_ssid'', ''wifi_password'', ''disp_url'', ''events_url'',
      ''ap_ssid'', ''ap_password''}" and "i \<notin> {''device-0'', ''initialized''}"
  shows "nv_str (snd (initialize_nvs_with_default_data device_id u n)) k = nv_str n k \<and>
     nv_u8 (snd (initialize_nvs_with_default_data device_id u n)) i = nv_u8 n i"
proof -
  have k: "k \<notin> fst ` set (default_items device_id)" using assms(1) by (auto simp: default_items_def)
  have s: "nv_str (set_strs (default_items device_id) m) k = nv_str m k" for m
    using strs.fold_other [OF k] by (simp add: set_strs_def)
  show ?thesis
    using assms(2)
    by (auto simp: initialize_nvs_with_default_data_def nvs_commit_def nvs_close_def Let_def s
        u8s.set_other split: prod.splits dest!: nvs_open_items nvs_get_u8_items)
qed

theorem initialize_nvs_frame_witness:
  "nv_u8 (snd (initialize_nvs_with_default_data ''A0B1C2D3E4F5'' []
     \<lparr>nv_ns = True, nv_str = Map.empty, nv_u8 = [''device-1'' \<mapsto> 22], nv_fault = (\<lambda>_. 0), nv_calls = 0\<rparr>))
     ''device-1'' = Some 22"
  by (subst initialize_nvs_frame [where k = "''other''", THEN conjunct2]) simp_all

text \<open>
  On a healthy store that is not initialized, one run stores all the defaults and the flag;
  a second run then changes no item, so later starts keep what the user configured meanwhile.
\<close>

theorem initialize_nvs_once:
  assumes "nv_healthy n" and "nv_u8 n ''initialized'' = None" and "length device_id = 12"
  shows "let n1 = snd (initialize_nvs_with_default_data device_id u n);
             n2 = snd (initialize_nvs_with_default_data device_id u'
                         (save_wifi_credentials ssid password u n1))
         in nv_str n1 ''disp_url'' = Some (disp_url_of device_id) \<and>
            nv_str n1 ''events_url'' = Some (events_url_of device_id) \<and>
            nv_str n1 ''ap_ssid'' = Some (''AP-'' @ device_id) \<and>
            nv_str n1 ''ap_password'' = Some (device_id @ ''password'') \<and>
            nv_u8 n1 ''device-0'' = Some 23 \<and> nv_u8 n1 ''initialized'' = Some 1 \<and>
            nv_str n2 = nv_str (save_wifi_credentials ssid password u n1) \<and> nv_u8 n2 = nv_u8 n1"
proof -
  let ?n1 = "snd (initialize_nvs_with_default_data device_id u n)"
  let ?w = "save_wifi_credentials ssid password u ?n1"
  note n1 = initialize_nvs_fresh [OF assms(1,2), of device_id u]
  have w: "nv_healthy ?w" "nv_u8 ?w = nv_u8 ?n1"
    using assms(1)
    by (simp_all add: n1 save_wifi_credentials_def nv_healthy_def nvs_commit_def nvs_close_def
        Let_def nvs_open_def nvs_call_def nvs_set_str_def nvs_check_item_def)
  then have "nv_u8 ?w ''initialized'' = Some 1" by (simp add: n1)
  note n2 = initialize_nvs_done [OF w(1) this, of device_id u']
  show ?thesis
    using assms(3) w(2)
    by (simp add: Let_def n2) (simp add: n1 default_items_def disp_url_fits events_url_fits snprintf_s_fits)
qed

theorem initialize_nvs_once_witness:
  "nv_str (snd (initialize_nvs_with_default_data ''A0B1C2D3E4F5'' []
     \<lparr>nv_ns = False, nv_str = Map.empty, nv_u8 = Map.empty, nv_fault = (\<lambda>_. 0), nv_calls = 0\<rparr>))
     ''ap_ssid'' = Some ''AP-A0B1C2D3E4F5''"
  using initialize_nvs_once [of "\<lparr>nv_ns = False, nv_str = Map.empty, nv_u8 = Map.empty,
      nv_fault = (\<lambda>_. 0), nv_calls = 0\<rparr>" "''A0B1C2D3E4F5''" "[]"]
  by (simp add: nv_healthy_def Let_def)

text \<open>
  A read error other than "not found" is taken for a first start: if the read of the flag
  fails while the writes succeed, the stored WiFi credentials are replaced by the defaults.
\<close>

theorem initialize_nvs_resets_on_read_error:
  assumes "nv_ns n" and "nv_calls n = c" and "nv_fault n c = ESP_OK"
    and "nv_fault n (c + 1) \<noteq> ESP_OK" and "\<And>k. c + 1 < k \<Longrightarrow> nv_fault n k = ESP_OK"
  shows "nv_str (snd (initialize_nvs_with_default_data device_id u n)) ''wifi_ssid'' =
       Some ''Koba S21'' \<and>
     nv_str (snd (initialize_nvs_with_default_data device_id u n)) ''wifi_password'' =
       Some ''koba1254''"
proof -
  have sets: "nv_fault m = nv_fault n \<Longrightarrow> c + 1 < nv_calls m \<Longrightarrow>
      (\<forall>(k, v) \<in> set kvs. length k \<le> 15 \<and> length v < 4000) \<Longrightarrow>
      nv_str (set_strs kvs m) = nv_str m ++ map_of (rev kvs)" for m :: nvs and kvs
  proof (induction kvs arbitrary: m)
    case (Cons kv kvs)
    obtain k v where "kv = (k, v)" by (cases kv)
    with Cons.prems assms(5) [of "nv_calls m"] Cons.IH show ?case
      by (auto simp: nvs_set_str_def nvs_check_item_def nvs_call_def map_add_upd_left)
  qed simp
  show ?thesis
    using assms(1-4)
    by (simp add: initialize_nvs_with_default_data_def nvs_open_def nvs_get_u8_def nvs_call_def
        Let_def nvs_commit_def nvs_close_def sets default_items_small)
      (simp add: default_items_def)
qed

theorem initialize_nvs_resets_on_read_error_witness:
  "nv_str (snd (initialize_nvs_with_default_data ''A0B1C2D3E4F5'' []
     \<lparr>nv_ns = True, nv_str = [''wifi_ssid'' \<mapsto> ''home''], nv_u8 = [''initialized'' \<mapsto> 1],
      nv_fault = (\<lambda>k. if k = 1 then ESP_FAIL else ESP_OK), nv_calls = 0\<rparr>)) ''wifi_ssid'' =
   Some ''Koba S21''"
  by (subst initialize_nvs_resets_on_read_error [where c = 0, THEN conjunct1]) simp_all

end
