(* ===== verification/JsonString.thy ===== *)
theory JsonString
  imports Prelude
begin

text \<open>
  The string half of \<open>components/json/cJSON/cJSON.c\<close>: \<open>parse_hex4\<close>, \<open>utf16_literal_to_utf8\<close>,
  \<open>parse_string\<close> and \<open>print_string_ptr\<close>. A parse buffer is its bytes and an offset; every read
  behind the last byte is the outcome \<open>Overread\<close>, so that staying inside the buffer is a theorem.
\<close>

section \<open>Parse results and buffers\<close>

datatype 'a pres = Diverge | Overread | Reject | Accept 'a

definition can_access :: "string \<Rightarrow> nat \<Rightarrow> bool" where
  "can_access b off \<longleftrightarrow> off < length b"

definition at_char :: "string \<Rightarrow> nat \<Rightarrow> char \<Rightarrow> bool" where
  "at_char b off c \<longleftrightarrow> off < length b \<and> b ! off = c"

definition QUOTE :: char where "QUOTE = CHR 0x22"
definition BACKSLASH :: char where "BACKSLASH = CHR 0x5C"

abbreviation ord :: "char \<Rightarrow> nat" where "ord c \<equiv> of_char c"

section \<open>Hexadecimal digits and UTF-16 literals\<close>

definition hex_digit :: "char \<Rightarrow> nat option" where
  "hex_digit c =
     (if 48 \<le> ord c \<and> ord c \<le> 57 then Some (ord c - 48)
      else if 65 \<le> ord c \<and> ord c \<le> 70 then Some (10 + ord c - 65)
      else if 97 \<le> ord c \<and> ord c \<le> 102 then Some (10 + ord c - 97)
      else None)"

text \<open>Four digits, most significant first; 0 when one of them is not a digit.\<close>

fun parse_hex4_loop :: "nat \<Rightarrow> nat \<Rightarrow> string \<Rightarrow> nat" where
  "parse_hex4_loop 0 h s = h"
| "parse_hex4_loop (Suc i) h s =
     (case s of [] \<Rightarrow> 0
      | c # cs \<Rightarrow>
          (case hex_digit c of
             None \<Rightarrow> 0
           | Some d \<Rightarrow> parse_hex4_loop i (if 0 < i then 16 * (h + d) else h + d) cs))"

definition parse_hex4 :: "string \<Rightarrow> nat" where
  "parse_hex4 s = parse_hex4_loop 4 0 s"

text \<open>The encoder's loop: \<open>n\<close> trailing bytes, then the first byte with its mark.\<close>

fun utf8_tail :: "nat \<Rightarrow> u32 \<Rightarrow> u8 list \<times> u32" where
  "utf8_tail 0 cp = ([], cp)"
| "utf8_tail (Suc n) cp =
     (case utf8_tail n (drop_bit 6 cp) of
        (bs, cp') \<Rightarrow> (bs @ [ucast ((cp OR 0x80) AND 0xBF)], cp'))"

definition utf8_encode :: "u32 \<Rightarrow> u8 list option" where
  "utf8_encode codepoint =
     (if codepoint < 0x80 then Some [ucast (codepoint AND 0x7F)]
      else if codepoint < 0x800
      then (case utf8_tail 1 codepoint of (bs, cp) \<Rightarrow> Some (ucast ((cp OR 0xC0) AND 0xFF) # bs))
      else if codepoint < 0x10000
      then (case utf8_tail 2 codepoint of (bs, cp) \<Rightarrow> Some (ucast ((cp OR 0xE0) AND 0xFF) # bs))
      else if codepoint \<le> 0x10FFFF
      then (case utf8_tail 3 codepoint of (bs, cp) \<Rightarrow> Some (ucast ((cp OR 0xF0) AND 0xFF) # bs))
      else None)"

definition byte_char :: "u8 \<Rightarrow> char" where
  "byte_char b = char_of (unat b)"

text \<open>
  \<open>s\<close> is the text from the backslash up to the closing quote; the result is the bytes written and
  the length of the sequence, \<open>None\<close> for the return value 0.
\<close>

definition utf16_codepoint :: "string \<Rightarrow> (u32 \<times> nat) option" where
  "utf16_codepoint s =
     (if length s < 6 then None
      else
        (let first_code = parse_hex4 (drop 2 s)
         in if 0xDC00 \<le> first_code \<and> first_code \<le> 0xDFFF then None
            else if 0xD800 \<le> first_code \<and> first_code \<le> 0xDBFF then
              (let second = drop 6 s
               in if length second < 6 then None
                  else if second ! 0 \<noteq> BACKSLASH \<or> second ! 1 \<noteq> CHR ''u'' then None
                  else
                    (let second_code = parse_hex4 (drop 2 second)
                     in if second_code < 0xDC00 \<or> 0xDFFF < second_code then None
                        else Some (0x10000 + ((push_bit 10 (word_of_nat first_code AND 0x3FF))
                                     OR (word_of_nat second_code AND 0x3FF)), 12)))
            else Some (word_of_nat first_code, 6)))"

definition utf16_literal_to_utf8 :: "string \<Rightarrow> (string \<times> nat) option" where
  "utf16_literal_to_utf8 s =
     (case utf16_codepoint s of
        None \<Rightarrow> None
      | Some (cp, n) \<Rightarrow>
          (case utf8_encode cp of None \<Rightarrow> None | Some bs \<Rightarrow> Some (map byte_char bs, n)))"

section \<open>parse\_string\<close>

text \<open>
  The first loop, from the character after the opening quote: how many bytes there are up to the
  closing quote and how many of them are skipped in the output. \<open>None\<close> when the buffer ends
  first, also right behind a backslash.
\<close>

fun scan_string :: "string \<Rightarrow> (nat \<times> nat) option" where
  "scan_string [] = None"
| "scan_string (c # cs) =
     (if c = QUOTE then Some (0, 0)
      else if c = BACKSLASH then
        (case cs of [] \<Rightarrow> None
         | _ # cs' \<Rightarrow> map_option (\<lambda>(n, k). (n + 2, k + 1)) (scan_string cs'))
      else map_option (\<lambda>(n, k). (n + 1, k)) (scan_string cs))"

definition simple_escape :: "char \<Rightarrow> char option" where
  "simple_escape c =
     (if c = CHR ''b'' then Some (CHR 0x08)
      else if c = CHR ''f'' then Some (CHR 0x0C)
      else if c = CHR ''n'' then Some (CHR 0x0A)
      else if c = CHR ''r'' then Some (CHR 0x0D)
      else if c = CHR ''t'' then Some (CHR 0x09)
      else if c = QUOTE \<or> c = BACKSLASH \<or> c = CHR ''/'' then Some c
      else None)"

text \<open>
  The second loop, over the bytes before the closing quote: the bytes it has written when it ends,
  and whether it ended without a failure. A backslash that is the last of them (a malformed UTF-16
  literal can leave the loop there) is followed by the closing quote, which the loop reads as the
  escaped character.
\<close>

definition emit :: "string \<Rightarrow> string \<times> bool \<Rightarrow> string \<times> bool" where
  "emit w r = (w @ fst r, snd r)"

function unescape :: "string \<Rightarrow> string \<times> bool" where
  "unescape [] = ([], True)"
| "unescape (c # cs) =
     (if c \<noteq> BACKSLASH then emit [c] (unescape cs)
      else (case cs of
              [] \<Rightarrow> ([QUOTE], True)
            | e # cs' \<Rightarrow>
                if e = CHR ''u'' then
                  (case utf16_literal_to_utf8 (c # cs) of
                     None \<Rightarrow> ([], False)
                   | Some (out, n) \<Rightarrow> emit out (unescape (drop (n - 1) cs)))
                else
                  (case simple_escape e of
                     None \<Rightarrow> ([], False)
                   | Some x \<Rightarrow> emit [x] (unescape cs'))))"
  by pat_completeness auto
termination
  by (relation "measure length") (auto simp: less_Suc_eq_le)

text \<open>
  The value is the unescaped text; as a C string it ends at its first NUL byte, which \<open>cstr\<close>
  cuts off. The new offset is behind the closing quote.
\<close>

definition cstr :: "string \<Rightarrow> string" where
  "cstr s = takeWhile (\<lambda>c. c \<noteq> CHR 0x00) s"

definition parse_string_raw :: "string \<Rightarrow> nat \<Rightarrow> (string \<times> nat) pres" where
  "parse_string_raw b off =
     (if \<not> can_access b off then Overread
      else if b ! off \<noteq> QUOTE then Reject
      else (case scan_string (drop (off + 1) b) of
              None \<Rightarrow> Reject
            | Some (n, _) \<Rightarrow>
                (case unescape (take n (drop (off + 1) b)) of (out, ok) \<Rightarrow>
                   if ok then Accept (out, off + n + 2) else Reject)))"

definition parse_string :: "string \<Rightarrow> nat \<Rightarrow> (string \<times> nat) pres" where
  "parse_string b off =
     (case parse_string_raw b off of
        Accept (out, off') \<Rightarrow> Accept (cstr out, off')
      | Reject \<Rightarrow> Reject | Overread \<Rightarrow> Overread | Diverge \<Rightarrow> Diverge)"

text \<open>The size of the output buffer, without the byte added for the terminator.\<close>

definition allocation_length :: "string \<Rightarrow> nat \<Rightarrow> nat" where
  "allocation_length b off =
     (case scan_string (drop (off + 1) b) of None \<Rightarrow> 0 | Some (n, skipped) \<Rightarrow> (n + 1) - skipped)"

section \<open>print\_string\_ptr\<close>

definition hex_lower :: "nat \<Rightarrow> char" where
  "hex_lower d = (if d < 10 then char_of (48 + d) else char_of (87 + d))"

definition escape_char :: "char \<Rightarrow> string" where
  "escape_char c =
     (if 31 < ord c \<and> c \<noteq> QUOTE \<and> c \<noteq> BACKSLASH then [c]
      else BACKSLASH #
        (if c = BACKSLASH then [BACKSLASH]
         else if c = QUOTE then [QUOTE]
         else if c = CHR 0x08 then ''b''
         else if c = CHR 0x0C then ''f''
         else if c = CHR 0x0A then ''n''
         else if c = CHR 0x0D then ''r''
         else if c = CHR 0x09 then ''t''
         else ''u00'' @ [hex_lower (ord c div 16), hex_lower (ord c mod 16)]))"

definition print_string :: "string \<Rightarrow> string" where
  "print_string s = QUOTE # concat (map escape_char s) @ [QUOTE]"

text \<open>The length the first loop of \<open>print_string_ptr\<close> computes for the buffer.\<close>

definition escape_characters :: "char \<Rightarrow> nat" where
  "escape_characters c =
     (if c \<in> {QUOTE, BACKSLASH, CHR 0x08, CHR 0x0C, CHR 0x0A, CHR 0x0D, CHR 0x09} then 1
      else if ord c < 32 then 5 else 0)"

definition output_length :: "string \<Rightarrow> nat" where
  "output_length s = length s + sum_list (map escape_characters s)"

section \<open>The output buffer\<close>

text \<open>How many output bytes the first loop counts for a text: an escaped pair counts once.\<close>

fun counted :: "string \<Rightarrow> nat" where
  "counted [] = 0"
| "counted (c # cs) =
     Suc (if c = BACKSLASH then (case cs of [] \<Rightarrow> 0 | _ # cs' \<Rightarrow> counted cs') else counted cs)"

lemma counted_tl: "counted cs \<le> counted (c # cs)"
proof (induction cs arbitrary: c rule: counted.induct)
  case 1
  then show ?case by simp
next
  case (2 e cs)
  show ?case
  proof (cases "e = BACKSLASH \<and> c = BACKSLASH")
    case True
    then show ?thesis by (cases cs) (use 2 in auto)
  qed (auto split: list.split)
qed

lemma counted_drop: "counted (drop n s) \<le> counted s"
proof (induction n arbitrary: s)
  case (Suc n)
  show ?case
  proof (cases s)
    case (Cons c cs)
    have "counted (drop n cs) \<le> counted (c # cs)"
      by (rule order_trans [OF Suc.IH counted_tl])
    then show ?thesis by (simp add: Cons del: counted.simps)
  qed simp
qed simp

lemma counted_plain: "c \<noteq> BACKSLASH \<Longrightarrow> counted (c # cs) = Suc (counted cs)"
  by simp

lemma hex_digit_backslash: "hex_digit c = Some d \<Longrightarrow> c \<noteq> BACKSLASH"
  by (auto simp: hex_digit_def BACKSLASH_def)

lemma parse_hex4_loop_counted:
  "parse_hex4_loop i h s \<noteq> 0 \<Longrightarrow> counted s = i + counted (drop i s)"
proof (induction i arbitrary: h s)
  case (Suc i)
  then obtain c cs d where s: "s = c # cs" "hex_digit c = Some d"
    by (cases s) (auto split: option.splits)
  have "counted cs = i + counted (drop i cs)"
    by (rule Suc.IH) (use Suc.prems s in simp)
  then show ?case
    using s hex_digit_backslash [of c d] by simp
qed simp

lemma parse_hex4_counted: "parse_hex4 s \<noteq> 0 \<Longrightarrow> counted s = 4 + counted (drop 4 s)"
  using parse_hex4_loop_counted [of 4 0 s] by (simp add: parse_hex4_def)

lemma utf8_tail_length: "length (fst (utf8_tail n cp)) = n"
  by (induction n arbitrary: cp) (auto simp: case_prod_beta)

lemma utf8_encode_length:
  assumes "utf8_encode cp = Some bs"
  shows "length bs \<le> 4" "cp < 0x10000 \<Longrightarrow> length bs \<le> 3" "cp < 0x80 \<Longrightarrow> length bs = 1"
  using assms
  by (auto simp: utf8_encode_def case_prod_beta utf8_tail_length split: if_splits)

lemma parse_hex4_loop_less: "i \<le> 4 \<Longrightarrow> 0 < i \<Longrightarrow> h < 16 ^ (5 - i) \<Longrightarrow> h mod 16 = 0 \<Longrightarrow> parse_hex4_loop i h s < 65536"
proof (induction i arbitrary: h s)
  case (Suc i)
  show ?case
  proof (cases s)
    case (Cons c cs)
    show ?thesis
    proof (cases "hex_digit c")
      case (Some d)
      then have d: "d < 16" by (auto simp: hex_digit_def split: if_splits)
      have hd: "h + d < 16 ^ (4 - i)"
      proof -
        obtain q where q: "h = 16 * q" using Suc.prems(4) by (metis mod_0_imp_dvd dvdE)
        have e: "(16::nat) ^ (4 - i) = 16 * 16 ^ (3 - i)"
          using Suc.prems(1) by (simp flip: power_Suc add: Suc_diff_le)
        show ?thesis using Suc.prems(3) d unfolding q by (simp add: e)
      qed
      show ?thesis
      proof (cases "i = 0")
        case True
        then show ?thesis using hd by (simp add: Cons Some)
      next
        case False
        have "(16::nat) ^ (5 - i) = 16 * 16 ^ (4 - i)"
          using Suc.prems(1) by (simp flip: power_Suc add: Suc_diff_le)
        then have "16 * (h + d) < 16 ^ (5 - i)"
          by (metis hd nat_mult_less_cancel1 zero_less_numeral)
        then have "parse_hex4_loop i (16 * (h + d)) cs < 65536"
          by (intro Suc.IH) (use Suc.prems False in auto)
        then show ?thesis using False by (simp add: Cons Some)
      qed
    qed (simp add: Cons)
  qed simp
qed simp

lemma parse_hex4_less: "parse_hex4 s < 65536"
  unfolding parse_hex4_def by (rule parse_hex4_loop_less) simp_all

lemma utf16_codepoint_cases:
  assumes "utf16_codepoint s = Some (cp, n)"
  obtains (bmp) "n = 6" "6 \<le> length s" "cp = word_of_nat (parse_hex4 (drop 2 s))"
    | (pair) "n = 12" "12 \<le> length s" "parse_hex4 (drop 2 s) \<noteq> 0" "parse_hex4 (drop 8 s) \<noteq> 0"
        "s ! 6 = BACKSLASH" "s ! 7 = CHR ''u''"
  using assms
  by (auto simp: utf16_codepoint_def Let_def not_less split: if_splits)

lemma utf16_literal_consumes:
  "utf16_literal_to_utf8 s = Some (out, n) \<Longrightarrow> n \<in> {6, 12} \<and> n \<le> length s"
  by (auto simp: utf16_literal_to_utf8_def split: option.splits elim!: utf16_codepoint_cases)

lemma counted_pair: "counted (BACKSLASH # e # cs) = Suc (counted cs)"
  by simp

lemma utf16_literal_counted:
  assumes lit: "utf16_literal_to_utf8 (BACKSLASH # e # t) = Some (out, n)"
  shows "length out + counted (drop n (BACKSLASH # e # t)) \<le> counted (BACKSLASH # e # t)"
proof -
  let ?s = "BACKSLASH # e # t"
  obtain cp bs where cp: "utf16_codepoint ?s = Some (cp, n)" and bs: "utf8_encode cp = Some bs"
    and out: "length out = length bs"
    using lit by (auto simp: utf16_literal_to_utf8_def split: option.splits)
  from cp show ?thesis
  proof (cases rule: utf16_codepoint_cases)
    case bmp
    have le3: "length bs \<le> 3"
      by (rule utf8_encode_length(2) [OF bs]) (use parse_hex4_less [of t] in
        \<open>simp add: bmp(3) word_less_nat_alt unsigned_of_nat take_bit_nat_eq_self\<close>)
    show ?thesis
    proof (cases "parse_hex4 t = 0")
      case True
      then have "length bs = 1"
        by (intro utf8_encode_length(3) [OF bs]) (simp add: bmp(3))
      then show ?thesis
        using counted_drop [of 4 t] by (simp add: bmp(1) out)
    next
      case False
      then show ?thesis using parse_hex4_counted [of t] le3 by (simp add: bmp(1) out)
    qed
  next
    case pair
    obtain u where u: "drop 4 t = BACKSLASH # CHR ''u'' # u"
    proof -
      have "drop 4 t = t ! 4 # t ! 5 # drop 6 t"
        using pair(2) Cons_nth_drop_Suc [of 4 t] Cons_nth_drop_Suc [of 5 t] by simp
      then show ?thesis using that pair(5,6) by simp
    qed
    have d: "drop 6 t = u" "drop 10 t = drop 4 u"
      using arg_cong [OF u, of "drop 2"] arg_cong [OF u, of "drop 6"] by simp_all
    show ?thesis
      using parse_hex4_counted [of t] parse_hex4_counted [of u] pair d u utf8_encode_length(1) [OF bs]
      by (simp add: out)
  qed
qed

lemma unescape_counted: "length (fst (unescape s)) \<le> counted s"
proof (induction s rule: unescape.induct)
  case (2 c cs)
  show ?case
  proof (cases "c = BACKSLASH")
    case False
    then show ?thesis using 2(1) by (simp add: emit_def)
  next
    case True
    show ?thesis
    proof (cases cs)
      case (Cons e cs')
      consider (u) out n where "e = CHR ''u''" "utf16_literal_to_utf8 (c # cs) = Some (out, n)"
        | (x) x where "e \<noteq> CHR ''u''" "simple_escape e = Some x"
        | (none) "fst (unescape (c # cs)) = []"
        by (cases "e = CHR ''u''"; cases "utf16_literal_to_utf8 (c # cs)"; cases "simple_escape e")
          (auto simp: True Cons)
      then show ?thesis
      proof cases
        case u
        have "length (fst (unescape (drop (n - 1) cs))) \<le> counted (drop (n - 1) cs)"
          using 2(2) True Cons u by blast
        moreover have "drop (n - 1) cs = drop n (c # cs)"
          using utf16_literal_consumes [OF u(2)] by (cases n) auto
        ultimately show ?thesis
          using utf16_literal_counted [of e cs' out n] True Cons u
          by (simp add: emit_def del: counted.simps)
      next
        case x
        then show ?thesis using 2(3) [OF _ Cons x(1) x(2)] True Cons by (simp add: emit_def)
      qed simp
    qed (simp add: True)
  qed
qed simp

lemma scan_string_Some:
  "scan_string s = Some (n, k) \<Longrightarrow>
   n < length s \<and> s ! n = QUOTE \<and> counted (take n s) + k = n"
proof (induction s arbitrary: n k rule: scan_string.induct)
  case (2 c cs)
  then show ?case
    by (auto split: if_splits list.splits simp: QUOTE_def BACKSLASH_def)
qed simp

section \<open>Printed strings\<close>

lemma hex_digit_lower: "d < 16 \<Longrightarrow> hex_digit (hex_lower d) = Some d"
  by (auto simp: hex_digit_def hex_lower_def)

lemma parse_hex4_printed:
  "n < 256 \<Longrightarrow> parse_hex4 (CHR ''0'' # CHR ''0'' # hex_lower (n div 16) # hex_lower (n mod 16) # r) = n"
proof -
  assume "n < 256"
  moreover have "hex_digit (CHR ''0'') = Some 0" by (simp add: hex_digit_def)
  moreover have four: "(4::nat) = Suc (Suc (Suc (Suc 0)))" by simp
  ultimately show ?thesis
    unfolding parse_hex4_def four by (simp add: hex_digit_lower)
qed

lemma utf8_encode_ascii: "n < 0x80 \<Longrightarrow> utf8_encode (word_of_nat n) = Some [word_of_nat n]"
proof -
  assume n: "n < 0x80"
  have "(word_of_nat n :: u32) AND 0x7F = word_of_nat n"
  proof -
    have "(0x7F :: u32) = mask 7" by (simp add: mask_eq_exp_minus_1)
    then show ?thesis using n
      by (simp only: flip: take_bit_eq_mask) (simp add: take_bit_of_nat take_bit_nat_eq_self)
  qed
  then show ?thesis
    using n by (simp add: utf8_encode_def word_less_nat_alt unsigned_of_nat take_bit_nat_eq_self)
qed

lemma utf16_literal_printed:
  "ord c < 0x80 \<Longrightarrow> utf16_literal_to_utf8 (BACKSLASH # CHR ''u'' # CHR ''0'' # CHR ''0''
      # hex_lower (ord c div 16) # hex_lower (ord c mod 16) # r) = Some ([c], 6)"
  by (simp add: utf16_literal_to_utf8_def utf16_codepoint_def parse_hex4_printed utf8_encode_ascii
      byte_char_def unsigned_of_nat take_bit_nat_eq_self)

lemma unescape_escape_char:
  assumes "c \<noteq> CHR 0x00"
  shows "unescape (escape_char c @ r) = emit [c] (unescape r)"
proof -
  consider "31 < ord c" "c \<noteq> QUOTE" "c \<noteq> BACKSLASH"
    | "c \<in> {QUOTE, BACKSLASH, CHR 0x08, CHR 0x0C, CHR 0x0A, CHR 0x0D, CHR 0x09}"
    | "ord c \<le> 31" "c \<notin> {QUOTE, BACKSLASH, CHR 0x08, CHR 0x0C, CHR 0x0A, CHR 0x0D, CHR 0x09}"
    by fastforce
  then show ?thesis
  proof cases
    case 1
    then show ?thesis by (simp add: escape_char_def)
  next
    case 2
    then show ?thesis
      by (elim insertE emptyE) (simp_all add: escape_char_def simple_escape_def QUOTE_def BACKSLASH_def)
  next
    case 3
    then show ?thesis
      using utf16_literal_printed [of c r]
      by (simp add: escape_char_def)
  qed
qed

lemma unescape_printed:
  "CHR 0x00 \<notin> set s \<Longrightarrow> unescape (concat (map escape_char s) @ r) = emit s (unescape r)"
proof (induction s)
  case (Cons c s)
  then have "c \<noteq> CHR 0x00" by auto
  then show ?case using Cons by (simp add: unescape_escape_char emit_def)
qed (simp add: emit_def)

text \<open>A printed character is one plain character or one escape followed by plain hex digits.\<close>

lemma escape_char_shape:
  obtains (plain) "escape_char c = [c]" "c \<noteq> QUOTE" "c \<noteq> BACKSLASH"
    | (escaped) e ds where "escape_char c = BACKSLASH # e # ds" "\<forall>d\<in>set ds. d \<noteq> QUOTE \<and> d \<noteq> BACKSLASH"
proof -
  have hex: "hex_lower d \<noteq> QUOTE \<and> hex_lower d \<noteq> BACKSLASH" if "d < 16" for d
    using hex_digit_lower [OF that] by (auto simp: hex_digit_def QUOTE_def BACKSLASH_def)
  have "(escape_char c = [c] \<and> c \<noteq> QUOTE \<and> c \<noteq> BACKSLASH) \<or>
      (\<exists>e ds. escape_char c = BACKSLASH # e # ds \<and> (\<forall>d\<in>set ds. d \<noteq> QUOTE \<and> d \<noteq> BACKSLASH))"
  proof (cases "31 < ord c \<or> c \<in> {QUOTE, BACKSLASH, CHR 0x08, CHR 0x0C, CHR 0x0A, CHR 0x0D, CHR 0x09}")
    case True
    then show ?thesis by (auto simp: escape_char_def)
  next
    case False
    then have "ord c < 32" by simp
    with False show ?thesis
      using hex [of "ord c div 16"] hex [of "ord c mod 16"]
      by (simp add: escape_char_def) (simp add: QUOTE_def BACKSLASH_def)
  qed
  then show ?thesis using that by blast
qed

lemma scan_plain:
  "\<forall>d\<in>set ds. d \<noteq> QUOTE \<and> d \<noteq> BACKSLASH \<Longrightarrow>
   scan_string (ds @ r) = map_option (\<lambda>(n, k). (length ds + n, k)) (scan_string r)"
  by (cases "scan_string r") (induction ds; auto)+

lemma scan_escape_char:
  "\<exists>j. scan_string (escape_char c @ r) =
     map_option (\<lambda>(n, k). (length (escape_char c) + n, j + k)) (scan_string r)"
proof (cases rule: escape_char_shape [of c])
  case plain
  then show ?thesis by (intro exI [of _ 0]) (simp add: case_prod_beta)
next
  case (escaped e ds)
  then show ?thesis
    by (cases "scan_string r"; intro exI [of _ 1])
      (auto simp: scan_plain BACKSLASH_def QUOTE_def)
qed

lemma scan_printed:
  "\<exists>k. scan_string (concat (map escape_char s) @ QUOTE # r) = Some (length (concat (map escape_char s)), k)"
proof (induction s)
  case (Cons c s)
  then obtain k where "scan_string (concat (map escape_char s) @ QUOTE # r) =
      Some (length (concat (map escape_char s)), k)" by blast
  then show ?case
    using scan_escape_char [of c "concat (map escape_char s) @ QUOTE # r"] by auto
qed simp

lemma parse_printed_string:
  assumes "CHR 0x00 \<notin> set s"
  shows "parse_string_raw (pre @ print_string s @ post) (length pre) =
     Accept (s, length pre + length (print_string s))"
proof -
  let ?t = "concat (map escape_char s)"
  obtain k where k: "scan_string (?t @ QUOTE # post) = Some (length ?t, k)"
    using scan_printed by blast
  have "unescape ?t = (s, True)"
    using unescape_printed [OF assms, of "[]"] by (simp add: emit_def)
  then show ?thesis
    by (simp add: parse_string_raw_def can_access_def print_string_def nth_append k)
qed

lemma cstr_no_nul: "CHR 0x00 \<notin> set s \<Longrightarrow> cstr s = s"
  unfolding cstr_def by (simp add: takeWhile_eq_all_conv) metis

text \<open>The bytes \<open>parse_string\<close> writes to the output buffer, a failing run included.\<close>

definition parse_string_writes :: "string \<Rightarrow> nat \<Rightarrow> nat" where
  "parse_string_writes b off =
     (case scan_string (drop (off + 1) b) of
        None \<Rightarrow> 0
      | Some (n, _) \<Rightarrow>
          (case unescape (take n (drop (off + 1) b)) of (out, ok) \<Rightarrow> length out + of_bool ok))"

text \<open>
  The standard's UTF-8 decoding of one code point, for the encoder to be compared with.
\<close>

definition utf8_decode :: "u8 list \<Rightarrow> u32 option" where
  "utf8_decode bs =
     (let v = (\<lambda>b m. (ucast b :: u32) AND m) in
      case bs of
        [a] \<Rightarrow> if a AND 0x80 = 0 then Some (v a 0x7F) else None
      | [a, b] \<Rightarrow>
          if a AND 0xE0 = 0xC0 \<and> b AND 0xC0 = 0x80
          then Some (push_bit 6 (v a 0x1F) OR v b 0x3F) else None
      | [a, b, c] \<Rightarrow>
          if a AND 0xF0 = 0xE0 \<and> b AND 0xC0 = 0x80 \<and> c AND 0xC0 = 0x80
          then Some (push_bit 12 (v a 0x0F) OR push_bit 6 (v b 0x3F) OR v c 0x3F) else None
      | [a, b, c, d] \<Rightarrow>
          if a AND 0xF8 = 0xF0 \<and> b AND 0xC0 = 0x80 \<and> c AND 0xC0 = 0x80 \<and> d AND 0xC0 = 0x80
          then Some (push_bit 18 (v a 0x07) OR push_bit 12 (v b 0x3F) OR push_bit 6 (v c 0x3F)
                     OR v d 0x3F) else None
      | _ \<Rightarrow> None)"

lemma utf8_continuation: "(ucast (((cp::u32) OR 0x80) AND 0xBF) :: u8) AND 0xC0 = 0x80"
  by (rule word8_eqI, elim insertE emptyE) (simp_all add: bit_simps)

lemma utf8_two:
  assumes "\<And>n. 11 \<le> n \<Longrightarrow> \<not> bit (cp::u32) n"
  shows "utf8_decode (let (bs, c) = utf8_tail 1 cp in ucast ((c OR 0xC0) AND 0xFF) # bs) = Some cp"
proof -
  have 1: "(ucast ((drop_bit 6 cp OR 0xC0) AND 0xFF) :: u8) AND 0xE0 = 0xC0"
    by (rule word8_eqI, elim insertE emptyE) (simp_all add: bit_simps assms)
  have 3: "push_bit 6 (ucast (ucast ((drop_bit 6 cp OR 0xC0) AND 0xFF) :: u8) AND 0x1F) OR
      ucast (ucast ((cp OR 0x80) AND 0xBF) :: u8) AND 0x3F = cp"
    by (rule word32_eqI, elim insertE emptyE) (simp_all add: bit_simps assms)
  show ?thesis using 1 utf8_continuation 3 by (simp add: utf8_decode_def One_nat_def)
qed

lemma utf8_three:
  assumes "\<And>n. 16 \<le> n \<Longrightarrow> \<not> bit (cp::u32) n"
  shows "utf8_decode (let (bs, c) = utf8_tail 2 cp in ucast ((c OR 0xE0) AND 0xFF) # bs) = Some cp"
proof -
  have 1: "(ucast ((drop_bit 12 cp OR 0xE0) AND 0xFF) :: u8) AND 0xF0 = 0xE0"
    by (rule word8_eqI, elim insertE emptyE) (simp_all add: bit_simps assms)
  have 3: "push_bit 12 (ucast (ucast ((drop_bit 12 cp OR 0xE0) AND 0xFF) :: u8) AND 0x0F) OR
      push_bit 6 (ucast (ucast ((drop_bit 6 cp OR 0x80) AND 0xBF) :: u8) AND 0x3F) OR
      ucast (ucast ((cp OR 0x80) AND 0xBF) :: u8) AND 0x3F = cp"
    by (rule word32_eqI, elim insertE emptyE) (simp_all add: bit_simps assms)
  show ?thesis using 1 utf8_continuation 3 by (simp add: utf8_decode_def numeral_2_eq_2)
qed

lemma utf8_four:
  assumes "\<And>n. 21 \<le> n \<Longrightarrow> \<not> bit (cp::u32) n"
  shows "utf8_decode (let (bs, c) = utf8_tail 3 cp in ucast ((c OR 0xF0) AND 0xFF) # bs) = Some cp"
proof -
  have 1: "(ucast ((drop_bit 18 cp OR 0xF0) AND 0xFF) :: u8) AND 0xF8 = 0xF0"
    by (rule word8_eqI, elim insertE emptyE) (simp_all add: bit_simps assms)
  have 3: "push_bit 18 (ucast (ucast ((drop_bit 18 cp OR 0xF0) AND 0xFF) :: u8) AND 0x07) OR
      push_bit 12 (ucast (ucast ((drop_bit 12 cp OR 0x80) AND 0xBF) :: u8) AND 0x3F) OR
      push_bit 6 (ucast (ucast ((drop_bit 6 cp OR 0x80) AND 0xBF) :: u8) AND 0x3F) OR
      ucast (ucast ((cp OR 0x80) AND 0xBF) :: u8) AND 0x3F = cp"
    by (rule word32_eqI, elim insertE emptyE) (simp_all add: bit_simps assms)
  show ?thesis using 1 utf8_continuation 3 by (simp add: utf8_decode_def numeral_3_eq_3)
qed

lemma utf8_one:
  assumes "\<And>n. 7 \<le> n \<Longrightarrow> \<not> bit (cp::u32) n"
  shows "utf8_decode [ucast (cp AND 0x7F)] = Some cp"
proof -
  have 1: "(ucast (cp AND 0x7F) :: u8) AND 0x80 = 0"
    by (rule word8_eqI, elim insertE emptyE) (simp_all add: bit_simps)
  have 3: "ucast (ucast (cp AND 0x7F) :: u8) AND 0x7F = cp"
    by (rule word32_eqI, elim insertE emptyE) (simp_all add: bit_simps assms)
  show ?thesis using 1 3 by (simp add: utf8_decode_def)
qed

section \<open>Properties\<close>

text \<open>
  Every code point that the encoder accepts, U+0000 to U+10FFFF, is written as the UTF-8
  sequence that decodes to it, and every other value is refused.
\<close>

theorem utf8_encode_correct:
  "case utf8_encode cp of
     Some bs \<Rightarrow> cp \<le> 0x10FFFF \<and> utf8_decode bs = Some cp
   | None \<Rightarrow> 0x10FFFF < cp"
proof -
  consider (1) "cp < 2 ^ 7" | (2) "\<not> cp < 0x80" "cp < 2 ^ 11" | (3) "\<not> cp < 0x800" "\<not> cp < 0x80" "cp < 2 ^ 16"
    | (4) "\<not> cp < 0x10000" "\<not> cp < 0x800" "\<not> cp < 0x80" "cp \<le> 0x10FFFF" | (none) "0x10FFFF < cp"
    by (cases "cp < 0x80"; cases "cp < 0x800"; cases "cp < 0x10000"; cases "cp \<le> 0x10FFFF")
      (simp_all add: not_le)
  then show ?thesis
  proof cases
    case 1
    then show ?thesis
      using utf8_one [of cp] bit_less_power [OF 1] by (simp add: utf8_encode_def word_le_nat_alt word_less_nat_alt)
  next
    case 2
    then show ?thesis
      using utf8_two [of cp] bit_less_power [OF 2(2)]
      by (simp add: utf8_encode_def case_prod_beta Let_def word_le_nat_alt word_less_nat_alt)
  next
    case 3
    then show ?thesis
      using utf8_three [of cp] bit_less_power [OF 3(3)]
      by (simp add: utf8_encode_def case_prod_beta Let_def word_le_nat_alt word_less_nat_alt)
  next
    case 4
    have "cp < 2 ^ 21" using 4(4) by (simp add: word_le_nat_alt word_less_nat_alt)
    from bit_less_power [OF this] show ?thesis
      using utf8_four [of cp] 4 by (simp add: utf8_encode_def case_prod_beta Let_def)
  next
    case none
    then have "\<not> cp < 0x80" "\<not> cp < 0x800" "\<not> cp < 0x10000" "\<not> cp \<le> 0x10FFFF"
      by (simp_all add: word_le_nat_alt word_less_nat_alt)
    then show ?thesis using none by (simp add: utf8_encode_def)
  qed
qed

text \<open>
  C11. \<open>parse_string\<close> never writes behind the buffer it allocates, whose size is counted before the
  text is unescaped: neither in a run that succeeds (with the terminator) nor in one that fails.
\<close>

theorem parse_string_writes_fit:
  "parse_string_writes b off \<le> allocation_length b off"
proof (cases "scan_string (drop (off + 1) b)")
  case (Some nk)
  obtain n k where nk: "nk = (n, k)" by (cases nk)
  let ?t = "take n (drop (off + 1) b)"
  have "counted ?t + k = n"
    using scan_string_Some Some nk by blast
  then show ?thesis
    using unescape_counted [of ?t] unfolding parse_string_writes_def allocation_length_def Some nk
    by (cases "unescape ?t") auto
qed (simp add: parse_string_writes_def allocation_length_def)

text \<open>
  What \<open>print_string_ptr\<close> writes for a C string, wherever it stands in a document, is parsed
  back by \<open>parse_string\<close> to the same string, and the parser stops right behind it.
\<close>

theorem print_then_parse_string:
  assumes "CHR 0x00 \<notin> set s"
  shows "parse_string (pre @ print_string s @ post) (length pre) =
     Accept (s, length pre + length (print_string s))"
  using assms by (simp add: parse_string_def parse_printed_string cstr_no_nul)

theorem print_then_parse_string_witness:
  "parse_string (''{'' @ print_string [CHR ''a'', QUOTE, CHR 0x0A, CHR 0x01] @ '':1}'') 1 =
     Accept ([CHR ''a'', QUOTE, CHR 0x0A, CHR 0x01], 14)"
  using print_then_parse_string [of "[CHR ''a'', QUOTE, CHR 0x0A, CHR 0x01]" "''{''" "'':1}''"]
  by (simp add: print_string_def escape_char_def QUOTE_def BACKSLASH_def hex_lower_def)

end
