(* ===== verification/JsonNumber.thy ===== *)
theory JsonNumber
  imports JsonString Complex_Main
begin

text \<open>
  Numbers in \<open>components/json/cJSON/cJSON.c\<close>: \<open>parse_number\<close>, \<open>print_number\<close> and the two views of
  a number item, \<open>valuedouble\<close> and \<open>valueint\<close>. A \<open>double\<close> that is not an infinity is the rational
  number it stands for (the two zeros are one, and no operation of the firmware yields a NaN).
  \<open>strtod\<close> and the formats \<open>%d\<close> and \<open>%1.<P>g\<close> of the C library are written out: decimal text to the
  nearest double, ties to even, and decimal rounding of the exact value.
\<close>

section \<open>Doubles\<close>

datatype dbl = Fin rat | Inf bool

definition pow_int :: "nat \<Rightarrow> int \<Rightarrow> rat" where
  "pow_int b e = (if 0 \<le> e then of_nat b ^ nat e else 1 / of_nat b ^ nat (- e))"

fun ndigits :: "nat \<Rightarrow> nat \<Rightarrow> nat" where
  "ndigits b n = (if n < b \<or> b < 2 then 1 else Suc (ndigits b (n div b)))"

declare ndigits.simps [simp del]

text \<open>The largest \<open>k\<close> with \<open>b ^ k \<le> x\<close>, for a positive \<open>x\<close>.\<close>

definition floor_log :: "nat \<Rightarrow> rat \<Rightarrow> int" where
  "floor_log b x =
     (case quotient_of x of (n, d) \<Rightarrow>
        (let k = int (ndigits b (nat n)) - int (ndigits b (nat d))
         in if pow_int b k \<le> x then k else k - 1))"

definition round_half_even :: "rat \<Rightarrow> int" where
  "round_half_even x =
     (let f = \<lfloor>x\<rfloor>; r = x - of_int f
      in if r < 1 / 2 then f else if 1 / 2 < r then f + 1 else if even f then f else f + 1)"

definition round_double :: "rat \<Rightarrow> dbl" where
  "round_double x =
     (if x = 0 then Fin 0
      else (let e = max (floor_log 2 \<bar>x\<bar> - 52) (-1074);
                m = round_half_even (\<bar>x\<bar> / pow_int 2 e);
                y = of_int m * pow_int 2 e
            in if pow_int 2 1024 \<le> y then Inf (x < 0)
               else Fin (if x < 0 then - y else y)))"

text \<open>\<open>valueint\<close> is the double cut off and saturated.\<close>

definition INT_MAX :: int where "INT_MAX = 2147483647"
definition INT_MIN :: int where "INT_MIN = -2147483648"

fun value_int :: "dbl \<Rightarrow> int" where
  "value_int (Inf neg) = (if neg then INT_MIN else INT_MAX)"
| "value_int (Fin x) =
     (if of_int INT_MAX \<le> x then INT_MAX
      else if x \<le> of_int INT_MIN then INT_MIN
      else if x < 0 then - \<lfloor>- x\<rfloor> else \<lfloor>x\<rfloor>)"

section \<open>strtod\<close>

definition strtod_sign :: "string \<Rightarrow> bool \<times> string" where
  "strtod_sign s =
     (case s of
        [] \<Rightarrow> (False, [])
      | c # cs \<Rightarrow> if c = CHR ''-'' then (True, cs) else if c = CHR ''+'' then (False, cs) else (False, s))"

definition strtod_exp :: "string \<Rightarrow> int \<times> string" where
  "strtod_exp s =
     (case s of
        [] \<Rightarrow> (0, s)
      | c # cs \<Rightarrow>
          if c = CHR ''e'' \<or> c = CHR ''E'' then
            (case strtod_sign cs of (neg, ds) \<Rightarrow>
               if takeWhile is_digit ds = [] then (0, s)
               else ((if neg then -1 else 1) * int (digits_val 0 (takeWhile is_digit ds)),
                     dropWhile is_digit ds))
          else (0, s))"

text \<open>The value and the unread rest, \<open>None\<close> when there is no number.\<close>

definition strtod :: "string \<Rightarrow> (dbl \<times> string) option" where
  "strtod s =
     (case strtod_sign s of (neg, s1) \<Rightarrow>
      let whole = takeWhile is_digit s1;
          s2 = dropWhile is_digit s1;
          (fract, s3) = (case s2 of
              c # cs \<Rightarrow> if c = CHR ''.'' then (takeWhile is_digit cs, dropWhile is_digit cs) else ([], s2)
            | [] \<Rightarrow> ([], s2))
      in if whole = [] \<and> fract = [] then None
         else (case strtod_exp s3 of (e, s4) \<Rightarrow>
                 Some (round_double ((if neg then -1 else 1) * of_nat (digits_val 0 (whole @ fract))
                         * pow_int 10 (e - int (length fract))), s4)))"

section \<open>parse\_number\<close>

definition number_char :: "char \<Rightarrow> bool" where
  "number_char c \<longleftrightarrow> is_digit c \<or> c \<in> set ''+-eE.''"

definition parse_number :: "string \<Rightarrow> nat \<Rightarrow> (dbl \<times> nat) pres" where
  "parse_number b off =
     (let number_c_string = takeWhile number_char (take 63 (drop off b))
      in case strtod number_c_string of
           None \<Rightarrow> Reject
         | Some (d, rest) \<Rightarrow> Accept (d, off + (length number_c_string - length rest)))"

section \<open>print\_number\<close>

text \<open>Trailing zeros of the digits behind the point, and a point without digits, are not printed.\<close>

definition strip_zeros :: "string \<Rightarrow> string" where
  "strip_zeros s = rev (dropWhile (\<lambda>c. c = CHR ''0'') (rev s))"

definition with_point :: "string \<Rightarrow> string \<Rightarrow> string" where
  "with_point whole fract =
     (if strip_zeros fract = [] then whole else whole @ CHR ''.'' # strip_zeros fract)"

definition format_g :: "nat \<Rightarrow> rat \<Rightarrow> string" where
  "format_g P x =
     (let a = \<bar>x\<bar>;
          k = floor_log 10 a;
          m0 = nat (round_half_even (a / pow_int 10 (k - int P + 1)));
          (m, X) = (if m0 = 10 ^ P then (10 ^ (P - 1), k + 1) else (m0, k));
          ds = dec_nat m;
          body =
            (if -4 \<le> X \<and> X < int P then
               (if 0 \<le> X then with_point (take (nat X + 1) ds) (drop (nat X + 1) ds)
                else with_point ''0'' (replicate (nat (- X) - 1) (CHR ''0'') @ ds))
             else with_point (take 1 ds) (drop 1 ds) @ ''e'' @ (if X < 0 then ''-'' else ''+'') @
                  (if \<bar>X\<bar> < 10 then ''0'' else '''') @ dec_nat (nat \<bar>X\<bar>))
      in (if x < 0 then ''-'' else '''') @ body)"

definition compare_double :: "rat \<Rightarrow> rat \<Rightarrow> bool" where
  "compare_double a b \<longleftrightarrow> \<bar>a - b\<bar> \<le> max \<bar>a\<bar> \<bar>b\<bar> * pow_int 2 (-52)"

definition number_text :: "dbl \<Rightarrow> string" where
  "number_text d =
     (case d of
        Inf _ \<Rightarrow> ''null''
      | Fin x \<Rightarrow>
          if x = of_int (value_int d) then dec_int (value_int d)
          else (case strtod (format_g 15 x) of
                  Some (Fin test, _) \<Rightarrow>
                    if compare_double test x then format_g 15 x else format_g 17 x
                | _ \<Rightarrow> format_g 17 x))"

section \<open>Integers\<close>

lemma ndigits_le: "2 \<le> b \<Longrightarrow> n < b ^ k \<Longrightarrow> 0 < k \<Longrightarrow> ndigits b n \<le> k"
proof (induction k arbitrary: n)
  case (Suc k)
  show ?case
  proof (cases "n < b")
    case True
    then show ?thesis by (simp add: ndigits.simps [of b n])
  next
    case False
    then have "0 < k" using Suc.prems by (cases k) auto
    moreover have "n div b < b ^ k"
      using Suc.prems by (simp add: less_mult_imp_div_less mult.commute)
    ultimately have "ndigits b (n div b) \<le> k" using Suc by blast
    with False Suc.prems(1) show ?thesis by (simp add: ndigits.simps [of b n])
  qed
qed simp

lemma floor_log_int: "0 < n \<Longrightarrow> n < 2 ^ 53 \<Longrightarrow> floor_log 2 (of_int n) \<le> 52"
proof -
  assume n: "0 < n" "n < 2 ^ 53"
  then have "ndigits 2 (nat n) \<le> 53"
    by (intro ndigits_le) (simp_all add: nat_less_iff)
  moreover have "ndigits 2 (nat 1) = 1" by (simp add: ndigits.simps)
  ultimately show ?thesis
    by (auto simp: floor_log_def Let_def)
qed

lemma round_half_even_int [simp]: "round_half_even (of_int z) = z"
  by (simp add: round_half_even_def)

lemma pow_int_neg: "e \<le> 0 \<Longrightarrow> pow_int 2 e = 1 / 2 ^ nat (- e)"
  by (auto simp: pow_int_def)

lemma round_double_int:
  assumes "\<bar>i\<bar> < 2 ^ 53"
  shows "round_double (of_int i) = Fin (of_int i)"
proof (cases "i = 0")
  case False
  let ?n = "\<bar>i\<bar>"
  define e where "e = max (floor_log 2 (of_int ?n) - 52) (-1074)"
  have e: "e \<le> 0" using floor_log_int [of ?n] assms False by (simp add: e_def)
  have "of_int ?n / pow_int 2 e = (of_int (?n * 2 ^ nat (- e)) :: rat)"
    by (simp add: pow_int_neg [OF e])
  then have m: "round_half_even (of_int ?n / pow_int 2 e) = ?n * 2 ^ nat (- e)"
    by (simp only: round_half_even_int)
  have y: "of_int (?n * 2 ^ nat (- e)) * pow_int 2 e = (of_int ?n :: rat)"
    by (simp add: pow_int_neg [OF e])
  have "(of_int ?n :: rat) < of_int (2 ^ 53)" using assms by (simp only: of_int_less_iff)
  then have "(of_int ?n :: rat) < 2 ^ 53" by simp
  also have "(2 ^ 53 :: rat) \<le> pow_int 2 1024" by (simp add: pow_int_def)
  finally have small: "\<not> pow_int 2 1024 \<le> (of_int ?n :: rat)" by simp
  have "round_double (of_int i) = Fin (if (of_int i :: rat) < 0 then - of_int ?n else of_int ?n)"
    using False small unfolding round_double_def Let_def
    by (simp only: of_int_abs [symmetric] e_def [symmetric] m y) simp
  then show ?thesis by simp
qed (simp add: round_double_def)

definition int32 :: "int \<Rightarrow> bool" where
  "int32 i \<longleftrightarrow> INT_MIN \<le> i \<and> i \<le> INT_MAX"

lemma value_int_int: "int32 i \<Longrightarrow> value_int (Fin (of_int i)) = i"
  by (auto simp: int32_def INT_MIN_def INT_MAX_def simp flip: of_int_minus)

lemma number_text_int: "int32 i \<Longrightarrow> number_text (Fin (of_int i)) = dec_int i"
  by (simp add: number_text_def value_int_int del: value_int.simps)

text \<open>What may follow a number in a document: a character that cannot be part of one.\<close>

definition number_ends :: "string \<Rightarrow> bool" where
  "number_ends s \<longleftrightarrow> s = [] \<or> \<not> number_char (hd s)"

lemma takeWhile_dec_nat: "number_ends s \<Longrightarrow> takeWhile number_char (dec_nat n @ s) = dec_nat n"
proof -
  assume "number_ends s"
  moreover have "\<forall>c\<in>set (dec_nat n). number_char c"
    using dec_nat_digits by (auto simp: number_char_def)
  ultimately show ?thesis
    by (subst takeWhile_append2) (cases s; auto simp: number_ends_def)+
qed

lemma dec_nat_all_digits: "takeWhile is_digit (dec_nat n) = dec_nat n" "dropWhile is_digit (dec_nat n) = []"
  using dec_nat_digits [of _ n] by (simp_all add: takeWhile_eq_all_conv dropWhile_eq_Nil_conv)

lemma strtod_sign_dec_nat: "strtod_sign (dec_nat n) = (False, dec_nat n)"
  using dec_nat_digits [of "hd (dec_nat n)" n]
  by (cases "dec_nat n") (auto simp: strtod_sign_def is_digit_def)

lemma strtod_dec_int: "\<bar>i\<bar> < 2 ^ 53 \<Longrightarrow> strtod (dec_int i) = Some (Fin (of_int i), [])"
proof -
  assume i: "\<bar>i\<bar> < 2 ^ 53"
  have s: "strtod_sign (dec_int i) = (i < 0, dec_nat (nat \<bar>i\<bar>))"
    by (simp add: dec_int_def strtod_sign_dec_nat) (simp add: strtod_sign_def)
  have "(if i < 0 then -1 else 1) * of_nat (nat \<bar>i\<bar>) = (of_int i :: rat)"
    by (simp add: of_nat_nat)
  then show ?thesis
    using round_double_int [OF i]
    by (simp add: strtod_def s dec_nat_all_digits digits_val_dec_nat strtod_exp_def pow_int_def)
qed

lemma dec_int_length: "int32 i \<Longrightarrow> length (dec_int i) \<le> 11"
proof -
  assume "int32 i"
  then have "\<bar>i\<bar> < 10 ^ 10" by (auto simp: int32_def INT_MIN_def INT_MAX_def)
  then have "nat \<bar>i\<bar> < 10 ^ 10" by (simp add: nat_less_iff)
  then have "length (dec_nat (nat \<bar>i\<bar>)) \<le> 10" by (rule dec_nat_length) simp
  then show ?thesis by (cases "i < 0") (simp_all add: dec_int_def)
qed

lemma parse_printed_number:
  assumes "int32 i" and "number_ends post"
  shows "parse_number (pre @ number_text (Fin (of_int i)) @ post) (length pre) =
     Accept (Fin (of_int i), length pre + length (number_text (Fin (of_int i))))"
proof -
  have "takeWhile number_char (take 63 (dec_int i @ post)) = dec_int i"
  proof -
    have "number_ends (take (63 - length (dec_int i)) post)"
      using assms(2) by (cases post) (auto simp: number_ends_def take_Cons split: nat.splits)
    then show ?thesis
      using dec_int_length [OF assms(1)] takeWhile_dec_nat
      by (auto simp: dec_int_def number_char_def)
  qed
  moreover have "\<bar>i\<bar> < 2 ^ 53" using assms(1) by (auto simp: int32_def INT_MIN_def INT_MAX_def)
  ultimately show ?thesis
    using assms(1) by (simp add: parse_number_def number_text_int strtod_dec_int)
qed

end
