(* ===== verification/JsonParse.thy ===== *)
theory JsonParse
  imports JsonNumber
begin

text \<open>
  The documents of \<open>components/json/cJSON/cJSON.c\<close> and its parser: \<open>parse_value\<close>, \<open>parse_array\<close>,
  \<open>parse_object\<close>, \<open>buffer_skip_whitespace\<close>, \<open>skip_utf8_bom\<close> and the entry points. The linked list
  of the children of an item is a list, a member carries its name, and an item that is an
  unnamed value has none. The parser is fuelled; \<open>Diverge\<close> is running out of fuel and \<open>Overread\<close>
  reading behind the buffer, and the properties below exclude them where the code does. The
  allocations of the parser are taken to succeed.
\<close>

section \<open>Documents\<close>

datatype cjson =
    JNull | JFalse | JTrue
  | JNumber dbl
  | JString string
  | JRaw string
  | JArray "cjson list"
  | JObject "(string \<times> cjson) list"

section \<open>The parser\<close>

definition CJSON_NESTING_LIMIT :: nat where "CJSON_NESTING_LIMIT = 1000"

definition NUL :: char where "NUL = CHR 0x00"

definition is_ws :: "char \<Rightarrow> bool" where
  "is_ws c \<longleftrightarrow> ord c \<le> 32"

text \<open>White space up to the end of the buffer is left on its last byte.\<close>

definition skip_ws :: "string \<Rightarrow> nat \<Rightarrow> nat" where
  "skip_ws b off =
     (if \<not> can_access b off then off
      else (let off' = off + length (takeWhile is_ws (drop off b))
            in if off' = length b then off' - 1 else off'))"

definition skip_utf8_bom :: "string \<Rightarrow> nat \<Rightarrow> nat" where
  "skip_utf8_bom b off =
     (if can_access b (off + 4) \<and> take 3 (drop off b) = [CHR 0xEF, CHR 0xBB, CHR 0xBF] then off + 3
      else off)"

definition reads_literal :: "string \<Rightarrow> nat \<Rightarrow> string \<Rightarrow> bool" where
  "reads_literal b off w \<longleftrightarrow> off + length w \<le> length b \<and> take (length w) (drop off b) = w"

definition map_pres :: "('a \<Rightarrow> 'b) \<Rightarrow> 'a pres \<Rightarrow> 'b pres" where
  "map_pres f r =
     (case r of Accept x \<Rightarrow> Accept (f x) | Reject \<Rightarrow> Reject | Overread \<Rightarrow> Overread | Diverge \<Rightarrow> Diverge)"

definition bind_pres :: "'a pres \<Rightarrow> ('a \<Rightarrow> 'b pres) \<Rightarrow> 'b pres" where
  "bind_pres r f =
     (case r of Accept x \<Rightarrow> f x | Reject \<Rightarrow> Reject | Overread \<Rightarrow> Overread | Diverge \<Rightarrow> Diverge)"

text \<open>
  The alternatives of \<open>parse_value\<close> that are no container; \<open>None\<close> when the offset is at none of
  them.
\<close>

definition parse_scalar :: "string \<Rightarrow> nat \<Rightarrow> (cjson \<times> nat) pres option" where
  "parse_scalar b off =
     (if reads_literal b off ''null'' then Some (Accept (JNull, off + 4))
      else if reads_literal b off ''false'' then Some (Accept (JFalse, off + 5))
      else if reads_literal b off ''true'' then Some (Accept (JTrue, off + 4))
      else if at_char b off QUOTE then
        Some (map_pres (\<lambda>(s, o'). (JString s, o')) (parse_string b off))
      else if can_access b off \<and> (b ! off = CHR ''-'' \<or> is_digit (b ! off)) then
        Some (map_pres (\<lambda>(d, o'). (JNumber d, o')) (parse_number b off))
      else None)"

text \<open>
  The common head of \<open>parse_array\<close> and \<open>parse_object\<close>: the nesting limit, the empty container, and
  the step back to the character before the first element.
\<close>

definition open_bracket ::
  "nat \<Rightarrow> string \<Rightarrow> nat \<Rightarrow> char \<Rightarrow> (nat \<Rightarrow> ('a list \<times> nat) pres) \<Rightarrow> ('a list \<times> nat) pres" where
  "open_bracket depth b off close elems =
     (if CJSON_NESTING_LIMIT \<le> depth then Reject
      else (let o1 = skip_ws b (off + 1)
            in if at_char b o1 close then Accept ([], o1 + 1)
               else if \<not> can_access b o1 then Reject
               else elems (o1 - 1)))"

text \<open>
  \<open>parse_elems\<close> and \<open>parse_members\<close> are the \<open>do\<close> loops of \<open>parse_array\<close> and \<open>parse_object\<close>, entered
  with the offset one before the element, on the bracket, the comma or white space before it.
\<close>

function (sequential) parse_value :: "nat \<Rightarrow> nat \<Rightarrow> string \<Rightarrow> nat \<Rightarrow> (cjson \<times> nat) pres"
  and parse_elems :: "nat \<Rightarrow> nat \<Rightarrow> string \<Rightarrow> nat \<Rightarrow> (cjson list \<times> nat) pres"
  and parse_members :: "nat \<Rightarrow> nat \<Rightarrow> string \<Rightarrow> nat \<Rightarrow> ((string \<times> cjson) list \<times> nat) pres" where
  "parse_value 0 depth b off = Diverge"
| "parse_value (Suc n) depth b off =
     (case parse_scalar b off of
        Some r \<Rightarrow> r
      | None \<Rightarrow>
          if at_char b off (CHR ''['') then
            map_pres (\<lambda>(xs, o'). (JArray xs, o'))
              (open_bracket depth b off (CHR '']'') (parse_elems n (depth + 1) b))
          else if at_char b off (CHR ''{'') then
            map_pres (\<lambda>(ms, o'). (JObject ms, o'))
              (open_bracket depth b off (CHR ''}'') (parse_members n (depth + 1) b))
          else Reject)"
| "parse_elems 0 depth b off = Diverge"
| "parse_elems (Suc n) depth b off =
     bind_pres (parse_value n depth b (skip_ws b (off + 1))) (\<lambda>(x, o1).
       let o2 = skip_ws b o1
       in if at_char b o2 (CHR '','') then
            map_pres (\<lambda>(xs, o'). (x # xs, o')) (parse_elems n depth b o2)
          else if at_char b o2 (CHR '']'') then Accept ([x], o2 + 1)
          else Reject)"
| "parse_members 0 depth b off = Diverge"
| "parse_members (Suc n) depth b off =
     bind_pres (parse_string b (skip_ws b (off + 1))) (\<lambda>(k, o1).
       let o2 = skip_ws b o1
       in if \<not> at_char b o2 (CHR '':'') then Reject
          else bind_pres (parse_value n depth b (skip_ws b (o2 + 1))) (\<lambda>(x, o3).
            let o4 = skip_ws b o3
            in if at_char b o4 (CHR '','') then
                 map_pres (\<lambda>(ms, o'). ((k, x) # ms, o')) (parse_members n depth b o4)
               else if at_char b o4 (CHR ''}'') then Accept ([(k, x)], o4 + 1)
               else Reject))"
  by pat_completeness auto
termination
  by (relation "measure (case_sum fst (case_sum fst fst))") auto

declare parse_value.simps [simp del] parse_elems.simps [simp del] parse_members.simps [simp del]

text \<open>Two calls of the parser per byte of the buffer are enough, see \<open>cJSON_Parse_returns\<close>.\<close>

definition parse_fuel :: "string \<Rightarrow> nat" where
  "parse_fuel b = 2 * length b + 1"

text \<open>The item and the offset of \<open>return_parse_end\<close>.\<close>

definition cJSON_ParseWithLengthOpts :: "string \<Rightarrow> bool \<Rightarrow> (cjson \<times> nat) pres" where
  "cJSON_ParseWithLengthOpts b require_null_terminated =
     (if b = [] then Reject
      else bind_pres (parse_value (parse_fuel b) 0 b (skip_ws b (skip_utf8_bom b 0))) (\<lambda>(x, off).
        if require_null_terminated then
          (let o1 = skip_ws b off in if at_char b o1 NUL then Accept (x, o1) else Reject)
        else Accept (x, off)))"

text \<open>The C string \<open>s\<close> with its terminator is the buffer.\<close>

definition cJSON_ParseWithOpts :: "string \<Rightarrow> bool \<Rightarrow> (cjson \<times> nat) pres" where
  "cJSON_ParseWithOpts s require_null_terminated = cJSON_ParseWithLengthOpts (s @ [NUL]) require_null_terminated"

definition cJSON_Parse :: "string \<Rightarrow> cjson pres" where
  "cJSON_Parse s = map_pres fst (cJSON_ParseWithOpts s False)"

definition cJSON_ParseWithLength :: "string \<Rightarrow> cjson pres" where
  "cJSON_ParseWithLength b = map_pres fst (cJSON_ParseWithLengthOpts b False)"

section \<open>Offsets\<close>

named_theorems pres_simps "results of the parser"

lemma map_pres_simps [pres_simps, simp]:
  "map_pres f Diverge = Diverge" "map_pres f Overread = Overread" "map_pres f Reject = Reject"
  "map_pres f (Accept x) = Accept (f x)"
  by (simp_all add: map_pres_def)

lemma bind_pres_simps [pres_simps, simp]:
  "bind_pres Diverge g = Diverge" "bind_pres Overread g = Overread" "bind_pres Reject g = Reject"
  "bind_pres (Accept x) g = g x"
  by (simp_all add: bind_pres_def)

lemma map_pres_iff [simp]:
  "map_pres f r = Diverge \<longleftrightarrow> r = Diverge" "map_pres f r = Overread \<longleftrightarrow> r = Overread"
  "map_pres f r = Reject \<longleftrightarrow> r = Reject"
  "map_pres f r = Accept y \<longleftrightarrow> (\<exists>x. r = Accept x \<and> f x = y)"
  by (cases r; simp)+

lemma skip_ws_ge: "off \<le> skip_ws b off"
  by (auto simp: skip_ws_def can_access_def Let_def)

lemma skip_ws_le:
  assumes "off < length b"
  shows "skip_ws b off < length b"
proof -
  have "length (takeWhile is_ws (drop off b)) \<le> length b - off"
    by (metis length_drop length_takeWhile_le)
  then show ?thesis using assms by (auto simp: skip_ws_def can_access_def Let_def)
qed

lemma skip_ws_end: "length b \<le> off \<Longrightarrow> skip_ws b off = off"
  by (simp add: skip_ws_def can_access_def)

lemma at_char_less: "at_char b off c \<Longrightarrow> off < length b"
  by (simp add: at_char_def)

lemma parse_string_result:
  "parse_string b off \<noteq> Diverge" "off < length b \<Longrightarrow> parse_string b off \<noteq> Overread"
  "parse_string b off = Accept (s, o') \<Longrightarrow> off + 1 < o' \<and> o' \<le> length b"
  by (auto simp: parse_string_def parse_string_raw_def can_access_def
      split: pres.splits option.splits if_splits prod.splits dest!: scan_string_Some)

lemma strtod_sign_length: "length (snd (strtod_sign s)) \<le> length s"
  by (auto simp: strtod_sign_def split: list.splits)

lemma strtod_exp_length: "length (snd (strtod_exp s)) \<le> length s"
proof -
  have "length (dropWhile is_digit (snd (strtod_sign cs))) \<le> length cs" for cs
    using strtod_sign_length [of cs] length_dropWhile_le [of is_digit "snd (strtod_sign cs)"] by linarith
  then show ?thesis
    by (auto simp: strtod_exp_def case_prod_beta le_SucI split: list.splits)
qed

lemma dropWhile_less: "takeWhile P xs \<noteq> [] \<Longrightarrow> length (dropWhile P xs) < length xs"
proof -
  have "length (takeWhile P xs) + length (dropWhile P xs) = length xs"
    by (metis length_append takeWhile_dropWhile_id)
  then show "takeWhile P xs \<noteq> [] \<Longrightarrow> ?thesis" by (cases "takeWhile P xs") auto
qed

lemma strtod_consumes:
  assumes "strtod s = Some (d, rest)"
  shows "length rest < length s"
proof -
  obtain neg s1 where s1: "strtod_sign s = (neg, s1)" by fastforce
  let ?s2 = "dropWhile is_digit s1"
  obtain fr s3 where s3: "(case ?s2 of
              c # cs \<Rightarrow> if c = CHR ''.'' then (takeWhile is_digit cs, dropWhile is_digit cs) else ([], ?s2)
            | [] \<Rightarrow> ([], ?s2)) = (fr, s3)" by fastforce
  have rest: "rest = snd (strtod_exp s3)" and some: "takeWhile is_digit s1 \<noteq> [] \<or> fr \<noteq> []"
    using assms unfolding strtod_def s1 prod.case Let_def s3
    by (cases "strtod_exp s3"; auto split: if_splits)+
  have "length s3 \<le> length ?s2 \<and> (fr \<noteq> [] \<longrightarrow> length s3 < length ?s2)"
    using s3 length_dropWhile_le [of is_digit "tl ?s2"]
    by (cases "dropWhile is_digit s1" rule: list.exhaust; cases "hd ?s2 = CHR ''.''"; force)
  moreover have "length ?s2 \<le> length s1" "takeWhile is_digit s1 \<noteq> [] \<Longrightarrow> length ?s2 < length s1"
    by (simp_all add: length_dropWhile_le dropWhile_less)
  ultimately have "length s3 < length s1" using some by linarith
  then show ?thesis
    using strtod_exp_length [of s3] strtod_sign_length [of s] s1 rest by simp
qed

lemma parse_number_result:
  "parse_number b off \<noteq> Diverge" "parse_number b off \<noteq> Overread"
  "parse_number b off = Accept (d, o') \<Longrightarrow> off < length b \<Longrightarrow> off < o' \<and> o' \<le> length b"
proof -
  show "parse_number b off \<noteq> Diverge" "parse_number b off \<noteq> Overread"
    by (auto simp: parse_number_def Let_def split: option.splits)
  assume p: "parse_number b off = Accept (d, o')" and "off < length b"
  let ?s = "takeWhile number_char (take 63 (drop off b))"
  from p obtain rest where r: "strtod ?s = Some (d, rest)" "o' = off + (length ?s - length rest)"
    by (auto simp: parse_number_def Let_def split: option.splits)
  have "length ?s \<le> length b - off"
    using length_takeWhile_le [of number_char "take 63 (drop off b)"] by simp
  then show "off < o' \<and> o' \<le> length b"
    using strtod_consumes [OF r(1)] r(2) \<open>off < length b\<close> by linarith
qed

lemma parse_scalar_result:
  assumes "parse_scalar b off = Some r"
  shows "r \<noteq> Diverge" "r \<noteq> Overread" "r = Accept (j, o') \<Longrightarrow> off < o' \<and> o' \<le> length b"
  using assms
  by (auto simp: parse_scalar_def reads_literal_def can_access_def parse_number_result
      parse_string_result(1,2) dest: at_char_less parse_string_result(3) parse_number_result(3)
      split: if_splits)

section \<open>Termination and bounds\<close>

lemma bind_pres_Accept: "bind_pres r f = Accept y \<longleftrightarrow> (\<exists>x. r = Accept x \<and> f x = Accept y)"
  by (cases r) simp_all

lemma open_bracket_Accept:
  assumes "open_bracket depth b off close elems = Accept (xs, o')"
  obtains (empty) "xs = []" "at_char b (skip_ws b (off + 1)) close" "o' = skip_ws b (off + 1) + 1"
    | (elems) o1 where "off \<le> o1" "o1 + 1 < length b" "elems o1 = Accept (xs, o')"
proof -
  let ?o1 = "skip_ws b (off + 1)"
  have ge: "off + 1 \<le> ?o1" by (rule skip_ws_ge)
  from assms consider "xs = []" "at_char b ?o1 close" "o' = ?o1 + 1"
    | "can_access b ?o1" "elems (?o1 - 1) = Accept (xs, o')"
    by (auto simp: open_bracket_def Let_def split: if_splits)
  then show thesis
    by cases (use that(1) in blast, use ge in \<open>intro that(2) [of "?o1 - 1"]; simp add: can_access_def\<close>)
qed

lemma parse_bounds:
  "parse_value n d b off = Accept (x, o') \<Longrightarrow> off < o' \<and> o' \<le> length b"
  "parse_elems n d b off = Accept (xs, o') \<Longrightarrow> off < o' \<and> o' \<le> length b"
  "parse_members n d b off = Accept (ms, o') \<Longrightarrow> off < o' \<and> o' \<le> length b"
proof (induction n arbitrary: d off x xs ms o')
  case 0
  { case 1 then show ?case by (simp add: parse_value.simps) }
  { case 2 then show ?case by (simp add: parse_elems.simps) }
  { case 3 then show ?case by (simp add: parse_members.simps) }
next
  case (Suc n)
  have close: "off < skip_ws b (off + 1) + 1" for off
    using skip_ws_ge [of "off + 1" b] by simp
  { case 1
    show ?case
    proof (cases "parse_scalar b off")
      case (Some r)
      then show ?thesis using 1 parse_scalar_result(3) by (simp add: parse_value.simps)
    next
      case None
      then consider xs where "open_bracket d b off (CHR '']'') (parse_elems n (d + 1) b) = Accept (xs, o')"
        | ms where "open_bracket d b off (CHR ''}'') (parse_members n (d + 1) b) = Accept (ms, o')"
        using 1 by (auto simp: parse_value.simps split: if_splits)
      then show ?thesis
      proof cases
        case 1
        then show ?thesis
          by (cases rule: open_bracket_Accept)
            (use close at_char_less Suc.IH(2) in \<open>fastforce dest: order.strict_trans1\<close>)+
      next
        case 2
        then show ?thesis
          by (cases rule: open_bracket_Accept)
            (use close at_char_less Suc.IH(3) in \<open>fastforce dest: order.strict_trans1\<close>)+
      qed
    qed }
  { case 2
    obtain y o1 where v: "parse_value n d b (skip_ws b (off + 1)) = Accept (y, o1)"
      using 2 by (auto simp: parse_elems.simps bind_pres_Accept)
    have "off < o1" "o1 \<le> skip_ws b o1"
      using Suc.IH(1) [OF v] skip_ws_ge [of "off + 1" b] skip_ws_ge [of o1 b] by simp_all
    with 2 v show ?case
      using Suc.IH(2) [of d "skip_ws b o1"] at_char_less [of b "skip_ws b o1"]
      by (auto simp: parse_elems.simps Let_def split: if_splits) fastforce+ }
  { case 3
    obtain k o1 where s: "parse_string b (skip_ws b (off + 1)) = Accept (k, o1)"
      using 3 by (auto simp: parse_members.simps bind_pres_Accept)
    let ?o2 = "skip_ws b o1"
    obtain y o3 where v: "parse_value n d b (skip_ws b (?o2 + 1)) = Accept (y, o3)"
      using 3 s by (auto simp: parse_members.simps bind_pres_Accept Let_def split: if_splits)
    have "off < o3" "o3 \<le> skip_ws b o3"
      using parse_string_result(3) [OF s] Suc.IH(1) [OF v] skip_ws_ge [of "off + 1" b]
        skip_ws_ge [of o1 b] skip_ws_ge [of "?o2 + 1" b] skip_ws_ge [of o3 b] by simp_all
    with 3 s v show ?case
      using Suc.IH(3) [of d "skip_ws b o3"] at_char_less [of b "skip_ws b o3"]
      by (auto simp: parse_members.simps Let_def split: if_splits) fastforce+ }
qed

lemma bind_pres_Diverge: "bind_pres r f = Diverge \<longleftrightarrow> r = Diverge \<or> (\<exists>x. r = Accept x \<and> f x = Diverge)"
  by (cases r) simp_all

lemma bind_pres_Overread: "bind_pres r f = Overread \<longleftrightarrow> r = Overread \<or> (\<exists>x. r = Accept x \<and> f x = Overread)"
  by (cases r) simp_all

lemma open_bracket_bad:
  assumes "open_bracket depth b off close elems = z" and "z = Diverge \<or> z = Overread"
  obtains o1 where "off \<le> o1" "o1 + 1 < length b" "elems o1 = z"
proof -
  let ?o1 = "skip_ws b (off + 1)"
  have "off + 1 \<le> ?o1" by (rule skip_ws_ge)
  moreover have "can_access b ?o1" "elems (?o1 - 1) = z"
    using assms by (auto simp: open_bracket_def Let_def split: if_splits)
  ultimately show thesis by (intro that [of "?o1 - 1"]) (simp_all add: can_access_def)
qed

lemma parse_returns:
  "2 * (length b - off) + 1 \<le> n \<Longrightarrow> parse_value n d b off \<noteq> Diverge"
  "off < length b \<Longrightarrow> 2 * (length b - off) \<le> n \<Longrightarrow> parse_elems n d b off \<noteq> Diverge"
  "off < length b \<Longrightarrow> 2 * (length b - off) \<le> n \<Longrightarrow> parse_members n d b off \<noteq> Diverge"
proof (induction n arbitrary: d off)
  case 0
  { case 1 then show ?case by simp }
  { case 2 then show ?case by simp }
  { case 3 then show ?case by simp }
next
  case (Suc n)
  { case 1
    have e: "parse_elems n (d + 1) b o1 \<noteq> Diverge" "parse_members n (d + 1) b o1 \<noteq> Diverge"
      if "off \<le> o1" "o1 + 1 < length b" for o1
      using Suc.IH(2,3) [of o1 "d + 1"] that 1 by simp_all
    show ?case
    proof (cases "parse_scalar b off")
      case (Some r)
      then show ?thesis using parse_scalar_result(1) by (simp add: parse_value.simps)
    next
      case None
      then show ?thesis
        using e by (auto simp: parse_value.simps elim!: open_bracket_bad)
    qed }
  { case 2
    have v: "parse_value n d b (skip_ws b (off + 1)) \<noteq> Diverge"
      using 2 skip_ws_ge [of "off + 1" b] by (intro Suc.IH(1)) simp
    have "parse_elems n d b (skip_ws b o1) \<noteq> Diverge"
      if a: "parse_value n d b (skip_ws b (off + 1)) = Accept (y, o1)"
        and c: "at_char b (skip_ws b o1) (CHR '','')" for y o1
      using parse_bounds(1) [OF a] skip_ws_ge [of "off + 1" b] skip_ws_ge [of o1 b] at_char_less [OF c] 2
      by (intro Suc.IH(2)) simp_all
    then show ?case
      using v by (auto simp: parse_elems.simps bind_pres_Diverge Let_def split: if_splits) }
  { case 3
    have v: "parse_value n d b (skip_ws b (skip_ws b o1 + 1)) \<noteq> Diverge"
      if a: "parse_string b (skip_ws b (off + 1)) = Accept (k, o1)" for k o1
      using parse_string_result(3) [OF a] 3 skip_ws_ge [of "off + 1" b] skip_ws_ge [of o1 b]
        skip_ws_ge [of "skip_ws b o1 + 1" b] by (intro Suc.IH(1)) linarith
    have m: "parse_members n d b (skip_ws b o2) \<noteq> Diverge"
      if a: "parse_string b (skip_ws b (off + 1)) = Accept (k, o1)"
        and w: "parse_value n d b (skip_ws b (skip_ws b o1 + 1)) = Accept (y, o2)"
        and c: "at_char b (skip_ws b o2) (CHR '','')" for k o1 y o2
      using parse_string_result(3) [OF a] parse_bounds(1) [OF w] skip_ws_ge [of "off + 1" b]
        skip_ws_ge [of o1 b] skip_ws_ge [of "skip_ws b o1 + 1" b] skip_ws_ge [of o2 b]
        at_char_less [OF c] 3
      by (intro Suc.IH(3)) simp_all
    show ?case
      using v m parse_string_result(1)
      by (auto simp: parse_members.simps bind_pres_Diverge Let_def split: if_splits) }
qed

text \<open>A terminated buffer: its last byte is the NUL, which no token of the grammar matches.\<close>

lemma nul_last:
  assumes "at_char (s @ [NUL]) off c" and "c \<noteq> NUL"
  shows "off + 1 < length (s @ [NUL])"
  using assms by (auto simp: at_char_def nth_append less_Suc_eq)

lemma parse_in_bounds:
  fixes s defines "b \<equiv> s @ [NUL]"
  shows "parse_value n d b off \<noteq> Overread"
    and "parse_elems n d b off \<noteq> Overread"
    and "off + 1 < length b \<Longrightarrow> parse_members n d b off \<noteq> Overread"
proof (induction n arbitrary: d off)
  case 0
  { case 1 then show ?case by (simp add: parse_value.simps) }
  { case 2 then show ?case by (simp add: parse_elems.simps) }
  { case 3 then show ?case by (simp add: parse_members.simps) }
next
  case (Suc n)
  { case 1
    show ?case
    proof (cases "parse_scalar b off")
      case (Some r)
      then show ?thesis using parse_scalar_result(2) by (simp add: parse_value.simps)
    next
      case None
      then show ?thesis
        using Suc.IH by (auto simp: parse_value.simps elim!: open_bracket_bad)
    qed }
  { case 2
    show ?case
      using Suc.IH(1,2) by (auto simp: parse_elems.simps bind_pres_Overread Let_def split: if_splits) }
  { case 3
    have s: "parse_string b (skip_ws b (off + 1)) \<noteq> Overread"
      using 3 by (intro parse_string_result(2) skip_ws_le) simp
    have m: "parse_members n d b o1 \<noteq> Overread" if "at_char b o1 (CHR '','')" for o1
      using that nul_last [of s o1 "CHR '',''"] by (intro Suc.IH(3)) (simp add: b_def NUL_def)
    show ?case
      using s m Suc.IH(1) by (auto simp: parse_members.simps bind_pres_Overread Let_def split: if_splits) }
qed

section \<open>Nesting\<close>

fun nest :: "cjson \<Rightarrow> nat" where
  "nest (JArray xs) = Suc (Max (insert 0 (nest ` set xs)))"
| "nest (JObject ms) = Suc (Max (insert 0 ((\<lambda>m. nest (snd m)) ` set ms)))"
| "nest _ = 0"

lemma nest_array_le: "nest (JArray xs) \<le> Suc k \<longleftrightarrow> (\<forall>x\<in>set xs. nest x \<le> k)"
  by (simp add: Max_le_iff)

lemma nest_object_le: "nest (JObject ms) \<le> Suc k \<longleftrightarrow> (\<forall>m\<in>set ms. nest (snd m) \<le> k)"
  by (simp add: Max_le_iff)

lemma parse_scalar_nest: "parse_scalar b off = Some (Accept (x, o')) \<Longrightarrow> nest x = 0"
  by (auto simp: parse_scalar_def split: if_splits)

lemma parse_nest:
  "parse_value n d b off = Accept (x, o') \<Longrightarrow> d \<le> CJSON_NESTING_LIMIT \<Longrightarrow> d + nest x \<le> CJSON_NESTING_LIMIT"
  "parse_elems n d b off = Accept (xs, o') \<Longrightarrow> d \<le> CJSON_NESTING_LIMIT \<Longrightarrow>
     \<forall>x\<in>set xs. d + nest x \<le> CJSON_NESTING_LIMIT"
  "parse_members n d b off = Accept (ms, o') \<Longrightarrow> d \<le> CJSON_NESTING_LIMIT \<Longrightarrow>
     \<forall>m\<in>set ms. d + nest (snd m) \<le> CJSON_NESTING_LIMIT"
proof (induction n arbitrary: d off x xs ms o')
  case 0
  { case 1 then show ?case by (simp add: parse_value.simps) }
  { case 2 then show ?case by (simp add: parse_elems.simps) }
  { case 3 then show ?case by (simp add: parse_members.simps) }
next
  case (Suc n)
  { case 1
    show ?case
    proof (cases "parse_scalar b off")
      case (Some r)
      then show ?thesis using 1 parse_scalar_nest by (fastforce simp: parse_value.simps)
    next
      case None
      then consider (a) xs where "x = JArray xs"
            "open_bracket d b off (CHR '']'') (parse_elems n (d + 1) b) = Accept (xs, o')"
        | (m) ms where "x = JObject ms"
            "open_bracket d b off (CHR ''}'') (parse_members n (d + 1) b) = Accept (ms, o')"
        using 1 by (auto simp: parse_value.simps split: if_splits)
      then show ?thesis
      proof cases
        case a
        then have d: "Suc d \<le> CJSON_NESTING_LIMIT" by (auto simp: open_bracket_def split: if_splits)
        have "\<forall>y\<in>set xs. Suc d + nest y \<le> CJSON_NESTING_LIMIT"
          using a(2) by (cases rule: open_bracket_Accept) (use Suc.IH(2) d in force)+
        then have "nest (JArray xs) \<le> Suc (CJSON_NESTING_LIMIT - Suc d)"
          unfolding nest_array_le by auto
        with d show ?thesis by (simp add: a(1) del: nest.simps)
      next
        case m
        then have d: "Suc d \<le> CJSON_NESTING_LIMIT" by (auto simp: open_bracket_def split: if_splits)
        have "\<forall>y\<in>set ms. Suc d + nest (snd y) \<le> CJSON_NESTING_LIMIT"
          using m(2) by (cases rule: open_bracket_Accept) (use Suc.IH(3) d in force)+
        then have "nest (JObject ms) \<le> Suc (CJSON_NESTING_LIMIT - Suc d)"
          unfolding nest_object_le by auto
        with d show ?thesis by (simp add: m(1) del: nest.simps)
      qed
    qed }
  { case 2
    then show ?case
      using Suc.IH(1,2) by (fastforce simp: parse_elems.simps bind_pres_Accept Let_def split: if_splits) }
  { case 3
    then show ?case
      using Suc.IH(1,3) by (fastforce simp: parse_members.simps bind_pres_Accept Let_def split: if_splits) }
qed

section \<open>Properties\<close>

text \<open>
  C10. \<open>cJSON_Parse\<close> returns on every C string, with an item or with \<open>NULL\<close>, and reads no byte
  behind the terminator; the fuel of the model is enough for every text.
\<close>

theorem cJSON_Parse_returns:
  "cJSON_Parse s = Reject \<or> (\<exists>x. cJSON_Parse s = Accept x)"
proof -
  let ?b = "s @ [NUL]"
  have "parse_value (parse_fuel ?b) 0 ?b off \<noteq> Diverge" for off
    by (rule parse_returns(1)) (simp add: parse_fuel_def)
  moreover have "parse_value (parse_fuel ?b) 0 ?b off \<noteq> Overread" for off
    by (rule parse_in_bounds(1))
  ultimately have "cJSON_Parse s \<noteq> Diverge" "cJSON_Parse s \<noteq> Overread"
    by (auto simp: cJSON_Parse_def cJSON_ParseWithOpts_def cJSON_ParseWithLengthOpts_def
        bind_pres_Diverge bind_pres_Overread)
  then show ?thesis by (cases "cJSON_Parse s") auto
qed

text \<open>
  A parsed document is nested at most \<open>CJSON_NESTING_LIMIT\<close> deep, whatever the text, so the
  recursion over it (printing, deleting) is bounded.
\<close>

theorem cJSON_Parse_depth:
  assumes "cJSON_Parse s = Accept x"
  shows "nest x \<le> CJSON_NESTING_LIMIT"
  using assms parse_nest(1) [of _ 0]
  by (fastforce simp: cJSON_Parse_def cJSON_ParseWithOpts_def cJSON_ParseWithLengthOpts_def bind_pres_Accept)

theorem cJSON_Parse_depth_witness:
  "cJSON_Parse ''[[true]]'' = Accept (JArray [JArray [JTrue]]) \<and>
   nest (JArray [JArray [JTrue]]) \<le> CJSON_NESTING_LIMIT"
proof -
  have p: "cJSON_Parse ''[[true]]'' = Accept (JArray [JArray [JTrue]])"
    by code_simp
  show ?thesis using p cJSON_Parse_depth [OF p] by blast
qed

text \<open>
  When the caller requires a terminated text, an accepted text is consumed to its end: nothing
  but white space follows the value.
\<close>

theorem strict_parse_consumes_all:
  assumes "NUL \<notin> set s" and "cJSON_ParseWithOpts s True = Accept (x, e)"
  shows "e = length s"
  using assms nth_mem [of e s]
  by (fastforce simp: cJSON_ParseWithOpts_def cJSON_ParseWithLengthOpts_def bind_pres_Accept Let_def
      at_char_def nth_append less_Suc_eq split: if_splits)

theorem strict_parse_consumes_all_witness:
  "cJSON_ParseWithOpts '' [1 ]  '' True = Accept (JArray [JNumber (Fin 1)], 7) \<and>
   7 = length '' [1 ]  ''"
proof -
  have p: "cJSON_ParseWithOpts '' [1 ]  '' True = Accept (JArray [JNumber (Fin 1)], 7)"
    by code_simp
  have n: "NUL \<notin> set '' [1 ]  ''" by (simp add: NUL_def)
  show ?thesis using p strict_parse_consumes_all [OF n p] by blast
qed

end
