(* ===== verification/JsonPrint.thy ===== *)
theory JsonPrint
  imports JsonParse
begin

text \<open>
  The printer of \<open>components/json/cJSON/cJSON.c\<close>: the growing \<open>printbuffer\<close> with \<open>ensure\<close> and
  \<open>update_offset\<close>, \<open>print_value\<close>, \<open>print_array\<close>, \<open>print_object\<close> and the entry points. \<open>render\<close> is
  the text a document stands for; the printer is shown to write just that, inside its buffer, and
  the parser to read it back.
\<close>

section \<open>The print buffer\<close>

text \<open>
  \<open>pb_text\<close> are the bytes before \<open>offset\<close>, \<open>pb_tail\<close> the C string that stands at the offset and
  that \<open>update_offset\<close> has not counted yet; \<open>pb_fault\<close> tells which reallocations fail.
\<close>

record pbuf =
  pb_text :: string
  pb_tail :: string
  pb_length :: nat
  pb_depth :: nat
  pb_noalloc :: bool
  pb_format :: bool
  pb_fault :: "nat \<Rightarrow> bool"
  pb_reallocs :: nat

definition INT_MAX_nat :: nat where "INT_MAX_nat = nat INT_MAX"

definition ensure :: "nat \<Rightarrow> pbuf \<Rightarrow> pbuf option" where
  "ensure needed p =
     (if 0 < pb_length p \<and> pb_length p \<le> length (pb_text p) then None
      else if INT_MAX_nat < needed then None
      else (let need = needed + length (pb_text p) + 1
            in if need \<le> pb_length p then Some p
               else if pb_noalloc p then None
               else if INT_MAX_nat < need then None
               else (let newsize = (if INT_MAX_nat div 2 < need then INT_MAX_nat else need * 2)
                     in if pb_fault p (pb_reallocs p) then None
                        else Some (p\<lparr>pb_length := newsize, pb_reallocs := Suc (pb_reallocs p)\<rparr>))))"

definition update_offset :: "pbuf \<Rightarrow> pbuf" where
  "update_offset p = p\<lparr>pb_text := pb_text p @ pb_tail p, pb_tail := []\<rparr>"

text \<open>
  A printing function returns true, false, or has written a byte behind the allocated buffer. The
  third outcome ends the run where it happens, so that no later failure of \<open>ensure\<close> hides it.
\<close>

datatype print_result = Written pbuf | Refused | Overrun

primrec and_then :: "print_result \<Rightarrow> (pbuf \<Rightarrow> print_result) \<Rightarrow> print_result" where
  "and_then (Written p) f = f p"
| "and_then Refused f = Refused"
| "and_then Overrun f = Overrun"

primrec map_written :: "(pbuf \<Rightarrow> pbuf) \<Rightarrow> print_result \<Rightarrow> print_result" where
  "map_written f (Written p) = Written (f p)"
| "map_written f Refused = Refused"
| "map_written f Overrun = Overrun"

lemma and_then_Written: "and_then r f = Written q \<longleftrightarrow> (\<exists>p. r = Written p \<and> f p = Written q)"
  by (cases r) auto

lemma map_written_Written: "map_written f r = Written q \<longleftrightarrow> (\<exists>p. r = Written p \<and> f p = q)"
  by (cases r) auto

lemma and_then_Overrun: "and_then r f = Overrun \<longleftrightarrow> r = Overrun \<or> (\<exists>p. r = Written p \<and> f p = Overrun)"
  by (cases r) auto

lemma map_written_Overrun: "map_written f r = Overrun \<longleftrightarrow> r = Overrun"
  by (cases r) auto

text \<open>
  The two ways the printer writes \<open>s\<close> at the offset, after \<open>ensure\<close>: as a C string, leaving the
  offset, or advancing it, with a terminator behind \<open>s\<close> or not. Every byte is held against the
  length the buffer has then.
\<close>

definition put_string :: "nat \<Rightarrow> string \<Rightarrow> pbuf \<Rightarrow> print_result" where
  "put_string needed s p =
     (case ensure needed p of
        None \<Rightarrow> Refused
      | Some p \<Rightarrow> if pb_length p < length (pb_text p) + length s + 1 then Overrun
                  else Written (p\<lparr>pb_tail := s\<rparr>))"

definition put_advance :: "nat \<Rightarrow> string \<Rightarrow> bool \<Rightarrow> pbuf \<Rightarrow> print_result" where
  "put_advance needed s terminated p =
     (case ensure needed p of
        None \<Rightarrow> Refused
      | Some p \<Rightarrow> if pb_length p < length (pb_text p) + length s + of_bool terminated then Overrun
                  else Written (p\<lparr>pb_text := pb_text p @ s, pb_tail := []\<rparr>))"

section \<open>print\_value\<close>

definition print_number :: "dbl \<Rightarrow> pbuf \<Rightarrow> print_result" where
  "print_number d p =
     (let t = number_text d
      in if 25 < length t then Refused else put_advance (length t + 1) t True p)"

definition print_string_ptr :: "string \<Rightarrow> pbuf \<Rightarrow> print_result" where
  "print_string_ptr s p = put_string (output_length s + 3) (print_string s) p"

definition tabs :: "nat \<Rightarrow> string" where
  "tabs n = replicate n (CHR 0x09)"

fun print_value :: "cjson \<Rightarrow> pbuf \<Rightarrow> print_result"
  and print_elems :: "cjson list \<Rightarrow> pbuf \<Rightarrow> print_result"
  and print_members :: "(string \<times> cjson) list \<Rightarrow> pbuf \<Rightarrow> print_result" where
  "print_value JNull p = put_string 5 ''null'' p"
| "print_value JFalse p = put_string 6 ''false'' p"
| "print_value JTrue p = put_string 5 ''true'' p"
| "print_value (JNumber d) p = print_number d p"
| "print_value (JRaw s) p = put_string (length s + 1) s p"
| "print_value (JString s) p = print_string_ptr s p"
| "print_value (JArray xs) p =
     and_then (put_advance 1 ''['' False p) (\<lambda>p.
     and_then (print_elems xs (p\<lparr>pb_depth := pb_depth p + 1\<rparr>)) (\<lambda>p.
     map_written (\<lambda>p. p\<lparr>pb_depth := pb_depth p - 1\<rparr>) (put_string 2 '']'' p)))"
| "print_value (JObject ms) p =
     and_then (if pb_format p then put_advance 3 (''{'' @ [CHR 0x0A]) False p
                  else put_advance 2 ''{'' False p) (\<lambda>p.
     and_then (print_members ms (p\<lparr>pb_depth := pb_depth p + 1\<rparr>)) (\<lambda>p.
     map_written (\<lambda>p. p\<lparr>pb_depth := pb_depth p - 1\<rparr>)
       (if pb_format p then put_string (pb_depth p + 1) (tabs (pb_depth p - 1) @ ''}'') p
        else put_string 2 ''}'' p)))"
| "print_elems [] p = Written p"
| "print_elems (x # xs) p =
     and_then (map_written update_offset (print_value x p)) (\<lambda>p.
     and_then (if xs = [] then Written p
                  else if pb_format p then put_advance 3 '', '' True p
                  else put_advance 2 '','' True p) (\<lambda>p.
     print_elems xs p))"
| "print_members [] p = Written p"
| "print_members ((k, x) # ms) p =
     and_then (if pb_format p then put_advance (pb_depth p) (tabs (pb_depth p)) False p else Written p) (\<lambda>p.
     and_then (map_written update_offset (print_string_ptr k p)) (\<lambda>p.
     and_then (if pb_format p then put_advance 2 ('':'' @ [CHR 0x09]) False p
                  else put_advance 1 '':'' False p) (\<lambda>p.
     and_then (map_written update_offset (print_value x p)) (\<lambda>p.
     and_then (let s = (if ms = [] then [] else '','') @ (if pb_format p then [CHR 0x0A] else [])
                  in put_advance (length s + 1) s True p) (\<lambda>p.
     print_members ms p)))))"

text \<open>
  \<open>print\<close> with its first buffer of 256 bytes and the last reallocation to the length of the text;
  which allocations fail is a parameter. (The last case of \<open>print_item\<close> does not arise:
  \<open>print_value_renders\<close>.)
\<close>

definition initial_pbuf :: "bool \<Rightarrow> (nat \<Rightarrow> bool) \<Rightarrow> pbuf" where
  "initial_pbuf fmt fault =
     \<lparr>pb_text = [], pb_tail = [], pb_length = 256, pb_depth = 0, pb_noalloc = False,
      pb_format = fmt, pb_fault = fault, pb_reallocs = 1\<rparr>"

definition print_item :: "bool \<Rightarrow> (nat \<Rightarrow> bool) \<Rightarrow> cjson \<Rightarrow> string option" where
  "print_item fmt fault x =
     (if fault 0 then None
      else (case print_value x (initial_pbuf fmt fault) of
              Written p \<Rightarrow> if pb_fault p (pb_reallocs p) then None else Some (pb_text (update_offset p))
            | Refused \<Rightarrow> None
            | Overrun \<Rightarrow> None))"

definition cJSON_Print :: "(nat \<Rightarrow> bool) \<Rightarrow> cjson \<Rightarrow> string option" where
  "cJSON_Print fault x = print_item True fault x"

definition cJSON_PrintUnformatted :: "(nat \<Rightarrow> bool) \<Rightarrow> cjson \<Rightarrow> string option" where
  "cJSON_PrintUnformatted fault x = print_item False fault x"

section \<open>The text of a document\<close>

fun render :: "bool \<Rightarrow> nat \<Rightarrow> cjson \<Rightarrow> string"
  and render_elems :: "bool \<Rightarrow> nat \<Rightarrow> cjson list \<Rightarrow> string"
  and render_members :: "bool \<Rightarrow> nat \<Rightarrow> (string \<times> cjson) list \<Rightarrow> string" where
  "render f d JNull = ''null''"
| "render f d JFalse = ''false''"
| "render f d JTrue = ''true''"
| "render f d (JNumber x) = number_text x"
| "render f d (JRaw s) = s"
| "render f d (JString s) = print_string s"
| "render f d (JArray xs) = ''['' @ render_elems f (d + 1) xs @ '']''"
| "render f d (JObject ms) =
     ''{'' @ (if f then [CHR 0x0A] else []) @ render_members f (d + 1) ms @
     (if f then tabs d else []) @ ''}''"
| "render_elems f d [] = []"
| "render_elems f d (x # xs) =
     render f d x @ (if xs = [] then [] else if f then '', '' else '','') @ render_elems f d xs"
| "render_members f d [] = []"
| "render_members f d ((k, x) # ms) =
     (if f then tabs d else []) @ print_string k @ '':'' @ (if f then [CHR 0x09] else []) @
     render f d x @ (if ms = [] then [] else '','') @ (if f then [CHR 0x0A] else []) @
     render_members f d ms"

section \<open>The buffer is never overrun\<close>

text \<open>The text and the string at the offset, with its end, are inside the buffer.\<close>

definition pb_ok :: "pbuf \<Rightarrow> bool" where
  "pb_ok p \<longleftrightarrow> length (pb_text p) + length (pb_tail p) < pb_length p"

definition pb_frame :: "pbuf \<Rightarrow> pbuf \<Rightarrow> bool" where
  "pb_frame p p' \<longleftrightarrow> pb_depth p' = pb_depth p \<and> pb_format p' = pb_format p \<and> pb_noalloc p' = pb_noalloc p
     \<and> pb_fault p' = pb_fault p"

lemma pb_frame_refl [simp]: "pb_frame p p"
  by (simp add: pb_frame_def)

lemma pb_frame_trans [trans]: "pb_frame p q \<Longrightarrow> pb_frame q r \<Longrightarrow> pb_frame p r"
  by (simp add: pb_frame_def)

lemma pb_frame_fields:
  "pb_frame p q \<Longrightarrow> pb_depth q = pb_depth p" "pb_frame p q \<Longrightarrow> pb_format q = pb_format p"
  by (simp_all add: pb_frame_def)

lemma ensure_Some:
  assumes "ensure needed p = Some p'"
  shows "length (pb_text p) + needed < pb_length p'" "pb_length p \<le> pb_length p'"
    "pb_text p' = pb_text p" "pb_tail p' = pb_tail p" "pb_frame p p'"
  using assms by (auto simp: ensure_def Let_def pb_frame_def INT_MAX_nat_def INT_MAX_def split: if_splits)

lemma put_string_Written:
  assumes "put_string needed s p = Written p'" "length s + 1 \<le> needed" "pb_ok p"
  shows "pb_ok p'" "pb_text p' = pb_text p" "pb_tail p' = s" "pb_frame p p'"
proof -
  obtain q where q: "ensure needed p = Some q"
    and p': "p' = q\<lparr>pb_tail := s\<rparr>"
    using assms(1) by (auto simp: put_string_def split: option.splits if_splits)
  note e = ensure_Some [OF q]
  show "pb_ok p'" "pb_text p' = pb_text p" "pb_tail p' = s" "pb_frame p p'"
    using e assms(2,3) by (auto simp: p' pb_ok_def pb_frame_def)
qed

lemma put_advance_Written:
  assumes "put_advance needed s t p = Written p'" "length s + of_bool t \<le> needed" "pb_ok p"
  shows "pb_ok p'" "pb_text p' = pb_text p @ s" "pb_tail p' = []" "pb_frame p p'"
proof -
  obtain q where q: "ensure needed p = Some q"
    and p': "p' = q\<lparr>pb_text := pb_text q @ s, pb_tail := []\<rparr>"
    using assms(1) by (auto simp: put_advance_def split: option.splits if_splits)
  note e = ensure_Some [OF q]
  show "pb_ok p'" "pb_text p' = pb_text p @ s" "pb_tail p' = []" "pb_frame p p'"
    using e assms(2,3) by (auto simp: p' pb_ok_def pb_frame_def split: if_splits)
qed

text \<open>What \<open>ensure\<close> was asked for is enough for the write behind it, whatever state the buffer is in.\<close>

lemma put_string_fits: "length s + 1 \<le> needed \<Longrightarrow> put_string needed s p \<noteq> Overrun"
proof (cases "ensure needed p")
  case (Some q)
  assume "length s + 1 \<le> needed"
  then show ?thesis using ensure_Some(1,3) [OF Some] by (simp add: put_string_def Some)
qed (simp add: put_string_def)

lemma put_advance_fits: "length s + of_bool t \<le> needed \<Longrightarrow> put_advance needed s t p \<noteq> Overrun"
proof (cases "ensure needed p")
  case (Some q)
  assume "length s + of_bool t \<le> needed"
  then show ?thesis using ensure_Some(1,3) [OF Some] by (simp add: put_advance_def Some)
qed (simp add: put_advance_def)

lemma update_offset_simps [simp]:
  "pb_ok p \<Longrightarrow> pb_ok (update_offset p)" "pb_text (update_offset p) = pb_text p @ pb_tail p"
  "pb_tail (update_offset p) = []" "pb_frame q (update_offset p) = pb_frame q p"
  by (simp_all add: update_offset_def pb_ok_def pb_frame_def)

lemma length_escape_char: "length (escape_char c) = 1 + escape_characters c"
  by (auto simp: escape_char_def escape_characters_def QUOTE_def BACKSLASH_def)

lemma length_print_string: "length (print_string s) = output_length s + 2"
  by (induction s) (auto simp: print_string_def output_length_def length_escape_char)

text \<open>What a successful step leaves: \<open>s\<close> has been written behind the text.\<close>

definition wrote :: "pbuf \<Rightarrow> string \<Rightarrow> pbuf \<Rightarrow> bool" where
  "wrote p s p' \<longleftrightarrow> pb_ok p' \<and> pb_text p' @ pb_tail p' = pb_text p @ s \<and> pb_frame p p'"

text \<open>... and has been counted by the offset.\<close>

definition advanced :: "pbuf \<Rightarrow> string \<Rightarrow> pbuf \<Rightarrow> bool" where
  "advanced p s p' \<longleftrightarrow> pb_ok p' \<and> pb_text p' = pb_text p @ s \<and> pb_tail p' = [] \<and> pb_frame p p'"

lemma advanced_wrote: "advanced p s q \<Longrightarrow> wrote p s q"
  by (simp add: advanced_def wrote_def)

lemma advanced_ok: "advanced p s q \<Longrightarrow> pb_ok q"
  by (simp add: advanced_def)

lemma advanced_refl: "pb_ok p \<Longrightarrow> pb_tail p = [] \<Longrightarrow> advanced p [] p"
  by (simp add: advanced_def)

lemma advanced_trans: "advanced p s q \<Longrightarrow> advanced q t r \<Longrightarrow> advanced p (s @ t) r"
  by (auto simp: advanced_def intro: pb_frame_trans)

lemma advanced_wrote_trans: "advanced p s q \<Longrightarrow> wrote q t r \<Longrightarrow> wrote p (s @ t) r"
  by (auto simp: advanced_def wrote_def intro: pb_frame_trans)

lemma wrote_update: "wrote p s q \<Longrightarrow> advanced p s (update_offset q)"
  by (simp add: advanced_def wrote_def)

lemma put_string_wrote:
  "put_string needed s p = Written p' \<Longrightarrow> length s + 1 \<le> needed \<Longrightarrow> pb_ok p \<Longrightarrow> wrote p s p'"
  by (simp add: wrote_def put_string_Written)

lemma put_advance_advanced:
  "put_advance needed s t p = Written p' \<Longrightarrow> length s + of_bool t \<le> needed \<Longrightarrow> pb_ok p \<Longrightarrow> advanced p s p'"
  by (simp add: advanced_def put_advance_Written)

lemma print_number_wrote: "print_number d p = Written p' \<Longrightarrow> pb_ok p \<Longrightarrow> wrote p (number_text d) p'"
  by (auto simp: print_number_def Let_def split: if_splits
      intro!: advanced_wrote put_advance_advanced)

lemma print_string_wrote: "print_string_ptr s p = Written p' \<Longrightarrow> pb_ok p \<Longrightarrow> wrote p (print_string s) p'"
  by (auto simp: print_string_ptr_def length_print_string intro!: put_string_wrote)

lemma wrote_depth:
  "advanced p s q \<Longrightarrow> advanced (q\<lparr>pb_depth := pb_depth q + 1\<rparr>) t r \<Longrightarrow> wrote r u w \<Longrightarrow>
   wrote p (s @ t @ u) (w\<lparr>pb_depth := pb_depth w - 1\<rparr>)"
  by (auto simp: advanced_def wrote_def pb_frame_def pb_ok_def)

lemma pb_ok_depth [simp]: "pb_ok (q\<lparr>pb_depth := d\<rparr>) = pb_ok q"
  by (simp add: pb_ok_def)

lemma advanced_fields:
  "advanced p s q \<Longrightarrow> pb_depth q = pb_depth p" "advanced p s q \<Longrightarrow> pb_format q = pb_format p"
  "advanced p s q \<Longrightarrow> pb_tail q = []"
  by (simp_all add: advanced_def pb_frame_def)

text \<open>What a successful print of a value, of elements and of members has written.\<close>

definition value_wrote :: "cjson \<Rightarrow> bool" where
  "value_wrote x \<longleftrightarrow> (\<forall>p p'. print_value x p = Written p' \<longrightarrow> pb_ok p \<longrightarrow> wrote p (render (pb_format p) (pb_depth p) x) p')"

definition elems_wrote :: "cjson list \<Rightarrow> bool" where
  "elems_wrote xs \<longleftrightarrow> (\<forall>p p'. print_elems xs p = Written p' \<longrightarrow> pb_ok p \<longrightarrow> pb_tail p = [] \<longrightarrow>
     advanced p (render_elems (pb_format p) (pb_depth p) xs) p')"

definition members_wrote :: "(string \<times> cjson) list \<Rightarrow> bool" where
  "members_wrote ms \<longleftrightarrow> (\<forall>p p'. print_members ms p = Written p' \<longrightarrow> pb_ok p \<longrightarrow> pb_tail p = [] \<longrightarrow>
     advanced p (render_members (pb_format p) (pb_depth p) ms) p')"

lemmas value_wroteD = value_wrote_def [THEN iffD1, rule_format]
lemmas elems_wroteD = elems_wrote_def [THEN iffD1, rule_format]
lemmas members_wroteD = members_wrote_def [THEN iffD1, rule_format]

lemma array_wrote:
  assumes "elems_wrote xs"
  shows "value_wrote (JArray xs)"
proof (unfold value_wrote_def, intro allI impI)
  fix p p'
  assume a: "print_value (JArray xs) p = Written p'" "pb_ok p"
  obtain q r w where q: "put_advance 1 ''['' False p = Written q"
    and r: "print_elems xs (q\<lparr>pb_depth := pb_depth q + 1\<rparr>) = Written r"
    and w: "put_string 2 '']'' r = Written w" and p': "p' = w\<lparr>pb_depth := pb_depth w - 1\<rparr>"
    using a(1) unfolding print_value.simps and_then_Written map_written_Written by blast
  have aq: "advanced p ''['' q" by (rule put_advance_advanced [OF q]) (use a(2) in simp_all)
  have ar: "advanced (q\<lparr>pb_depth := pb_depth q + 1\<rparr>) (render_elems (pb_format p) (pb_depth p + 1) xs) r"
    using elems_wroteD [OF assms r] advanced_ok [OF aq] advanced_fields [OF aq] by simp
  have aw: "wrote r '']'' w"
    by (rule put_string_wrote [OF w]) (use ar in \<open>simp_all add: advanced_ok\<close>)
  show "wrote p (render (pb_format p) (pb_depth p) (JArray xs)) p'" using wrote_depth [OF aq ar aw] by (simp add: p')
qed

lemma object_wrote:
  assumes "members_wrote ms"
  shows "value_wrote (JObject ms)"
proof (unfold value_wrote_def, intro allI impI)
  fix p p'
  assume a: "print_value (JObject ms) p = Written p'" "pb_ok p"
  let ?nl = "if pb_format p then [CHR 0x0A] else []"
  obtain q r w where q: "(if pb_format p then put_advance 3 (''{'' @ [CHR 0x0A]) False p
        else put_advance 2 ''{'' False p) = Written q"
    and r: "print_members ms (q\<lparr>pb_depth := pb_depth q + 1\<rparr>) = Written r"
    and w: "(if pb_format r then put_string (pb_depth r + 1) (tabs (pb_depth r - 1) @ ''}'') r
        else put_string 2 ''}'' r) = Written w" and p': "p' = w\<lparr>pb_depth := pb_depth w - 1\<rparr>"
    using a(1) unfolding print_value.simps and_then_Written map_written_Written by blast
  have aq: "advanced p (''{'' @ ?nl) q"
    using q a(2) by (auto split: if_splits intro!: put_advance_advanced)
  have ar: "advanced (q\<lparr>pb_depth := pb_depth q + 1\<rparr>) (render_members (pb_format p) (pb_depth p + 1) ms) r"
    using members_wroteD [OF assms r] advanced_ok [OF aq] advanced_fields [OF aq] by simp
  have r': "pb_format r = pb_format p" "pb_depth r = pb_depth p + 1" "pb_ok r"
    using advanced_fields [OF ar] advanced_fields [OF aq] advanced_ok [OF ar] by simp_all
  have aw: "wrote r ((if pb_format p then tabs (pb_depth p) else []) @ ''}'') w"
    using w r' by (auto simp: tabs_def split: if_splits intro!: put_string_wrote)
  show "wrote p (render (pb_format p) (pb_depth p) (JObject ms)) p'" using wrote_depth [OF aq ar aw] by (simp add: p')
qed

lemma elements_wrote:
  assumes "value_wrote x" "elems_wrote xs"
  shows "elems_wrote (x # xs)"
proof (unfold elems_wrote_def, intro allI impI)
  fix p p'
  assume a: "print_elems (x # xs) p = Written p'" "pb_ok p" "pb_tail p = []"
  obtain q r where q: "print_value x p = Written q"
    and r: "(if xs = [] then Written (update_offset q)
       else if pb_format (update_offset q) then put_advance 3 '', '' True (update_offset q)
       else put_advance 2 '','' True (update_offset q)) = Written r"
    and p': "print_elems xs r = Written p'"
    using a(1) unfolding print_elems.simps and_then_Written map_written_Written by blast
  have aq: "advanced p (render (pb_format p) (pb_depth p) x) (update_offset q)"
    by (rule wrote_update, rule value_wroteD [OF assms(1) q a(2)])
  have ar: "advanced (update_offset q) (if xs = [] then [] else if pb_format p then '', '' else '','') r"
    using r advanced_ok [OF aq] advanced_fields [OF aq]
    by (auto split: if_splits intro!: put_advance_advanced advanced_refl)
  note aa = advanced_trans [OF aq ar]
  from elems_wroteD [OF assms(2) p' advanced_ok [OF aa] advanced_fields(3) [OF aa]] show "advanced p (render_elems (pb_format p) (pb_depth p) (x # xs)) p'"
    using advanced_trans [OF aa] advanced_fields [OF aa] by (simp del: append_assoc add: append_assoc [symmetric])
qed

lemma member_wrote:
  assumes "value_wrote x" "members_wrote ms"
  shows "members_wrote ((k, x) # ms)"
proof (unfold members_wrote_def, intro allI impI)
  fix p p'
  assume a: "print_members ((k, x) # ms) p = Written p'" "pb_ok p" "pb_tail p = []"
  let ?f = "pb_format p"
  obtain q1 q2 q3 q4 q5 where q1: "(if ?f then put_advance (pb_depth p) (tabs (pb_depth p)) False p else Written p) = Written q1"
    and q2: "print_string_ptr k q1 = Written q2"
    and q3: "(if pb_format (update_offset q2) then put_advance 2 ('':'' @ [CHR 0x09]) False (update_offset q2)
         else put_advance 1 '':'' False (update_offset q2)) = Written q3"
    and q4: "print_value x q3 = Written q4"
    and q5: "(let s = (if ms = [] then [] else '','') @ (if pb_format (update_offset q4) then [CHR 0x0A] else [])
         in put_advance (length s + 1) s True (update_offset q4)) = Written q5"
    and p': "print_members ms q5 = Written p'"
    using a(1) unfolding print_members.simps and_then_Written map_written_Written by blast
  have a1: "advanced p (if ?f then tabs (pb_depth p) else []) q1"
    using q1 a(2,3) by (auto simp: tabs_def split: if_splits intro!: put_advance_advanced advanced_refl)
  have a2: "advanced q1 (print_string k) (update_offset q2)"
    by (rule wrote_update, rule print_string_wrote [OF q2 advanced_ok [OF a1]])
  note a12 = advanced_trans [OF a1 a2]
  have a3: "advanced (update_offset q2) ('':'' @ (if ?f then [CHR 0x09] else [])) q3"
    using q3 advanced_ok [OF a2] advanced_fields [OF a12]
    by (auto split: if_splits intro!: put_advance_advanced)
  note a13 = advanced_trans [OF a12 a3]
  have a4: "advanced q3 (render ?f (pb_depth p) x) (update_offset q4)"
    using wrote_update [OF value_wroteD [OF assms(1) q4 advanced_ok [OF a13]]] advanced_fields [OF a13] by simp
  note a14 = advanced_trans [OF a13 a4]
  have a5: "advanced (update_offset q4) ((if ms = [] then [] else '','') @ (if ?f then [CHR 0x0A] else [])) q5"
    by (rule put_advance_advanced [OF q5 [unfolded Let_def, unfolded advanced_fields(2) [OF a14]]])
      (simp_all add: advanced_ok [OF a4])
  note a15 = advanced_trans [OF a14 a5]
  from members_wroteD [OF assms(2) p' advanced_ok [OF a15] advanced_fields(3) [OF a15]] show "advanced p (render_members (pb_format p) (pb_depth p) ((k, x) # ms)) p'"
    using advanced_trans [OF a15] advanced_fields [OF a15] by simp
qed

lemma printer_wrote:
  fixes f :: bool and d :: nat
  shows "value_wrote x" "elems_wrote xs" "members_wrote ms"
proof (induction f d x and f d xs and f d ms rule: render_render_elems_render_members.induct)
  case (7 f d xs)
  then show ?case by (rule array_wrote)
next
  case (8 f d ms)
  then show ?case by (rule object_wrote)
next
  case (10 f d x xs)
  then show ?case by (intro elements_wrote) (cases "xs = []"; simp add: elems_wrote_def advanced_refl)+
next
  case (12 f d k x ms)
  then show ?case by (intro member_wrote) (cases "ms = []"; simp add: members_wrote_def advanced_refl)+
qed (auto simp: value_wrote_def elems_wrote_def members_wrote_def
    intro: put_string_wrote print_number_wrote print_string_wrote advanced_refl)

lemmas print_wrote = value_wroteD [OF printer_wrote(1)] elems_wroteD [OF printer_wrote(2)] members_wroteD [OF printer_wrote(3)]

section \<open>No run of the printer ends in an overrun\<close>

lemma number_fits: "print_number d p \<noteq> Overrun"
  by (simp add: print_number_def Let_def put_advance_fits)

lemma string_fits: "print_string_ptr s p \<noteq> Overrun"
  by (simp add: print_string_ptr_def put_string_fits length_print_string)

text \<open>The write that closes an object is the one whose length depends on what was written before.\<close>

lemma object_depth:
  assumes "pb_ok p" "pb_tail p = []" "print_members ms (p\<lparr>pb_depth := pb_depth p + 1\<rparr>) = Written q"
  shows "pb_depth q = pb_depth p + 1"
  using advanced_fields(1) [OF print_wrote(3) [OF assms(3)]] assms(1,2) by simp

lemma put_ok:
  "put_advance n s t p = Written q \<Longrightarrow> length s + of_bool t \<le> n \<Longrightarrow> pb_ok p \<Longrightarrow> pb_ok q \<and> pb_tail q = []"
  by (simp add: put_advance_Written)

lemma value_ok: "print_value x p = Written q \<Longrightarrow> pb_ok p \<Longrightarrow> pb_ok (update_offset q)"
  by (rule wrote_update [THEN advanced_ok], rule print_wrote(1))

lemma name_ok: "print_string_ptr k p = Written q \<Longrightarrow> pb_ok p \<Longrightarrow> pb_ok (update_offset q)"
  by (rule wrote_update [THEN advanced_ok], rule print_string_wrote)

lemma put_if_ok:
  "(if f then put_advance 3 (''{'' @ [CHR 0x0A]) False p else put_advance 2 ''{'' False p) = Written q \<Longrightarrow>
   pb_ok p \<Longrightarrow> pb_ok q \<and> pb_tail q = []"
  "(if b then Written p else if f then put_advance 3 '', '' True p else put_advance 2 '','' True p) = Written q \<Longrightarrow>
   pb_ok p \<Longrightarrow> pb_tail p = [] \<Longrightarrow> pb_ok q \<and> pb_tail q = []"
  "(if f then put_advance n (tabs n) False p else Written p) = Written q \<Longrightarrow> pb_ok p \<Longrightarrow> pb_ok q"
  "(if f then put_advance 2 ('':'' @ [CHR 0x09]) False p else put_advance 1 '':'' False p) = Written q \<Longrightarrow>
   pb_ok p \<Longrightarrow> pb_ok q"
  by (auto simp: tabs_def split: if_splits dest!: put_ok)

lemma and_then_fits: "r \<noteq> Overrun \<Longrightarrow> (\<And>q. r = Written q \<Longrightarrow> f q \<noteq> Overrun) \<Longrightarrow> and_then r f \<noteq> Overrun"
  by (cases r) auto

lemma map_fits: "r \<noteq> Overrun \<Longrightarrow> map_written f r \<noteq> Overrun"
  by (cases r) auto

lemmas put_fits = put_string_fits put_advance_fits number_fits string_fits

lemma printer_fits:
  fixes f :: bool and d :: nat
  shows "pb_ok p \<Longrightarrow> print_value x p \<noteq> Overrun"
    and "pb_ok p \<Longrightarrow> pb_tail p = [] \<Longrightarrow> print_elems xs p \<noteq> Overrun"
    and "pb_ok p \<Longrightarrow> pb_tail p = [] \<Longrightarrow> print_members ms p \<noteq> Overrun"
proof (induction x p and xs p and ms p rule: print_value_print_elems_print_members.induct)
  case (7 xs p)
  have "print_elems xs (q\<lparr>pb_depth := pb_depth q + 1\<rparr>) \<noteq> Overrun" if "put_advance 1 ''['' False p = Written q" for q
    using put_ok [OF that] 7 by simp
  then show ?case by (simp add: and_then_Overrun map_written_Overrun put_fits)
next
  case (8 ms p)
  let ?o = "if pb_format p then put_advance 3 (''{'' @ [CHR 0x0A]) False p else put_advance 2 ''{'' False p"
  have m: "print_members ms (q\<lparr>pb_depth := pb_depth q + 1\<rparr>) \<noteq> Overrun" if "?o = Written q" for q
    using put_if_ok(1) [OF that] 8 by simp
  have c: "(if pb_format r then put_string (pb_depth r + 1) (tabs (pb_depth r - 1) @ ''}'') r
      else put_string 2 ''}'' r) \<noteq> Overrun"
    if "?o = Written q" and r: "print_members ms (q\<lparr>pb_depth := pb_depth q + 1\<rparr>) = Written r" for q r
    using object_depth [OF _ _ r] put_if_ok(1) [OF that(1)] 8(2) by (simp add: tabs_def put_fits)
  have "?o \<noteq> Overrun" by (simp add: put_fits)
  then show ?case using m c unfolding print_value.simps and_then_Overrun map_written_Overrun by blast
next
  case (10 x xs p)
  have "print_elems xs r \<noteq> Overrun"
    if "print_value x p = Written q" and "(if xs = [] then Written (update_offset q)
       else if pb_format (update_offset q) then put_advance 3 '', '' True (update_offset q)
       else put_advance 2 '','' True (update_offset q)) = Written r" for q r
    using put_if_ok(2) [OF that(2)] value_ok [OF that(1)] 10 by simp
  then show ?case using 10
    unfolding print_elems.simps and_then_Overrun map_written_Overrun map_written_Written
    by (auto simp: put_fits split: if_splits)
next
  case (12 k x ms p)
  let ?f = "pb_format p"
  have a: "(if ?f then put_advance (pb_depth p) (tabs (pb_depth p)) False p else Written p) \<noteq> Overrun"
    by (simp add: put_fits tabs_def)
  have b: "(if g then put_advance 2 ('':'' @ [CHR 0x09]) False q else put_advance 1 '':'' False q) \<noteq> Overrun" for g q
    by (simp add: put_fits)
  show ?case unfolding print_members.simps
  proof (intro and_then_fits map_fits)
    fix p1 assume p1: "(if ?f then put_advance (pb_depth p) (tabs (pb_depth p)) False p else Written p) = Written p1"
    note ok1 = put_if_ok(3) [OF p1 12(3)]
    fix p2 assume "map_written update_offset (print_string_ptr k p1) = Written p2"
    then have ok2: "pb_ok p2" using name_ok ok1 by (auto simp: map_written_Written)
    fix p3 assume "(if pb_format p2 then put_advance 2 ('':'' @ [CHR 0x09]) False p2
        else put_advance 1 '':'' False p2) = Written p3"
    note ok3 = put_if_ok(4) [OF this ok2]
    show "print_value x p3 \<noteq> Overrun" using 12(1) ok3 by simp
    fix p4 assume "map_written update_offset (print_value x p3) = Written p4"
    then have ok4: "pb_ok p4" using value_ok ok3 by (auto simp: map_written_Written)
    fix p5 assume "(let s = (if ms = [] then [] else '','') @ (if pb_format p4 then [CHR 0x0A] else [])
         in put_advance (length s + 1) s True p4) = Written p5"
    then have "pb_ok p5 \<and> pb_tail p5 = []" using put_ok [OF _ _ ok4] by (simp add: Let_def)
    then show "print_members ms p5 \<noteq> Overrun" using 12(2) by simp
  qed (use a b in \<open>simp_all add: put_fits Let_def\<close>)
qed (auto simp: put_fits)

section \<open>The printer succeeds when memory does not run out\<close>

definition pb_quiet :: "pbuf \<Rightarrow> bool" where
  "pb_quiet p \<longleftrightarrow> pb_ok p \<and> \<not> pb_noalloc p \<and> pb_fault p = (\<lambda>_. False)"

fun numbers_fit :: "cjson \<Rightarrow> bool" where
  "numbers_fit (JNumber d) = (length (number_text d) \<le> 25)"
| "numbers_fit (JArray xs) = (\<forall>x\<in>set xs. numbers_fit x)"
| "numbers_fit (JObject ms) = (\<forall>m\<in>set ms. numbers_fit (snd m))"
| "numbers_fit _ = True"

lemma ensure_quiet:
  "pb_quiet p \<Longrightarrow> length (pb_text p) + needed + 1 \<le> INT_MAX_nat \<Longrightarrow> \<exists>q. ensure needed p = Some q"
  by (auto simp: ensure_def pb_quiet_def pb_ok_def Let_def)

lemma put_string_refused: "ensure needed p = Some q \<Longrightarrow> put_string needed s p \<noteq> Refused"
  by (simp add: put_string_def)

lemma put_advance_refused: "ensure needed p = Some q \<Longrightarrow> put_advance needed s t p \<noteq> Refused"
  by (simp add: put_advance_def)

lemma put_string_quiet:
  "pb_quiet p \<Longrightarrow> length (pb_text p) + needed + 1 \<le> INT_MAX_nat \<Longrightarrow> length s + 1 \<le> needed \<Longrightarrow>
   \<exists>q. put_string needed s p = Written q"
  using ensure_quiet [of p needed] put_string_refused put_string_fits [of s needed p] by (cases "put_string needed s p") auto

lemma put_advance_quiet:
  "pb_quiet p \<Longrightarrow> length (pb_text p) + needed + 1 \<le> INT_MAX_nat \<Longrightarrow> length s + of_bool t \<le> needed \<Longrightarrow>
   \<exists>q. put_advance needed s t p = Written q"
  using ensure_quiet [of p needed] put_advance_refused put_advance_fits [of s t needed p] by (cases "put_advance needed s t p") auto

lemma quiet_advanced: "pb_quiet p \<Longrightarrow> advanced p s q \<Longrightarrow> pb_quiet q \<and> length (pb_text q) = length (pb_text p) + length s"
  by (simp add: pb_quiet_def advanced_def pb_frame_def)

lemma pb_quiet_ok: "pb_quiet p \<Longrightarrow> pb_ok p"
  by (simp add: pb_quiet_def)

lemma pb_quiet_depth [simp]: "pb_quiet (p\<lparr>pb_depth := d\<rparr>) = pb_quiet p"
  by (simp add: pb_quiet_def)

text \<open>What the printer is to do with a value, with elements and with members.\<close>

definition value_prints :: "cjson \<Rightarrow> bool" where
  "value_prints x \<longleftrightarrow> (\<forall>p. pb_quiet p \<longrightarrow> numbers_fit x \<longrightarrow>
     length (pb_text p) + length (render (pb_format p) (pb_depth p) x) + 2 \<le> INT_MAX_nat \<longrightarrow>
     (\<exists>q. print_value x p = Written q))"

definition elems_print :: "cjson list \<Rightarrow> bool" where
  "elems_print xs \<longleftrightarrow> (\<forall>p. pb_quiet p \<longrightarrow> (\<forall>x\<in>set xs. numbers_fit x) \<longrightarrow> pb_tail p = [] \<longrightarrow>
     length (pb_text p) + length (render_elems (pb_format p) (pb_depth p) xs) + 2 \<le> INT_MAX_nat \<longrightarrow>
     (\<exists>q. print_elems xs p = Written q))"

definition members_print :: "(string \<times> cjson) list \<Rightarrow> bool" where
  "members_print ms \<longleftrightarrow> (\<forall>p. pb_quiet p \<longrightarrow> (\<forall>m\<in>set ms. numbers_fit (snd m)) \<longrightarrow> pb_tail p = [] \<longrightarrow>
     length (pb_text p) + length (render_members (pb_format p) (pb_depth p) ms) + 2 \<le> INT_MAX_nat \<longrightarrow>
     (\<exists>q. print_members ms p = Written q))"

lemmas value_printsD = value_prints_def [THEN iffD1, rule_format]
lemmas elems_printsD = elems_print_def [THEN iffD1, rule_format]
lemmas members_printD = members_print_def [THEN iffD1, rule_format]

lemma array_prints:
  assumes "elems_print xs"
  shows "value_prints (JArray xs)"
proof (unfold value_prints_def, intro allI impI)
  fix p
  assume a: "pb_quiet p" "numbers_fit (JArray xs)" "length (pb_text p) + length (render (pb_format p) (pb_depth p) (JArray xs)) + 2 \<le> INT_MAX_nat"
  obtain q where q: "put_advance 1 ''['' False p = Written q"
    using put_advance_quiet [OF a(1), of 1 "''[''" False] a(3) by auto
  have aq: "advanced p ''['' q" by (rule put_advance_advanced [OF q]) (simp_all add: pb_quiet_ok a(1))
  note qq = quiet_advanced [OF a(1) aq] advanced_fields [OF aq]
  let ?q = "q\<lparr>pb_depth := pb_depth q + 1\<rparr>"
  obtain r where r: "print_elems xs ?q = Written r"
    using elems_printsD [OF assms, of ?q] qq a(2,3) by auto
  have ar: "advanced ?q (render_elems (pb_format p) (pb_depth p + 1) xs) r"
    using print_wrote(2) [OF r] qq by (simp add: pb_quiet_ok)
  have "pb_quiet ?q" using qq by simp
  note rr = quiet_advanced [OF this ar]
  obtain w where w: "put_string 2 '']'' r = Written w"
    using put_string_quiet [of r 2 "'']''"] rr qq a(3) by auto
  show "\<exists>q. print_value (JArray xs) p = Written q" using q r w by simp
qed

lemma object_prints:
  assumes "members_print ms"
  shows "value_prints (JObject ms)"
proof (unfold value_prints_def, intro allI impI)
  fix p
  assume a: "pb_quiet p" "numbers_fit (JObject ms)" "length (pb_text p) + length (render (pb_format p) (pb_depth p) (JObject ms)) + 2 \<le> INT_MAX_nat"
  let ?f = "pb_format p"
  obtain q where q: "(if ?f then put_advance 3 (''{'' @ [CHR 0x0A]) False p else put_advance 2 ''{'' False p) = Written q"
    using put_advance_quiet [OF a(1), of 3 "''{'' @ [CHR 0x0A]" False] put_advance_quiet [OF a(1), of 2 "''{''" False] a(3) by (cases ?f) auto
  have aq: "advanced p (''{'' @ (if ?f then [CHR 0x0A] else [])) q"
    using q a(1) by (auto simp: pb_quiet_ok split: if_splits intro!: put_advance_advanced)
  note qq = quiet_advanced [OF a(1) aq] advanced_fields [OF aq]
  let ?q = "q\<lparr>pb_depth := pb_depth q + 1\<rparr>"
  obtain r where r: "print_members ms ?q = Written r"
    using members_printD [OF assms, of ?q] qq a(2,3) by auto
  have ar: "advanced ?q (render_members ?f (pb_depth p + 1) ms) r"
    using print_wrote(3) [OF r] qq by (simp add: pb_quiet_ok)
  have "pb_quiet ?q" using qq by simp
  note rr = quiet_advanced [OF this ar] advanced_fields [OF ar]
  obtain w where w: "(if pb_format r then put_string (pb_depth r + 1) (tabs (pb_depth r - 1) @ ''}'') r
        else put_string 2 ''}'' r) = Written w"
    using put_string_quiet [of r "pb_depth r + 1" "tabs (pb_depth r - 1) @ ''}''"] put_string_quiet [of r 2 "''}''"] rr qq a(3)
    by (cases ?f) (auto simp: tabs_def)
  show "\<exists>q. print_value (JObject ms) p = Written q" using q r w by simp
qed

lemma elements_print:
  assumes "value_prints x" "elems_print xs"
  shows "elems_print (x # xs)"
proof (unfold elems_print_def, intro allI impI)
  fix p
  assume a: "pb_quiet p" "\<forall>x\<in>set (x # xs). numbers_fit x" "pb_tail p = []" "length (pb_text p) + length (render_elems (pb_format p) (pb_depth p) (x # xs)) + 2 \<le> INT_MAX_nat"
  obtain q where q: "print_value x p = Written q" using value_printsD [OF assms(1), of p] a(1,2,4) by auto
  have aq: "advanced p (render (pb_format p) (pb_depth p) x) (update_offset q)"
    by (rule wrote_update, rule print_wrote(1) [OF q]) (rule pb_quiet_ok [OF a(1)])
  note qq = quiet_advanced [OF a(1) aq] advanced_fields [OF aq]
  obtain r where r: "(if xs = [] then Written (update_offset q)
       else if pb_format (update_offset q) then put_advance 3 '', '' True (update_offset q)
       else put_advance 2 '','' True (update_offset q)) = Written r"
    using put_advance_quiet [of "update_offset q" 3 "'', ''" True] put_advance_quiet [of "update_offset q" 2 "'',''" True] qq a(4)
    by (cases "xs = []"; cases "pb_format p") auto
  have ar: "advanced (update_offset q) (if xs = [] then [] else if pb_format p then '', '' else '','') r"
    using r qq by (auto split: if_splits simp: pb_quiet_ok intro!: put_advance_advanced advanced_refl)
  have "pb_quiet (update_offset q)" using qq by simp
  note rr = quiet_advanced [OF this ar] advanced_fields [OF ar]
  have "\<exists>w. print_elems xs r = Written w"
    using elems_printsD [OF assms(2), of r] rr qq a(2,4) by auto
  then show "\<exists>q. print_elems (x # xs) p = Written q" using q r by auto
qed

lemma member_prints:
  assumes "value_prints x" "members_print ms"
  shows "members_print ((k, x) # ms)"
proof (unfold members_print_def, intro allI impI)
  fix p
  assume a: "pb_quiet p" "\<forall>m\<in>set ((k, x) # ms). numbers_fit (snd m)" "pb_tail p = []"
    "length (pb_text p) + length (render_members (pb_format p) (pb_depth p) ((k, x) # ms)) + 2 \<le> INT_MAX_nat"
  let ?f = "pb_format p"
  obtain q1 where q1: "(if ?f then put_advance (pb_depth p) (tabs (pb_depth p)) False p else Written p) = Written q1"
    using put_advance_quiet [OF a(1), of "pb_depth p" "tabs (pb_depth p)" False] a(4) by (cases ?f) (auto simp: tabs_def)
  have a1: "advanced p (if ?f then tabs (pb_depth p) else []) q1"
    using q1 a(1,3) by (auto simp: tabs_def pb_quiet_ok split: if_splits intro!: put_advance_advanced advanced_refl)
  note s1 = quiet_advanced [OF a(1) a1] advanced_fields [OF a1]
  obtain q2 where q2: "print_string_ptr k q1 = Written q2"
    using put_string_quiet [of q1 "output_length k + 3" "print_string k"] s1 a(4)
    by (auto simp: print_string_ptr_def length_print_string)
  have a2: "advanced q1 (print_string k) (update_offset q2)"
    by (rule wrote_update, rule print_string_wrote [OF q2]) (rule advanced_ok [OF a1])
  note a12 = advanced_trans [OF a1 a2]
  note s2 = quiet_advanced [OF a(1) a12] advanced_fields [OF a12]
  obtain q3 where q3: "(if pb_format (update_offset q2) then put_advance 2 ('':'' @ [CHR 0x09]) False (update_offset q2)
         else put_advance 1 '':'' False (update_offset q2)) = Written q3"
    using put_advance_quiet [of "update_offset q2" 2 "'':'' @ [CHR 0x09]" False] put_advance_quiet [of "update_offset q2" 1 "'':''" False] s2 a(4)
    by (cases ?f) auto
  have a3: "advanced (update_offset q2) ('':'' @ (if ?f then [CHR 0x09] else [])) q3"
    using q3 s2 by (auto simp: pb_quiet_ok split: if_splits intro!: put_advance_advanced)
  note a13 = advanced_trans [OF a12 a3]
  note s3 = quiet_advanced [OF a(1) a13] advanced_fields [OF a13]
  have e2: "map_written update_offset (print_string_ptr k q1) = Written (update_offset q2)" by (simp add: q2)
  obtain q4 where q4: "print_value x q3 = Written q4"
    using value_printsD [OF assms(1), of q3] s3 a(2,4) by auto
  have e4: "map_written update_offset (print_value x q3) = Written (update_offset q4)" by (simp add: q4)
  have a4: "advanced q3 (render ?f (pb_depth p) x) (update_offset q4)"
    using wrote_update [OF print_wrote(1) [OF q4 advanced_ok [OF a13]]] s3 by simp
  note a14 = advanced_trans [OF a13 a4]
  note s4 = quiet_advanced [OF a(1) a14] advanced_fields [OF a14]
  define s where "s = (if ms = [] then [] else '','') @ (if ?f then [CHR 0x0A] else [])"
  obtain q5 where q5': "put_advance (length s + 1) s True (update_offset q4) = Written q5"
    using put_advance_quiet [of "update_offset q4" "length s + 1" s True] s4 a(4) by (auto simp: s_def)
  have q5: "(let s = (if ms = [] then [] else '','') @ (if pb_format (update_offset q4) then [CHR 0x0A] else [])
         in put_advance (length s + 1) s True (update_offset q4)) = Written q5"
    using q5' s4 by (simp add: s_def)
  have a5: "advanced (update_offset q4) s q5"
    by (rule put_advance_advanced [OF q5']) (simp_all add: advanced_ok [OF a4])
  note a15 = advanced_trans [OF a14 a5]
  note s5 = quiet_advanced [OF a(1) a15] advanced_fields [OF a15]
  have "\<exists>w. print_members ms q5 = Written w"
    using members_printD [OF assms(2), of q5] s5 a(2,4) by (auto simp: s_def)
  then show "\<exists>q. print_members ((k, x) # ms) p = Written q" using q1 e2 q3 e4 q5 by auto
qed

lemma printer_succeeds:
  fixes f :: bool and d :: nat
  shows "value_prints x" "elems_print xs" "members_print ms"
proof (induction f d x and f d xs and f d ms rule: render_render_elems_render_members.induct)
  case (4 f d x)
  show ?case by (auto simp: value_prints_def print_number_def Let_def intro!: put_advance_quiet)
next
  case (6 f d s)
  show ?case by (auto simp: value_prints_def print_string_ptr_def length_print_string intro!: put_string_quiet)
next
  case (7 f d xs)
  then show ?case by (rule array_prints)
next
  case (8 f d ms)
  then show ?case by (rule object_prints)
next
  case (10 f d x xs)
  then show ?case by (intro elements_print) (cases "xs = []"; simp add: elems_print_def)+
next
  case (12 f d k x ms)
  then show ?case by (intro member_prints) (cases "ms = []"; simp add: members_print_def)+
qed (auto simp: value_prints_def elems_print_def members_print_def intro: put_string_quiet)

lemmas print_quiet = value_printsD [OF printer_succeeds(1)]

section \<open>Parsing the text of a document\<close>

text \<open>Documents that the text determines: numbers that are \<open>int\<close>s, C strings, no raw text.\<close>

fun plain :: "cjson \<Rightarrow> bool" where
  "plain (JNumber d) = (d = Fin (of_int (value_int d)))"
| "plain (JString s) = (NUL \<notin> set s)"
| "plain (JRaw s) = False"
| "plain (JArray xs) = (\<forall>x\<in>set xs. plain x)"
| "plain (JObject ms) = (\<forall>m\<in>set ms. NUL \<notin> set (fst m) \<and> plain (snd m))"
| "plain _ = True"

lemma value_int_int32: "int32 (value_int d)"
proof (cases d)
  case (Fin x)
  have "INT_MIN \<le> - \<lfloor>- x\<rfloor>" if "of_int INT_MIN < x" "x < 0"
    using that by (simp add: INT_MIN_def floor_minus)
  moreover have "- \<lfloor>- x\<rfloor> \<le> INT_MAX" if "x < 0"
    using that by (simp add: INT_MAX_def) linarith
  moreover have "\<lfloor>x\<rfloor> \<le> INT_MAX" if "x < of_int INT_MAX"
    using that by linarith
  moreover have "INT_MIN \<le> \<lfloor>x\<rfloor>" if "\<not> x < 0"
    using that by (simp add: INT_MIN_def)
  ultimately show ?thesis by (auto simp: Fin int32_def not_le INT_MAX_def INT_MIN_def)
qed (auto simp: int32_def INT_MAX_def INT_MIN_def)

lemma plain_number: "plain (JNumber d) \<Longrightarrow> \<exists>i. int32 i \<and> d = Fin (of_int i)"
  using value_int_int32 by auto

lemma at_char_pos: "at_char (pre @ c # post) (length pre) c' \<longleftrightarrow> c = c'"
  by (simp add: at_char_def)

lemma skip_ws_pos:
  assumes "\<forall>w\<in>set ws. is_ws w" and "\<not> is_ws c"
  shows "skip_ws (pre @ ws @ c # post) (length pre) = length pre + length ws"
  using assms by (simp add: skip_ws_def can_access_def takeWhile_append2)

lemma reads_literal_pos:
  "reads_literal (pre @ s) (length pre) w \<longleftrightarrow> take (length w) s = w"
  by (auto simp: reads_literal_def) (metis length_take min.cobounded1 nat_le_linear take_all)

lemma dec_int_head: "\<exists>c t. dec_int i = c # t \<and> (c = CHR ''-'' \<or> is_digit c)"
proof (cases "i < 0")
  case False
  then show ?thesis
    using dec_nat_digits [of _ "nat i"] by (cases "dec_nat (nat i)") (auto simp: dec_int_def)
qed (simp add: dec_int_def)

lemma render_head:
  assumes "plain x"
  obtains c t where "render f e x = c # t" "\<not> is_ws c" "c \<noteq> CHR '']''"
proof -
  have dig: "\<not> is_ws c \<and> c \<noteq> CHR '']''" if "c = CHR ''-'' \<or> is_digit c" for c
    using that by (auto simp: is_ws_def is_digit_def)
  show ?thesis
  proof (cases x)
    case (JNumber d)
    then obtain i where i: "int32 i" "d = Fin (of_int i)" using plain_number assms by blast
    then show ?thesis using that dec_int_head [of i] dig by (auto simp: JNumber number_text_int)
  qed (use assms that in \<open>auto simp: is_ws_def print_string_def QUOTE_def\<close>)
qed

lemma parse_scalar_string:
  assumes "CHR 0x00 \<notin> set s"
  shows "parse_scalar (pre @ print_string s @ post) (length pre) =
     Some (Accept (JString s, length pre + length (print_string s)))"
proof -
  have "parse_string (pre @ print_string s @ post) (length pre) = Accept (s, length pre + length (print_string s))"
    using assms by (simp add: parse_string_def parse_printed_string cstr_no_nul)
  then show ?thesis
    by (simp add: parse_scalar_def reads_literal_pos at_char_def) (simp add: print_string_def QUOTE_def)
qed

lemma parse_scalar_number:
  assumes "int32 i" and "number_ends post"
  shows "parse_scalar (pre @ number_text (Fin (of_int i)) @ post) (length pre) =
     Some (Accept (JNumber (Fin (of_int i)), length pre + length (number_text (Fin (of_int i)))))"
proof -
  obtain c t where c: "dec_int i = c # t" "c = CHR ''-'' \<or> is_digit c" using dec_int_head by blast
  then have n: "c \<noteq> CHR ''n''" "c \<noteq> CHR ''f''" "c \<noteq> CHR ''t''" "c \<noteq> QUOTE"
    by (auto simp: is_digit_def QUOTE_def)
  let ?b = "pre @ c # t @ post"
  have "parse_number ?b (length pre) = Accept (Fin (of_int i), length pre + length (dec_int i))"
    using parse_printed_number [OF assms, of pre] by (simp add: number_text_int [OF assms(1)] c(1))
  moreover have "\<not> reads_literal ?b (length pre) ''null''" "\<not> reads_literal ?b (length pre) ''false''"
    "\<not> reads_literal ?b (length pre) ''true''" "\<not> at_char ?b (length pre) QUOTE"
    unfolding reads_literal_pos using n by (simp_all add: at_char_def)
  moreover have "can_access ?b (length pre)" "?b ! length pre = c"
    by (simp_all add: can_access_def)
  moreover have "pre @ number_text (Fin (of_int i)) @ post = ?b"
    by (simp add: number_text_int [OF assms(1)] c(1))
  ultimately show ?thesis
    using c(2) by (simp only: parse_scalar_def number_text_int [OF assms(1)] if_False if_True simp_thms map_pres_simps prod.case)
qed

lemma parse_value_scalar: "parse_scalar b off = Some r \<Longrightarrow> 0 < n \<Longrightarrow> parse_value n d b off = r"
  by (cases n) (simp_all add: parse_value.simps)

lemma parse_scalar_none:
  "c = CHR ''['' \<or> c = CHR ''{'' \<Longrightarrow> parse_scalar (pre @ c # s) (length pre) = None"
proof -
  assume c: "c = CHR ''['' \<or> c = CHR ''{''"
  let ?b = "pre @ c # s"
  have "\<not> reads_literal ?b (length pre) ''null''" "\<not> reads_literal ?b (length pre) ''false''"
    "\<not> reads_literal ?b (length pre) ''true''"
    unfolding reads_literal_pos using c by auto
  moreover have "\<not> at_char ?b (length pre) QUOTE" "?b ! length pre = c"
    using c by (auto simp: at_char_def QUOTE_def)
  moreover have "c \<noteq> CHR ''-''" "\<not> is_digit c" using c by (auto simp: is_digit_def)
  ultimately show ?thesis by (simp only: parse_scalar_def if_False simp_thms)
qed

lemma number_ends_intro:
  "c \<in> {CHR '','', CHR '']'', CHR ''}'', CHR 0x0A, NUL} \<Longrightarrow> number_ends (c # s)"
  by (auto simp: number_ends_def number_char_def is_digit_def NUL_def)

lemma open_bracket_pos:
  assumes "d < CJSON_NESTING_LIMIT" "\<forall>w\<in>set ws. is_ws w" "\<not> is_ws h" "h \<noteq> close"
  shows "open_bracket d (pre @ br # ws @ h # s) (length pre) close elems = elems (length pre + length ws)"
    and "\<not> is_ws close \<Longrightarrow> open_bracket d (pre @ br # ws @ close # s) (length pre) close elems =
      Accept ([], length pre + length ws + 2)"
proof -
  have s: "skip_ws (pre @ br # ws @ x # s) (length pre + 1) = length pre + 1 + length ws" if "\<not> is_ws x" for x
    using skip_ws_pos [OF assms(2) that, of "pre @ [br]" s] by simp
  have a: "at_char (pre @ br # ws @ x # s) (length pre + 1 + length ws) c \<longleftrightarrow> x = c" for x c
    using at_char_pos [of "pre @ br # ws" x s c] by simp
  show "open_bracket d (pre @ br # ws @ h # s) (length pre) close elems = elems (length pre + length ws)"
    using assms(1,4) s [OF assms(3)] a [of h] by (simp add: open_bracket_def Let_def can_access_def)
  show "open_bracket d (pre @ br # ws @ close # s) (length pre) close elems =
      Accept ([], length pre + length ws + 2)" if "\<not> is_ws close"
    using assms(1) s [OF that] a [of close] by (simp add: open_bracket_def Let_def)
qed

lemma not_ws [simp]:
  "\<not> is_ws (CHR '','')" "\<not> is_ws (CHR '']'')" "\<not> is_ws (CHR ''}'')" "\<not> is_ws (CHR '':'')" "\<not> is_ws QUOTE"
  "is_ws (CHR 0x0A)" "is_ws (CHR 0x09)" "is_ws (CHR '' '')"
  by (simp_all add: is_ws_def QUOTE_def)

lemma tabs_ws: "w \<in> set (tabs n) \<Longrightarrow> is_ws w"
  by (simp add: tabs_def)

text \<open>The steps of the two loops, the surroundings of the element being given.\<close>

lemma parse_elems_step:
  assumes v: "parse_value n d b (length pre + length ws) = Accept (x, length p1)"
    and b: "b = pre @ ws @ h # s" "b = p1 @ c # post" and o0: "Suc o0 = length pre"
    and w: "\<forall>w\<in>set ws. is_ws w" "\<not> is_ws h" "\<not> is_ws c"
  shows "c = CHR '']'' \<Longrightarrow> parse_elems (Suc n) d b o0 = Accept ([x], length p1 + 1)"
    and "c = CHR '','' \<Longrightarrow> parse_elems n d b (length p1) = Accept (xs, o') \<Longrightarrow>
      parse_elems (Suc n) d b o0 = Accept (x # xs, o')"
proof -
  have s1: "skip_ws b (o0 + 1) = length pre + length ws"
    using skip_ws_pos [OF w(1,2), of pre s] o0 b(1) by simp
  have s2: "skip_ws b (length p1) = length p1"
    using skip_ws_pos [of "[]" c p1 post] w(3) b(2) by simp
  have a: "at_char b (length p1) c' \<longleftrightarrow> c = c'" for c' using at_char_pos b(2) by simp
  show "c = CHR '']'' \<Longrightarrow> parse_elems (Suc n) d b o0 = Accept ([x], length p1 + 1)"
    "c = CHR '','' \<Longrightarrow> parse_elems n d b (length p1) = Accept (xs, o') \<Longrightarrow>
      parse_elems (Suc n) d b o0 = Accept (x # xs, o')"
    using s1 s2 a v by (simp_all add: parse_elems.simps)
qed

lemma parse_members_step:
  assumes b: "b = pre @ ws @ print_string k @ CHR '':'' # ws1 @ h # s"
    and v: "parse_value n d b (length pre + length ws + length (print_string k) + 1 + length ws1) = Accept (x, length p1)"
    and c: "b = p1 @ ws2 @ c # post" and o0: "Suc o0 = length pre" and k: "CHR 0x00 \<notin> set k"
    and w: "\<forall>w\<in>set ws. is_ws w" "\<forall>w\<in>set ws1. is_ws w" "\<not> is_ws h" "\<forall>w\<in>set ws2. is_ws w" "\<not> is_ws c"
  shows "c = CHR ''}'' \<Longrightarrow> parse_members (Suc n) d b o0 = Accept ([(k, x)], length p1 + length ws2 + 1)"
    and "c = CHR '','' \<Longrightarrow> parse_members n d b (length p1 + length ws2) = Accept (ms, o') \<Longrightarrow>
      parse_members (Suc n) d b o0 = Accept ((k, x) # ms, o')"
    and "c = CHR '','' \<Longrightarrow> parse_members n d b (length p1 + length ws2) = Overread \<Longrightarrow>
      parse_members (Suc n) d b o0 = Overread"
proof -
  let ?p = "pre @ ws" and ?ps = "print_string k"
  obtain t where t: "?ps = QUOTE # t" by (simp add: print_string_def)
  have s1: "skip_ws b (o0 + 1) = length ?p"
    using skip_ws_pos [OF w(1), of QUOTE pre "t @ CHR '':'' # ws1 @ h # s"] o0 b t by simp
  have str: "parse_string b (length ?p) = Accept (k, length (?p @ ?ps))"
    using parse_printed_string [OF k, of ?p "CHR '':'' # ws1 @ h # s"] b
    by (simp add: parse_string_def cstr_no_nul [OF k])
  have s2: "skip_ws b (length (?p @ ?ps)) = length (?p @ ?ps)"
    using skip_ws_pos [of "[]" "CHR '':''" "?p @ ?ps" "ws1 @ h # s"] b by simp
  have a2: "at_char b (length (?p @ ?ps)) (CHR '':'')"
    using at_char_pos [of "?p @ ?ps" "CHR '':''" "ws1 @ h # s"] b by simp
  have s3: "skip_ws b (length (?p @ ?ps) + 1) = length pre + length ws + length ?ps + 1 + length ws1"
    using skip_ws_pos [OF w(2,3), of "?p @ ?ps @ '':''" s] b by simp
  have s4: "skip_ws b (length p1) = length p1 + length ws2"
    using skip_ws_pos [OF w(4,5), of p1 post] c by simp
  have a4: "at_char b (length p1 + length ws2) c' \<longleftrightarrow> c = c'" for c'
    using at_char_pos [of "p1 @ ws2" c post c'] c by simp
  note steps = parse_members.simps(2) s1 str bind_pres_simps prod.case Let_def s2 a2 s3 v s4 a4
  show "c = CHR ''}'' \<Longrightarrow> parse_members (Suc n) d b o0 = Accept ([(k, x)], length p1 + length ws2 + 1)"
    "c = CHR '','' \<Longrightarrow> parse_members n d b (length p1 + length ws2) = Accept (ms, o') \<Longrightarrow>
      parse_members (Suc n) d b o0 = Accept ((k, x) # ms, o')"
    "c = CHR '','' \<Longrightarrow> parse_members n d b (length p1 + length ws2) = Overread \<Longrightarrow>
      parse_members (Suc n) d b o0 = Overread"
    unfolding steps using a2 by simp_all
qed

lemma render_members_head:
  "ms \<noteq> [] \<Longrightarrow> \<exists>k x ms'. ms = (k, x) # ms'"
  by (cases ms) auto

text \<open>What the parser is to do with the text of a value, of the elements and of the members of a container.\<close>

definition value_read :: "bool \<Rightarrow> nat \<Rightarrow> cjson \<Rightarrow> bool" where
  "value_read f e x \<longleftrightarrow> (\<forall>post d n pre. plain x \<longrightarrow> number_ends post \<longrightarrow> d + nest x \<le> CJSON_NESTING_LIMIT \<longrightarrow>
     2 * length (render f e x @ post) + 1 \<le> n \<longrightarrow>
     parse_value n d (pre @ render f e x @ post) (length pre) = Accept (x, length pre + length (render f e x)))"

definition elems_read :: "bool \<Rightarrow> nat \<Rightarrow> cjson list \<Rightarrow> bool" where
  "elems_read f e xs \<longleftrightarrow> (\<forall>post d n pre ws o0. xs \<noteq> [] \<longrightarrow> (\<forall>x\<in>set xs. plain x \<and> d + nest x \<le> CJSON_NESTING_LIMIT) \<longrightarrow>
     (\<forall>w\<in>set ws. is_ws w) \<longrightarrow> Suc o0 = length pre \<longrightarrow>
     2 * length (ws @ render_elems f e xs @ '']'' @ post) + 2 \<le> n \<longrightarrow>
     parse_elems n d (pre @ ws @ render_elems f e xs @ '']'' @ post) o0 =
       Accept (xs, length pre + length ws + length (render_elems f e xs) + 1))"

definition members_read :: "bool \<Rightarrow> nat \<Rightarrow> (string \<times> cjson) list \<Rightarrow> bool" where
  "members_read f e ms \<longleftrightarrow> (\<forall>post d n pre ws ws2 o0 R. ms \<noteq> [] \<longrightarrow>
     (\<forall>m\<in>set ms. CHR 0x00 \<notin> set (fst m) \<and> plain (snd m) \<and> d + nest (snd m) \<le> CJSON_NESTING_LIMIT) \<longrightarrow>
     (\<forall>w\<in>set ws. is_ws w) \<longrightarrow> (\<forall>w\<in>set ws2. is_ws w) \<longrightarrow> Suc o0 = length pre \<longrightarrow>
     render_members f e ms = (if f then tabs e else []) @ R \<longrightarrow>
     2 * length (ws @ R @ ws2 @ ''}'' @ post) + 2 \<le> n \<longrightarrow>
     parse_members n d (pre @ ws @ R @ ws2 @ ''}'' @ post) o0 =
       Accept (ms, length pre + length ws + length R + length ws2 + 1))"

lemmas value_readD = value_read_def [THEN iffD1, rule_format]
lemmas elems_readD = elems_read_def [THEN iffD1, rule_format]
lemmas members_readD = members_read_def [THEN iffD1, rule_format]

lemma array_read:
  assumes "xs \<noteq> [] \<Longrightarrow> elems_read f (e + 1) xs"
  shows "value_read f e (JArray xs)"
proof (unfold value_read_def, intro allI impI)
  fix post pre :: string and d n :: nat
  assume a: "plain (JArray xs)" "number_ends post" "d + nest (JArray xs) \<le> CJSON_NESTING_LIMIT"
    "2 * length (render f e (JArray xs) @ post) + 1 \<le> n"
  obtain n' where n: "n = Suc n'" using a(4) by (cases n) auto
  have d: "d < CJSON_NESTING_LIMIT" using a(3) by simp
  let ?b = "pre @ render f e (JArray xs) @ post"
  have none: "parse_scalar ?b (length pre) = None"
    using parse_scalar_none [of "CHR ''[''" pre "render_elems f (e + 1) xs @ '']'' @ post"] by simp
  have at: "at_char ?b (length pre) c \<longleftrightarrow> c = CHR ''[''" for c by (auto simp: at_char_def)
  show "parse_value n d (pre @ render f e (JArray xs) @ post) (length pre) =
      Accept (JArray xs, length pre + length (render f e (JArray xs)))"
  proof (cases "xs = []")
    case True
    then show ?thesis
      using open_bracket_pos(2) [OF d, of "[]" "CHR ''0''" "CHR '']''" pre "CHR ''[''" post] none at
      by (simp add: n parse_value.simps is_ws_def)
  next
    case False
    then obtain y ys where ys: "xs = y # ys" by (cases xs) auto
    obtain h t where h: "render f (e + 1) y = h # t" "\<not> is_ws h" "h \<noteq> CHR '']''"
      using render_head [of y f "e + 1"] a(1) ys by auto
    have ob: "open_bracket d ?b (length pre) (CHR '']'') E = E (length pre)" for E :: "nat \<Rightarrow> (cjson list \<times> nat) pres"
      using open_bracket_pos(1) [OF d, of "[]" h "CHR '']''" pre "CHR ''[''" _ E] h ys by simp
    have "nest (JArray xs) \<le> Suc (CJSON_NESTING_LIMIT - Suc d)" using a(3) by linarith
    then have "\<forall>x\<in>set xs. plain x \<and> Suc d + nest x \<le> CJSON_NESTING_LIMIT"
      unfolding nest_array_le using a(1) d by auto
    then have "parse_elems n' (d + 1) ((pre @ ''['') @ [] @ render_elems f (e + 1) xs @ '']'' @ post) (length pre) =
        Accept (xs, length (pre @ ''['') + length ([]::string) + length (render_elems f (e + 1) xs) + 1)"
      using a(4) by (intro elems_readD [OF assms [OF False] False]) (simp_all add: n)
    then show ?thesis
      using none at ob by (simp add: n parse_value.simps)
  qed
qed

lemma object_read:
  assumes "ms \<noteq> [] \<Longrightarrow> members_read f (e + 1) ms"
  shows "value_read f e (JObject ms)"
proof (unfold value_read_def, intro allI impI)
  fix post pre :: string and d n :: nat
  assume a: "plain (JObject ms)" "number_ends post" "d + nest (JObject ms) \<le> CJSON_NESTING_LIMIT"
    "2 * length (render f e (JObject ms) @ post) + 1 \<le> n"
  obtain n' where n: "n = Suc n'" using a(4) by (cases n) auto
  have d: "d < CJSON_NESTING_LIMIT" using a(3) by simp
  let ?b = "pre @ render f e (JObject ms) @ post"
  let ?nl = "if f then [CHR 0x0A] else []" and ?tb = "if f then tabs e else []"
  have none: "parse_scalar ?b (length pre) = None"
    using parse_scalar_none [of "CHR ''{''" pre "?nl @ render_members f (e + 1) ms @ ?tb @ ''}'' @ post"] by simp
  have at: "at_char ?b (length pre) c \<longleftrightarrow> c = CHR ''{''" for c by (auto simp: at_char_def)
  have ws: "\<forall>w\<in>set ?nl. is_ws w" "\<forall>w\<in>set ?tb. is_ws w" "\<forall>w\<in>set (?nl @ ?tb). is_ws w"
    by (auto dest: tabs_ws)
  show "parse_value n d (pre @ render f e (JObject ms) @ post) (length pre) =
      Accept (JObject ms, length pre + length (render f e (JObject ms)))"
  proof (cases "ms = []")
    case True
    have "open_bracket d ?b (length pre) (CHR ''}'') E =
        Accept ([], length pre + length (?nl @ ?tb) + 2)" for E :: "nat \<Rightarrow> ((string \<times> cjson) list \<times> nat) pres"
      using open_bracket_pos(2) [OF d ws(3), of "CHR ''0''" "CHR ''}''" pre "CHR ''{''" post E] True
      by (simp add: is_ws_def)
    then show ?thesis
      using none at True by (simp add: n parse_value.simps)
  next
    case False
    then obtain k y ms' where ys: "ms = (k, y) # ms'" by (metis render_members_head)
    let ?tb1 = "if f then tabs (e + 1) else []"
    obtain t where t: "print_string k = QUOTE # t" by (simp add: print_string_def)
    have "\<forall>w\<in>set (?nl @ ?tb1). is_ws w" by (auto dest: tabs_ws)
    note ob' = open_bracket_pos(1) [OF d this, of QUOTE "CHR ''}''" pre "CHR ''{''"]
    obtain R where R: "render_members f (e + 1) ms = ?tb1 @ R" "\<exists>s. R = QUOTE # s"
      by (simp add: ys t)
    have b: "?b = pre @ CHR ''{'' # (?nl @ ?tb1) @ R @ ?tb @ ''}'' @ post" using R(1) by simp
    have ob: "open_bracket d ?b (length pre) (CHR ''}'') E = E (length pre + length (?nl @ ?tb1))"
      for E :: "nat \<Rightarrow> ((string \<times> cjson) list \<times> nat) pres"
      unfolding b using R(2) ob' [of _ E] by (auto simp: QUOTE_def is_ws_def simp del: append_assoc length_append)
    have "nest (JObject ms) \<le> Suc (CJSON_NESTING_LIMIT - Suc d)" using a(3) by linarith
    then have "\<forall>m\<in>set ms. CHR 0x00 \<notin> set (fst m) \<and> plain (snd m) \<and> Suc d + nest (snd m) \<le> CJSON_NESTING_LIMIT"
      unfolding nest_object_le using a(1) d by (auto simp: NUL_def)
    then have "parse_members n' (d + 1) ((pre @ ''{'' @ ?nl @ ?tb1) @ [] @ R @ ?tb @ ''}'' @ post) (length pre + length (?nl @ ?tb1)) =
        Accept (ms, length (pre @ ''{'' @ ?nl @ ?tb1) + length ([]::string) + length R + length ?tb + 1)"
      using a(4) R(1) ws(2) by (intro members_readD [OF assms [OF False] False]) (simp_all add: n)
    then show ?thesis
      using none at ob R(1) by (simp add: n parse_value.simps)
  qed
qed

lemma elements_read:
  assumes "value_read f e x" and "xs \<noteq> [] \<Longrightarrow> elems_read f e xs"
  shows "elems_read f e (x # xs)"
proof (unfold elems_read_def, intro allI impI)
  fix post pre ws :: string and d n o0 :: nat
  assume a: "\<forall>y\<in>set (x # xs). plain y \<and> d + nest y \<le> CJSON_NESTING_LIMIT" "\<forall>w\<in>set ws. is_ws w" "Suc o0 = length pre"
    "2 * length (ws @ render_elems f e (x # xs) @ '']'' @ post) + 2 \<le> n"
  obtain n' where n: "n = Suc n'" using a(4) by (cases n) auto
  let ?sep = "if f then '', '' else '',''" and ?r = "render f e x"
  let ?tail = "(if xs = [] then [] else ?sep) @ render_elems f e xs @ '']'' @ post"
  let ?b = "pre @ ws @ render_elems f e (x # xs) @ '']'' @ post"
  have b: "?b = (pre @ ws) @ ?r @ ?tail" by simp
  have x: "plain x" "d + nest x \<le> CJSON_NESTING_LIMIT" using a(1) by auto
  obtain h t where h: "?r = h # t" "\<not> is_ws h" using render_head [OF x(1)] by metis
  have "number_ends ?tail" by (cases "xs = []") (auto simp: number_ends_intro)
  then have v: "parse_value n' d ?b (length pre + length ws) = Accept (x, length (pre @ ws @ ?r))"
    using value_readD [OF assms(1) x(1) _ x(2), of ?tail n' "pre @ ws"] a(4) b by (simp add: n)
  show "parse_elems n d (pre @ ws @ render_elems f e (x # xs) @ '']'' @ post) o0 =
      Accept (x # xs, length pre + length ws + length (render_elems f e (x # xs)) + 1)"
  proof (cases "xs = []")
    case True
    show ?thesis
      using parse_elems_step(1) [OF v, of h "t @ '']'' @ post" "CHR '']''" post o0] h a(2,3) True
      by (simp add: n)
  next
    case False
    let ?p = "pre @ ws @ ?r @ '',''" and ?w = "if f then '' '' else []"
    have "parse_elems n' d (?p @ ?w @ render_elems f e xs @ '']'' @ post) (length (pre @ ws @ ?r)) =
       Accept (xs, length ?p + length ?w + length (render_elems f e xs) + 1)"
      using a(1,4) False by (intro elems_readD [OF assms(2) [OF False] False]) (auto simp: n)
    then have rec: "parse_elems n' d ?b (length (pre @ ws @ ?r)) =
       Accept (xs, length ?p + length ?w + length (render_elems f e xs) + 1)"
      using False by (cases f) simp_all
    have "?b = (pre @ ws @ ?r) @ CHR '','' # ?w @ render_elems f e xs @ '']'' @ post"
      using False by (cases f) simp_all
    then show ?thesis
      using parse_elems_step(2) [OF v _ _ a(3) a(2) h(2) _ _ rec, of _ "CHR '',''"] h False
      by (cases f) (simp_all add: n)
  qed
qed

lemma member_text_ends:
  assumes "\<forall>w\<in>set ws. is_ws w"
  shows "number_ends (((if ms = [] then [] else '','') @ (if f then [CHR 0x0A] else []) @ render_members f e ms) @ ws @ ''}'' @ post)"
proof (cases "ms = [] \<and> \<not> f")
  case True
  then show ?thesis
    using assms by (cases ws) (auto simp: number_ends_intro number_ends_def number_char_def is_ws_def is_digit_def)
qed (auto simp: number_ends_intro)

lemma members_read_step:
  assumes "value_read f e x" and "ms \<noteq> [] \<Longrightarrow> members_read f e ms"
  shows "members_read f e ((k, x) # ms)"
proof (unfold members_read_def, intro allI impI)
  fix post pre ws ws2 R :: string and d n o0 :: nat
  assume a: "\<forall>m\<in>set ((k, x) # ms). CHR 0x00 \<notin> set (fst m) \<and> plain (snd m) \<and> d + nest (snd m) \<le> CJSON_NESTING_LIMIT"
    "\<forall>w\<in>set ws. is_ws w" "\<forall>w\<in>set ws2. is_ws w" "Suc o0 = length pre"
    "render_members f e ((k, x) # ms) = (if f then tabs e else []) @ R"
    "2 * length (ws @ R @ ws2 @ ''}'' @ post) + 2 \<le> n"
  obtain n' where n: "n = Suc n'" using a(6) by (cases n) auto
  let ?r = "render f e x" and ?nl = "if f then [CHR 0x0A] else []" and ?t1 = "if f then [CHR 0x09] else []"
  let ?rest = "(if ms = [] then [] else '','') @ ?nl @ render_members f e ms"
  have R: "R = print_string k @ CHR '':'' # ?t1 @ ?r @ ?rest" using a(5) by (cases f) auto
  let ?tail = "?rest @ ws2 @ ''}'' @ post"
  let ?b = "pre @ ws @ R @ ws2 @ ''}'' @ post"
  let ?q = "pre @ ws @ print_string k @ CHR '':'' # ?t1"
  have b: "?b = ?q @ ?r @ ?tail" by (simp add: R)
  have x: "plain x" "d + nest x \<le> CJSON_NESTING_LIMIT" and k: "CHR 0x00 \<notin> set k" using a(1) by auto
  obtain h t where h: "?r = h # t" "\<not> is_ws h" using render_head [OF x(1)] by metis
  have ws1: "\<forall>w\<in>set ?t1. is_ws w" by simp
  have ne: "number_ends ?tail" using member_text_ends [of ws2] a(3) by simp
  have v0: "parse_value n' d (?q @ ?r @ ?tail) (length ?q) = Accept (x, length ?q + length ?r)"
    using a(6) by (intro value_readD [OF assms(1) x(1) ne x(2)]) (simp add: n R)
  have "length pre + length ws + length (print_string k) + 1 + length ?t1 = length ?q" by simp
  then have v: "parse_value n' d ?b (length pre + length ws + length (print_string k) + 1 + length ?t1) =
      Accept (x, length (?q @ ?r))"
    using v0 by (simp only: b length_append)
  have bh: "?b = pre @ ws @ print_string k @ CHR '':'' # ?t1 @ h # t @ ?tail" by (simp add: R h)
  show "parse_members n d ?b o0 = Accept ((k, x) # ms, length pre + length ws + length R + length ws2 + 1)"
  proof (cases "ms = []")
    case True
    have "\<forall>w\<in>set (?nl @ ws2). is_ws w" using a(3) by auto
    then show ?thesis
      using parse_members_step(1) [OF bh v _ a(4) k a(2) ws1 h(2), of "?nl @ ws2" "CHR ''}''" post] True
      by (simp add: n R)
  next
    case False
    let ?p = "?q @ ?r @ '',''" and ?tb = "if f then tabs e else []"
    obtain R' where R': "render_members f e ms = ?tb @ R'"
      using render_members_head [OF False] by auto
    have "\<forall>w\<in>set (?nl @ ?tb). is_ws w" by (auto dest: tabs_ws)
    then have "parse_members n' d (?p @ (?nl @ ?tb) @ R' @ ws2 @ ''}'' @ post) (length (?q @ ?r)) =
       Accept (ms, length ?p + length (?nl @ ?tb) + length R' + length ws2 + 1)"
      using a(1,3,6) R' by (intro members_readD [OF assms(2) [OF False] False]) (auto simp: n R)
    then have rec: "parse_members n' d ?b (length (?q @ ?r) + length ([]::string)) =
       Accept (ms, length ?p + length (?nl @ ?tb) + length R' + length ws2 + 1)"
      using False by (simp add: R R')
    have bc: "?b = (?q @ ?r) @ [] @ CHR '','' # ?nl @ ?tb @ R' @ ws2 @ ''}'' @ post"
      using False by (simp add: R R')
    show ?thesis
      using parse_members_step(2) [OF bh v bc a(4) k a(2) ws1 h(2) _ _ _ rec]
      by (simp add: n R R' False)
  qed
qed

lemma rendered_read: "value_read f e x" "elems_read f e xs" "members_read f e ms"
proof (induction f e x and f e xs and f e ms rule: render_render_elems_render_members.induct)
  case (4 f e d')
  show ?case
  proof (unfold value_read_def, intro allI impI)
    fix post pre :: string and d n :: nat
    assume a: "plain (JNumber d')" "number_ends post" "2 * length (render f e (JNumber d') @ post) + 1 \<le> n"
    then obtain i where i: "int32 i" "d' = Fin (of_int i)" using plain_number by blast
    show "parse_value n d (pre @ render f e (JNumber d') @ post) (length pre) =
        Accept (JNumber d', length pre + length (render f e (JNumber d')))"
      using a(3) parse_scalar_number [OF i(1) a(2), of pre] unfolding render.simps i(2)
      by (intro parse_value_scalar) simp_all
  qed
next
  case (6 f e s)
  show ?case
  proof (unfold value_read_def, intro allI impI)
    fix post pre :: string and d n :: nat
    assume a: "plain (JString s)" "2 * length (render f e (JString s) @ post) + 1 \<le> n"
    show "parse_value n d (pre @ render f e (JString s) @ post) (length pre) =
        Accept (JString s, length pre + length (render f e (JString s)))"
      using a parse_scalar_string [of s pre post] unfolding render.simps
      by (intro parse_value_scalar) (simp_all add: NUL_def)
  qed
next
  case (7 f e xs)
  then show ?case by (rule array_read)
next
  case (8 f e ms)
  then show ?case by (rule object_read)
next
  case (10 f e x xs)
  then show ?case by (rule elements_read)
next
  case (12 f e k x ms)
  then show ?case by (rule members_read_step)
qed (auto intro!: parse_value_scalar simp: value_read_def elems_read_def members_read_def parse_scalar_def reads_literal_pos)

lemma render_no_bom:
  assumes "plain x"
  shows "take 3 (render f e x @ post) \<noteq> [CHR 0xEF, CHR 0xBB, CHR 0xBF]"
proof (cases x)
  case (JNumber d)
  then obtain i where i: "int32 i" "d = Fin (of_int i)" using plain_number assms by blast
  obtain c t where "dec_int i = c # t" "c = CHR ''-'' \<or> is_digit c" using dec_int_head by blast
  then show ?thesis by (auto simp: JNumber i number_text_int is_digit_def)
qed (use assms in \<open>auto simp: print_string_def QUOTE_def\<close>)

lemma initial_pbuf_ok: "pb_ok (initial_pbuf f fault)"
  by (simp add: pb_ok_def initial_pbuf_def)

lemma initial_wrote:
  "print_value x (initial_pbuf f fault) = Written p \<Longrightarrow> wrote (initial_pbuf f fault) (render f 0 x) p"
  using print_wrote(1) [OF _ initial_pbuf_ok] by (fastforce simp: initial_pbuf_def)

lemma print_item_Some:
  assumes "print_item f fault x = Some s"
  shows "s = render f 0 x"
proof -
  obtain p where p: "print_value x (initial_pbuf f fault) = Written p" and s: "s = pb_text (update_offset p)"
    using assms by (auto simp: print_item_def split: if_splits print_result.splits)
  show ?thesis using initial_wrote [OF p] by (simp add: s wrote_def initial_pbuf_def)
qed

lemma print_item_render:
  assumes "numbers_fit x" and "length (render f 0 x) + 2 \<le> INT_MAX_nat"
  shows "print_item f (\<lambda>_. False) x = Some (render f 0 x)"
proof -
  let ?p = "initial_pbuf f (\<lambda>_. False)"
  have q: "pb_quiet ?p" by (simp add: pb_quiet_def initial_pbuf_ok) (simp add: initial_pbuf_def)
  obtain p where p: "print_value x ?p = Written p"
    using print_quiet [OF q assms(1)] assms(2) by (auto simp: initial_pbuf_def)
  show ?thesis
    using p initial_wrote [OF p] by (simp add: print_item_def wrote_def pb_frame_def initial_pbuf_def)
qed

text \<open>The parser stops at the end of the document; what follows is ignored.\<close>

lemma parse_render_rest:
  assumes "plain x" and "nest x \<le> CJSON_NESTING_LIMIT" and "number_ends (rest @ [NUL])"
  shows "cJSON_Parse (render f 0 x @ rest) = Accept x"
proof -
  let ?s = "render f 0 x"
  let ?b = "?s @ rest @ [NUL]"
  have "parse_value (parse_fuel ?b) 0 ([] @ ?s @ rest @ [NUL]) (length ([]::string)) =
      Accept (x, length ([]::string) + length ?s)"
    using assms by (intro value_readD [OF rendered_read(1)]) (simp_all add: parse_fuel_def)
  moreover have "skip_utf8_bom ?b 0 = 0"
    using render_no_bom [OF assms(1), of f 0 "rest @ [NUL]"] by (simp add: skip_utf8_bom_def)
  moreover have "skip_ws ?b 0 = 0"
  proof -
    obtain c t where "?s = c # t" "\<not> is_ws c" using render_head [OF assms(1), of f 0] by metis
    then show ?thesis using skip_ws_pos [of "[]" c "[]" "t @ rest @ [NUL]"] by simp
  qed
  ultimately show ?thesis
    by (simp add: cJSON_Parse_def cJSON_ParseWithOpts_def cJSON_ParseWithLengthOpts_def)
qed

lemma parse_render:
  assumes "plain x" and "nest x \<le> CJSON_NESTING_LIMIT"
  shows "cJSON_Parse (render f 0 x) = Accept x"
  using parse_render_rest [OF assms, of "[]" f] by (simp add: number_ends_intro)

text \<open>The text of a document is a C string.\<close>

lemma nul_not_digit [simp]: "\<not> is_digit (CHR 0x00)"
  by (simp add: is_digit_def)

lemma dec_int_no_nul: "CHR 0x00 \<notin> set (dec_int i)"
  using dec_nat_digits [of "CHR 0x00"] by (auto simp: dec_int_def)

lemma hex_lower_no_nul: "n < 16 \<Longrightarrow> hex_lower n \<noteq> CHR 0x00"
proof -
  assume "n < 16"
  then have "ord (hex_lower n) \<noteq> 0" by (simp add: hex_lower_def)
  then show ?thesis by auto
qed

lemma escape_char_no_nul: "CHR 0x00 \<notin> set (escape_char c)"
proof -
  have "ord c div 16 < 16" "ord c mod 16 < 16"
    using nat_of_char_less_256 [of c] by linarith+
  then show ?thesis
  using hex_lower_no_nul [of "ord c div 16"] hex_lower_no_nul [of "ord c mod 16"]
  by (auto simp: escape_char_def QUOTE_def BACKSLASH_def)
qed

lemma print_string_no_nul: "CHR 0x00 \<notin> set (print_string s)"
  using escape_char_no_nul by (auto simp: print_string_def QUOTE_def)

lemma render_no_nul:
  "plain x \<Longrightarrow> CHR 0x00 \<notin> set (render f d x)"
  "\<forall>x\<in>set xs. plain x \<Longrightarrow> CHR 0x00 \<notin> set (render_elems f d xs)"
  "\<forall>m\<in>set ms. plain (snd m) \<Longrightarrow> CHR 0x00 \<notin> set (render_members f d ms)"
proof (induction f d x and f d xs and f d ms rule: render_render_elems_render_members.induct)
  case (4 f d x)
  then obtain i where "int32 i" "x = Fin (of_int i)" using plain_number by blast
  then show ?case by (simp add: number_text_int dec_int_no_nul)
qed (auto simp: print_string_no_nul tabs_def)

lemma cstr_render: "plain x \<Longrightarrow> cstr (render f 0 x) = render f 0 x"
  using render_no_nul(1) by (simp add: cstr_no_nul)

section \<open>Properties\<close>

text \<open>
  C12. \<open>print_value\<close>, with its growing buffer: whatever the document and whichever reallocations
  fail, no byte, terminators and tabs included, is written outside the buffer allocated at that
  moment, neither in a run that succeeds nor in one that a failed \<open>ensure\<close> ends; and a run that
  succeeds leaves exactly the text the document stands for, formatted or not.
\<close>

theorem print_value_renders:
  "case print_value x (initial_pbuf f fault) of
     Written p \<Rightarrow> pb_text p @ pb_tail p = render f 0 x \<and> length (render f 0 x) < pb_length p
   | Refused \<Rightarrow> True
   | Overrun \<Rightarrow> False"
proof (cases "print_value x (initial_pbuf f fault)")
  case (Written p)
  note w = initial_wrote [OF Written]
  have t: "pb_text p @ pb_tail p = render f 0 x" using w by (simp add: wrote_def initial_pbuf_def)
  have "length (pb_text p) + length (pb_tail p) < pb_length p" using w by (simp add: wrote_def pb_ok_def)
  then have "length (render f 0 x) < pb_length p" unfolding t [symmetric] by simp
  then show ?thesis by (simp add: Written t)
qed (use printer_fits(1) [OF initial_pbuf_ok] in simp_all)

text \<open>
  Printing succeeds whenever no allocation fails, every number prints in its 25 characters and
  the text is smaller than the largest \<open>int\<close>.
\<close>

theorem cJSON_print_succeeds:
  assumes "numbers_fit x" and "length (render f 0 x) + 2 \<le> INT_MAX_nat"
  shows "print_item f (\<lambda>_. False) x = Some (render f 0 x)"
  using assms by (rule print_item_render)

theorem cJSON_print_succeeds_witness:
  "cJSON_PrintUnformatted (\<lambda>_. False) (JObject [(''a'', JNumber (Fin 1))]) = Some (''{'' @ [QUOTE] @ ''a'' @ [QUOTE] @ '':1}'')"
proof -
  let ?x = "JObject [(''a'', JNumber (Fin 1))]"
  have n: "number_text (Fin 1) = ''1''"
    using number_text_int [of 1] by (simp add: int32_def INT_MIN_def INT_MAX_def dec_int_def dec_nat.simps digit_char_def char_of_def bit_0)
  have r: "render False 0 ?x = ''{'' @ [QUOTE] @ ''a'' @ [QUOTE] @ '':1}''"
    by (simp add: n print_string_def escape_char_def QUOTE_def BACKSLASH_def)
  have "print_item False (\<lambda>_. False) ?x = Some (render False 0 ?x)"
    by (rule cJSON_print_succeeds) (simp_all add: n print_string_def escape_char_def QUOTE_def BACKSLASH_def INT_MAX_nat_def INT_MAX_def)
  then show ?thesis by (simp only: r cJSON_PrintUnformatted_def)
qed

text \<open>
  C7. Print, then parse: a document whose numbers are \<open>int\<close>s, whose strings are C strings and that is
  nested no deeper than the limit is read back from its text, formatted or not, as it was.
\<close>

theorem print_then_parse:
  assumes "plain x" and "nest x \<le> CJSON_NESTING_LIMIT" and "print_item f fault x = Some s"
  shows "cJSON_Parse s = Accept x"
  using parse_render [OF assms(1,2)] print_item_Some [OF assms(3)] by simp

theorem print_then_parse_witness:
  "\<exists>s. cJSON_Print (\<lambda>_. False) (JArray [JTrue, JObject []]) = Some s \<and>
     cJSON_Parse s = Accept (JArray [JTrue, JObject []])"
proof -
  have "\<exists>s. print_item True (\<lambda>_. False) (JArray [JTrue, JObject []]) = Some s"
    by (simp add: print_item_def initial_pbuf_def put_advance_def put_string_def ensure_def update_offset_def
        tabs_def INT_MAX_nat_def INT_MAX_def)
  then obtain s where s: "print_item True (\<lambda>_. False) (JArray [JTrue, JObject []]) = Some s" ..
  have "cJSON_Parse s = Accept (JArray [JTrue, JObject []])"
    by (rule print_then_parse [OF _ _ s]) (simp_all add: CJSON_NESTING_LIMIT_def)
  then show ?thesis using s by (auto simp: cJSON_Print_def)
qed

text \<open>
  \<open>parse_object\<close> reads a name without testing that the buffer goes on: on a text of a given
  length that ends in the comma behind a member, \<open>cJSON_ParseWithLength\<close> reads the byte behind the
  buffer. (\<open>cJSON_Parse\<close>, which includes the terminator in the buffer, does not.)
\<close>

theorem ParseWithLength_overread:
  assumes "CHR 0x00 \<notin> set k" and "int32 i"
  shows "cJSON_ParseWithLength (''{'' @ print_string k @ '':'' @ dec_int i @ '','') = Overread"
proof -
  let ?r = "number_text (Fin (of_int i))"
  let ?b = "''{'' @ print_string k @ '':'' @ ?r @ '',''"
  let ?q = "''{'' @ print_string k @ '':''"
  have r: "?r = dec_int i" by (rule number_text_int [OF assms(2)])
  obtain t where t: "print_string k = QUOTE # t" by (simp add: print_string_def)
  obtain n where n: "parse_fuel ?b = Suc (Suc (Suc n))"
    by (simp add: parse_fuel_def t)
  have v: "parse_value (Suc n) 1 ?b (length ''{'' + length ([]::string) + length (print_string k) + 1 + length ([]::string)) =
      Accept (JNumber (Fin (of_int i)), length (?q @ ?r))"
    using parse_scalar_number [OF assms(2), of "'',''" ?q]
    by (intro parse_value_scalar) (simp_all add: number_ends_intro)
  have eob: "skip_ws ?b (length ?b) = length ?b" by (simp add: skip_ws_end)
  have last: "parse_members (Suc n) 1 ?b (length (?q @ ?r) + length ([]::string)) = Overread"
    using eob by (simp add: parse_members.simps parse_string_def parse_string_raw_def can_access_def)
  obtain h u where h: "?r = h # u" "\<not> is_ws h"
    using render_head [of "JNumber (Fin (of_int i))"] value_int_int [OF assms(2)]
    by (metis plain.simps(1) render.simps(4))
  have m: "parse_members (Suc (Suc n)) 1 ?b 0 = Overread"
  proof -
    have b1: "?b = ''{'' @ [] @ print_string k @ CHR '':'' # [] @ h # u @ '',''" by (simp add: h)
    have b2: "?b = (?q @ ?r) @ [] @ CHR '','' # []" by simp
    show ?thesis
      using parse_members_step(3) [OF b1 v b2 _ assms(1) _ _ h(2) _ _ _ last] by simp
  qed
  have none: "parse_scalar ?b 0 = None"
    using parse_scalar_none [of "CHR ''{''" "[]"] by simp
  have "open_bracket 0 ?b 0 (CHR ''}'') E = E 0" for E :: "nat \<Rightarrow> ((string \<times> cjson) list \<times> nat) pres"
    using open_bracket_pos(1) [of 0 "[]" QUOTE "CHR ''}''" "[]" "CHR ''{''"]
    by (simp add: t CJSON_NESTING_LIMIT_def) (simp add: QUOTE_def)
  then have "parse_value (parse_fuel ?b) 0 ?b 0 = Overread"
    using m none unfolding n by (simp add: parse_value.simps at_char_def)
  moreover have "skip_ws ?b 0 = 0" "skip_utf8_bom ?b 0 = 0"
    using skip_ws_pos [of "[]" "CHR ''{''" "[]"] by (simp_all add: skip_utf8_bom_def is_ws_def)
  ultimately show ?thesis
    by (simp add: cJSON_ParseWithLength_def cJSON_ParseWithLengthOpts_def r)
qed

theorem ParseWithLength_overread_witness:
  "cJSON_ParseWithLength (''{'' @ print_string ''a'' @ '':'' @ dec_int 1 @ '','') = Overread"
  by (rule ParseWithLength_overread) (simp_all add: int32_def INT_MIN_def INT_MAX_def)

end
