(* ===== verification/JsonApi.thy ===== *)
theory JsonApi
  imports JsonPrint
begin

text \<open>
  The part of the interface of \<open>components/json/cJSON/cJSON.c\<close> that the firmware calls on documents:
  type tests, member lookup without regard to case, array size, and the construction of objects. A
  pointer to an item is a \<open>cjson option\<close>, \<open>None\<close> the null pointer. Allocations succeed.
\<close>

section \<open>Type tests\<close>

fun cJSON_IsTrue :: "cjson option \<Rightarrow> bool" where
  "cJSON_IsTrue (Some JTrue) = True"
| "cJSON_IsTrue _ = False"

fun cJSON_IsBool :: "cjson option \<Rightarrow> bool" where
  "cJSON_IsBool (Some JTrue) = True"
| "cJSON_IsBool (Some JFalse) = True"
| "cJSON_IsBool _ = False"

fun cJSON_IsNumber :: "cjson option \<Rightarrow> bool" where
  "cJSON_IsNumber (Some (JNumber _)) = True"
| "cJSON_IsNumber _ = False"

fun cJSON_IsString :: "cjson option \<Rightarrow> bool" where
  "cJSON_IsString (Some (JString _)) = True"
| "cJSON_IsString _ = False"

fun cJSON_IsArray :: "cjson option \<Rightarrow> bool" where
  "cJSON_IsArray (Some (JArray _)) = True"
| "cJSON_IsArray _ = False"

text \<open>\<open>item->valuestring\<close> and \<open>item->valueint\<close> of items whose type has been tested.\<close>

fun valuestring :: "cjson option \<Rightarrow> string" where
  "valuestring (Some (JString s)) = s"
| "valuestring _ = []"

fun valueint :: "cjson option \<Rightarrow> int" where
  "valueint (Some (JNumber d)) = value_int d"
| "valueint _ = 0"

section \<open>Children\<close>

fun cJSON_GetArraySize :: "cjson option \<Rightarrow> nat" where
  "cJSON_GetArraySize (Some (JArray xs)) = length xs"
| "cJSON_GetArraySize (Some (JObject ms)) = length ms"
| "cJSON_GetArraySize _ = 0"

fun children :: "cjson \<Rightarrow> cjson list" where
  "children (JArray xs) = xs"
| "children (JObject ms) = map snd ms"
| "children _ = []"

definition tolower :: "char \<Rightarrow> char" where
  "tolower c = (if 65 \<le> ord c \<and> ord c \<le> 90 then char_of (ord c + 32) else c)"

definition same_name :: "string \<Rightarrow> string \<Rightarrow> bool" where
  "same_name a b \<longleftrightarrow> map tolower a = map tolower b"

fun cJSON_GetObjectItem :: "cjson option \<Rightarrow> string \<Rightarrow> cjson option" where
  "cJSON_GetObjectItem (Some (JObject ms)) name = map_option snd (find (\<lambda>(k, _). same_name name k) ms)"
| "cJSON_GetObjectItem _ name = None"

section \<open>Construction\<close>

definition cJSON_CreateObject :: cjson where
  "cJSON_CreateObject = JObject []"

text \<open>The new item goes to the end of the child list, whatever names are there already.\<close>

fun add_item_to_object :: "cjson \<Rightarrow> string \<Rightarrow> cjson \<Rightarrow> cjson" where
  "add_item_to_object (JObject ms) name item = JObject (ms @ [(name, item)])"
| "add_item_to_object (JArray xs) name item = JArray (xs @ [item])"
| "add_item_to_object j name item = j"

definition cJSON_AddStringToObject :: "cjson \<Rightarrow> string \<Rightarrow> string \<Rightarrow> cjson" where
  "cJSON_AddStringToObject j name s = add_item_to_object j name (JString s)"

definition cJSON_AddBoolToObject :: "cjson \<Rightarrow> string \<Rightarrow> bool \<Rightarrow> cjson" where
  "cJSON_AddBoolToObject j name b = add_item_to_object j name (if b then JTrue else JFalse)"

definition cJSON_AddNumberToObject :: "cjson \<Rightarrow> string \<Rightarrow> rat \<Rightarrow> cjson" where
  "cJSON_AddNumberToObject j name x = add_item_to_object j name (JNumber (Fin x))"

named_theorems json_build "construction of objects"

lemmas [json_build] = cJSON_CreateObject_def cJSON_AddStringToObject_def cJSON_AddBoolToObject_def
  cJSON_AddNumberToObject_def add_item_to_object.simps

section \<open>Lookup\<close>

lemma same_name_refl [simp]: "same_name a a"
  by (simp add: same_name_def)

lemma get_hit [simp]:
  "same_name name k \<Longrightarrow> cJSON_GetObjectItem (Some (JObject ((k, v) # ms))) name = Some v"
  by simp

lemma get_miss [simp]:
  "\<not> same_name name k \<Longrightarrow>
   cJSON_GetObjectItem (Some (JObject ((k, v) # ms))) name = cJSON_GetObjectItem (Some (JObject ms)) name"
  by simp

text \<open>A member that is added is found unless an earlier one has its name, and hides no other.\<close>

lemma get_after_add:
  "cJSON_GetObjectItem (Some (add_item_to_object (JObject ms) k v)) name =
     (case cJSON_GetObjectItem (Some (JObject ms)) name of
        Some w \<Rightarrow> Some w
      | None \<Rightarrow> if same_name name k then Some v else None)"
  by (induction ms) auto

end
