(* ===== verification/World.thy ===== *)
theory World
  imports Buttons Lcd Gpio NvsUtils JsonApi
begin

text \<open>
  The state of the firmware: the globals of \<open>globals.h\<close> and \<open>main.cpp\<close>, the data types of
  \<open>deviceType.h\<close> and \<open>menuTypes.h\<close>, and what the program sees of its surroundings (the access
  point, the HTTP replies, the heap, the clock). A function that runs into undefined behaviour (a
  null pointer, an index out of bounds, freed memory) has the result \<open>None\<close>.
\<close>

section \<open>Devices\<close>

text \<open>
  \<open>pin\<close> is the value of the 32-bit enumeration; a name is a null pointer (\<open>None\<close>) when \<open>strdup\<close>
  found no memory.
\<close>

record device =
  d_name :: "string option"
  d_id :: int
  d_pin :: int
  d_state :: bool
  d_type :: string

section \<open>Menus\<close>

text \<open>
  The four menus are static objects. The name of an item is a literal or a pointer to the name of
  a device; the latter (with the text it points to) is only good until the names of that
  device array are freed.
\<close>

datatype menu_id = MainMenu | Submenu1 | Submenu2 | Submenu3

datatype menu_function = Submenu1Fn | Submenu2Fn | Submenu3Fn | Volver | DeviceAction

datatype name_ref = Lit string | DevName nat "string option"

record menu_item =
  mi_name :: name_ref
  mi_action :: "menu_function option"
  mi_submenu :: "menu_id option"

text \<open>\<open>sm_items\<close> is \<open>None\<close> while the pointer is null or points to freed memory.\<close>

record sub_menu =
  sm_name :: string
  sm_items :: "menu_item list option"
  sm_itemCount :: int
  sm_parent :: "menu_id option"

record menu_system =
  ms_current :: menu_id
  ms_menus :: "menu_id \<Rightarrow> sub_menu"
  ms_index :: int

section \<open>WiFi\<close>

datatype wifi_mode = WIFI_MODE_NULL | WIFI_MODE_STA | WIFI_MODE_AP | WIFI_MODE_APSTA

type_synonym ip4 = "u8 \<times> u8 \<times> u8 \<times> u8"

text \<open>
  \<open>wf_mode\<close> and \<open>wf_ap_rssi\<close> are what the driver answers, \<open>None\<close> for an error; the event bits are
  those of \<open>s_wifi_event_group\<close>, \<open>wf_connects\<close> counts the calls of \<open>esp_wifi_connect\<close>.
\<close>

record wifi =
  wf_mode :: "wifi_mode option"
  wf_ap_rssi :: "int option"
  wf_ip :: ip4
  wf_retry_num :: int
  wf_connected_bit :: bool
  wf_fail_bit :: bool
  wf_connects :: nat
  wf_ap_netifs :: nat
  wf_sta_ssid :: string
  wf_sta_password :: string

section \<open>HTTP client\<close>

datatype http_method = HTTP_GET | HTTP_POST | HTTP_PUT | HTTP_PATCH

record request =
  rq_method :: http_method
  rq_url :: string
  rq_body :: "string option"

text \<open>
  The events of one request, each with what \<open>esp_http_client_get_url\<close> answers during it (\<open>None\<close>
  for an error), and the result of \<open>esp_http_client_perform\<close> with the status code. \<open>HTTP_EVENT_OTHER\<close> stands for
  the events the handler ignores (error, connected, headers, disconnected).
\<close>

datatype http_event =
    HTTP_EVENT_ON_DATA bool string "string option"
  | HTTP_EVENT_ON_FINISH "string option"
  | HTTP_EVENT_OTHER

record reply =
  rp_events :: "http_event list"
  rp_err :: esp_err
  rp_status :: int

section \<open>Tasks\<close>

datatype task = ButtonTask | DataFetchTask | DataProcessTask | AliveTask | ACSReadTask | FirebaseUpdateTask

datatype task_op = Create task | Suspend task | Resume task | DeleteTask task

section \<open>The whole state\<close>

text \<open>
  \<open>w_devices\<close> is the array behind \<open>devices\<close>, an entry \<open>None\<close> is memory that was never written; the
  arrays allocated so far are numbered, \<open>w_dev_gen\<close> is the number of the current one and \<open>w_freed\<close> holds
  those whose names are freed. \<open>w_junk\<close> is what \<open>malloc\<close> left in the pin of each entry, \<open>w_malloc_fails\<close>
  which allocations fail, \<open>w_json_fault\<close> those of the JSON printer, \<open>w_replies\<close> what the server answers to each request, \<open>w_tasks\<close> the calls made to
  the scheduler, \<open>w_clock\<close> the time as text.
\<close>

record world =
  w_btn :: btn_state
  w_lcd :: lcd_bus
  w_gpio :: gpio_dev
  w_nvs :: nvs
  w_wifi :: wifi
  w_menu :: menu_system
  w_url :: string
  w_urlSection :: string
  w_disp_url :: string
  w_events_url :: string
  w_device_id :: string
  w_firmwareVersion :: string
  w_wifiSsid :: string
  w_wifiPassword :: string
  w_rssi_str :: string
  w_linea :: string
  w_response :: "string option"
  w_devices :: "device option list option"
  w_deviceCount :: int
  w_dev_gen :: nat
  w_freed :: "nat set"
  w_currentDevice :: int
  w_currents :: "rat list"
  w_malloc_fails :: "nat \<Rightarrow> bool"
  w_mallocs :: nat
  w_json_fault :: "nat \<Rightarrow> bool"
  w_junk :: "nat \<Rightarrow> u32"
  w_replies :: "nat \<Rightarrow> reply"
  w_requests :: "request list"
  w_tasks :: "task_op list"
  w_clock :: string

definition wget :: "flag \<Rightarrow> world \<Rightarrow> bool" where
  "wget f w = bt_get f (w_btn w)"

definition wset :: "flag \<Rightarrow> bool \<Rightarrow> world \<Rightarrow> world" where
  "wset f b w = w\<lparr>w_btn := bt_set f b (w_btn w)\<rparr>"

definition on_lcd :: "(lcd_bus \<Rightarrow> lcd_bus) \<Rightarrow> world \<Rightarrow> world" where
  "on_lcd f w = w\<lparr>w_lcd := f (w_lcd w)\<rparr>"

definition task_do :: "task_op \<Rightarrow> world \<Rightarrow> world" where
  "task_do op w = w\<lparr>w_tasks := w_tasks w @ [op]\<rparr>"

text \<open>\<open>malloc\<close>: whether the next allocation succeeds.\<close>

definition malloc :: "world \<Rightarrow> bool \<times> world" where
  "malloc w = (\<not> w_malloc_fails w (w_mallocs w), w\<lparr>w_mallocs := Suc (w_mallocs w)\<rparr>)"

text \<open>The five calls that write two lines: clear, cursor, text, cursor, text.\<close>

definition show_lines :: "string \<Rightarrow> string \<Rightarrow> world \<Rightarrow> world" where
  "show_lines a b w = on_lcd (lcd_row 1 b \<circ> lcd_row 0 a \<circ> lcd_clear) w"

section \<open>The state at boot\<close>

text \<open>
  The initial values of the globals in \<open>main.cpp\<close>. The surroundings of this instance are quiet:
  empty storage without faults, no WiFi mode set, allocations that succeed, no HTTP reply.
\<close>

definition no_reply :: reply where
  "no_reply = \<lparr>rp_events = [], rp_err = ESP_FAIL, rp_status = 0\<rparr>"

definition lit_item :: "string \<Rightarrow> menu_function option \<Rightarrow> menu_item" where
  "lit_item s a = \<lparr>mi_name = Lit s, mi_action = a, mi_submenu = None\<rparr>"

definition option_items :: "menu_item list" where
  "option_items = [lit_item ''Option 1'' None, lit_item ''Option 2'' None, lit_item ''VOLVER'' (Some Volver)]"

fun boot_menus :: "menu_id \<Rightarrow> sub_menu" where
  "boot_menus MainMenu = \<lparr>sm_name = ''Main Menu'',
     sm_items = Some [lit_item ''Dispositivos'' (Some Submenu1Fn), lit_item ''SubMenu 2'' (Some Submenu2Fn),
       lit_item ''SubMenu 3'' (Some Submenu3Fn), lit_item ''VOLVER'' (Some Volver)],
     sm_itemCount = 4, sm_parent = None\<rparr>"
| "boot_menus Submenu1 = \<lparr>sm_name = ''Dispositivos'', sm_items = None, sm_itemCount = 0, sm_parent = None\<rparr>"
| "boot_menus Submenu2 = \<lparr>sm_name = ''SubMenu 2'', sm_items = Some option_items, sm_itemCount = 3,
     sm_parent = Some MainMenu\<rparr>"
| "boot_menus Submenu3 = \<lparr>sm_name = ''SubMenu 3'', sm_items = Some option_items, sm_itemCount = 3,
     sm_parent = Some MainMenu\<rparr>"

definition boot_world :: world where
  "boot_world =
     \<lparr>w_btn = \<lparr>bt_flags = flags_init, btnEnterDuration = 0, btnUpDuration = 0, btnDownDuration = 0,
               bt_samples = 0\<rparr>,
      w_lcd = \<lparr>i2c_tx = [], i2c_ret = (\<lambda>_. ESP_OK)\<rparr>,
      w_gpio = \<lparr>g_enable = 0, g_out = 0, g_out1 = 0, g_log = []\<rparr>,
      w_nvs = \<lparr>nv_ns = False, nv_str = Map.empty, nv_u8 = Map.empty, nv_fault = (\<lambda>_. ESP_OK), nv_calls = 0\<rparr>,
      w_wifi = \<lparr>wf_mode = None, wf_ap_rssi = None, wf_ip = (0, 0, 0, 0), wf_retry_num = 0,
               wf_connected_bit = False, wf_fail_bit = False, wf_connects = 0, wf_ap_netifs = 0,
               wf_sta_ssid = [], wf_sta_password = []\<rparr>,
      w_menu = \<lparr>ms_current = MainMenu, ms_menus = boot_menus, ms_index = 0\<rparr>,
      w_url = [], w_urlSection = [], w_disp_url = [], w_events_url = [], w_device_id = [],
      w_firmwareVersion = [], w_wifiSsid = [], w_wifiPassword = [], w_rssi_str = [], w_linea = [],
      w_response = None, w_devices = None, w_deviceCount = 0, w_dev_gen = 0, w_freed = {}, w_currentDevice = 0,
      w_currents = [0, 0, 0, 0], w_malloc_fails = (\<lambda>_. False), w_mallocs = 0, w_json_fault = (\<lambda>_. False),
      w_junk = (\<lambda>_. 0),
      w_replies = (\<lambda>_. no_reply), w_requests = [], w_tasks = [], w_clock = []\<rparr>"

section \<open>Facts\<close>

lemma wget_wset [simp]: "wget f (wset g b w) = (if f = g then b else wget f w)"
  by (simp add: wget_def wset_def)

lemma wset_frame [simp]:
  "w_lcd (wset f b w) = w_lcd w" "w_gpio (wset f b w) = w_gpio w" "w_nvs (wset f b w) = w_nvs w"
  "w_wifi (wset f b w) = w_wifi w" "w_menu (wset f b w) = w_menu w" "w_url (wset f b w) = w_url w"
  "w_urlSection (wset f b w) = w_urlSection w" "w_response (wset f b w) = w_response w"
  "w_devices (wset f b w) = w_devices w" "w_deviceCount (wset f b w) = w_deviceCount w"
  "w_dev_gen (wset f b w) = w_dev_gen w" "w_requests (wset f b w) = w_requests w"
  "w_tasks (wset f b w) = w_tasks w" "w_replies (wset f b w) = w_replies w"
  "w_events_url (wset f b w) = w_events_url w" "w_disp_url (wset f b w) = w_disp_url w"
  "w_freed (wset f b w) = w_freed w" "w_currentDevice (wset f b w) = w_currentDevice w"
  by (simp_all add: wset_def)

lemma wget_on_lcd [simp]: "wget f (on_lcd g w) = wget f w"
  by (simp add: wget_def on_lcd_def)

lemma wget_task_do [simp]: "wget f (task_do op w) = wget f w"
  by (simp add: wget_def task_do_def)

lemma on_lcd_frame [simp]:
  "w_gpio (on_lcd g w) = w_gpio w" "w_nvs (on_lcd g w) = w_nvs w" "w_url (on_lcd g w) = w_url w"
  "w_urlSection (on_lcd g w) = w_urlSection w" "w_response (on_lcd g w) = w_response w"
  "w_devices (on_lcd g w) = w_devices w" "w_deviceCount (on_lcd g w) = w_deviceCount w"
  "w_menu (on_lcd g w) = w_menu w" "w_requests (on_lcd g w) = w_requests w"
  "w_lcd (on_lcd g w) = g (w_lcd w)" "w_wifi (on_lcd g w) = w_wifi w" "w_tasks (on_lcd g w) = w_tasks w"
  "w_replies (on_lcd g w) = w_replies w" "w_dev_gen (on_lcd g w) = w_dev_gen w"
  "w_events_url (on_lcd g w) = w_events_url w" "w_disp_url (on_lcd g w) = w_disp_url w"
  "w_freed (on_lcd g w) = w_freed w" "w_currentDevice (on_lcd g w) = w_currentDevice w"
  by (simp_all add: on_lcd_def)

lemma show_lines_frame [simp]:
  "wget f (show_lines a b w) = wget f w" "w_gpio (show_lines a b w) = w_gpio w"
  "w_nvs (show_lines a b w) = w_nvs w" "w_url (show_lines a b w) = w_url w"
  "w_urlSection (show_lines a b w) = w_urlSection w" "w_response (show_lines a b w) = w_response w"
  "w_menu (show_lines a b w) = w_menu w" "w_devices (show_lines a b w) = w_devices w"
  "w_requests (show_lines a b w) = w_requests w" "w_wifi (show_lines a b w) = w_wifi w"
  "w_deviceCount (show_lines a b w) = w_deviceCount w" "w_tasks (show_lines a b w) = w_tasks w"
  "w_freed (show_lines a b w) = w_freed w" "w_dev_gen (show_lines a b w) = w_dev_gen w"
  by (simp_all add: show_lines_def)

end
