(* ===== verification/Wifi.thy ===== *)
theory Wifi
  imports World
begin

text \<open>
  \<open>main/wifi_utils.c\<close>: the connection state machine of \<open>event_handler\<close>, station and access point
  set-up, and \<open>printCurrentIP\<close>. The driver calls wrapped in \<open>ESP_ERROR_CHECK\<close> are taken to succeed.
  The interface registration of \<open>esp_netif\<close> matters to the access point and is modelled:
  \<open>wf_ap_netifs\<close> counts the registered interfaces with the key of the access point.
\<close>

section \<open>Queries\<close>

definition is_ap_mode :: "world \<Rightarrow> bool" where
  "is_ap_mode w =
     (case wf_mode (w_wifi w) of
        Some m \<Rightarrow> m = WIFI_MODE_AP \<or> m = WIFI_MODE_APSTA
      | None \<Rightarrow> False)"

definition get_wifi_signal_strength :: "world \<Rightarrow> world" where
  "get_wifi_signal_strength w =
     (case wf_ap_rssi (w_wifi w) of
        Some rssi \<Rightarrow> w\<lparr>w_rssi_str := dec_int rssi\<rparr>
      | None \<Rightarrow> w)"

definition ip_string :: "ip4 \<Rightarrow> string" where
  "ip_string ip =
     (case ip of (a, b, c, d) \<Rightarrow>
        dec_nat (unat a) @ ''.'' @ dec_nat (unat b) @ ''.'' @ dec_nat (unat c) @ ''.'' @ dec_nat (unat d))"

text \<open>The local variable \<open>mode\<close> is uninitialised when the driver answers with an error.\<close>

definition printCurrentIP :: "world \<Rightarrow> world option" where
  "printCurrentIP w =
     (case wf_mode (w_wifi w) of
        None \<Rightarrow> None
      | Some m \<Rightarrow>
          let w1 = on_lcd lcd_clear w;
              linea = snprintf_s 16 (ip_string (wf_ip (w_wifi w)))
          in if m = WIFI_MODE_STA then
               Some (on_lcd (lcd_row 1 linea) (on_lcd (lcd_row 0 ''WIFI CONECTADO'') w1))
             else if m = WIFI_MODE_AP then
               Some (on_lcd (lcd_row 1 linea) (on_lcd (lcd_row 0 ''AP CREADO'') w1))
             else Some w1)"

section \<open>Events\<close>

datatype wifi_event =
    WIFI_EVENT_STA_START
  | WIFI_EVENT_STA_DISCONNECTED
  | IP_EVENT_STA_GOT_IP ip4
  | WIFI_EVENT_AP_STACONNECTED
  | WIFI_EVENT_AP_STADISCONNECTED
  | WIFI_EVENT_OTHER

definition CONFIG_ESP_MAXIMUM_RETRY :: int where "CONFIG_ESP_MAXIMUM_RETRY = 5"

definition on_wifi :: "(wifi \<Rightarrow> wifi) \<Rightarrow> world \<Rightarrow> world" where
  "on_wifi f w = w\<lparr>w_wifi := f (w_wifi w)\<rparr>"

definition esp_wifi_connect :: "wifi \<Rightarrow> wifi" where
  "esp_wifi_connect s = s\<lparr>wf_connects := Suc (wf_connects s)\<rparr>"

definition event_handler :: "wifi_event \<Rightarrow> world \<Rightarrow> world option" where
  "event_handler ev w =
     (case ev of
        WIFI_EVENT_STA_START \<Rightarrow> Some (on_wifi esp_wifi_connect w)
      | WIFI_EVENT_STA_DISCONNECTED \<Rightarrow>
          if wf_retry_num (w_wifi w) < CONFIG_ESP_MAXIMUM_RETRY
          then Some (on_wifi (\<lambda>s. (esp_wifi_connect s)\<lparr>wf_retry_num := wf_retry_num s + 1\<rparr>) w)
          else Some (on_wifi (\<lambda>s. s\<lparr>wf_fail_bit := True\<rparr>) w)
      | IP_EVENT_STA_GOT_IP ip \<Rightarrow>
          map_option (on_wifi (\<lambda>s. s\<lparr>wf_retry_num := 0, wf_connected_bit := True\<rparr>))
            (printCurrentIP (on_wifi (\<lambda>s. s\<lparr>wf_ip := ip\<rparr>) w))
      | WIFI_EVENT_AP_STACONNECTED \<Rightarrow> Some w
      | WIFI_EVENT_AP_STADISCONNECTED \<Rightarrow> Some w
      | WIFI_EVENT_OTHER \<Rightarrow> Some w)"

section \<open>Access point and station\<close>

text \<open>
  \<open>esp_netif_create_default_wifi_ap\<close>: \<open>esp_netif_new\<close> refuses a key that is in use, and the result
  is asserted not to be null.
\<close>

definition esp_netif_create_default_wifi_ap :: "world \<Rightarrow> world option" where
  "esp_netif_create_default_wifi_ap w =
     (if 0 < wf_ap_netifs (w_wifi w) then None
      else Some (on_wifi (\<lambda>s. s\<lparr>wf_ap_netifs := Suc (wf_ap_netifs s)\<rparr>) w))"

definition wifi_init_softap :: "world \<Rightarrow> world option" where
  "wifi_init_softap w =
     Option.bind (esp_netif_create_default_wifi_ap w) (\<lambda>w1.
       let w2 = on_wifi (\<lambda>s. s\<lparr>wf_mode := Some WIFI_MODE_AP\<rparr>) w1
       in Option.bind (esp_netif_create_default_wifi_ap w2) printCurrentIP)"

text \<open>
  Waiting for one of the event bits while the events \<open>evs\<close> arrive; when they run out before a bit
  is set, the call is still blocked.
\<close>

datatype 'a wait = Blocked 'a | Crashed | Done 'a

fun wait_bits :: "wifi_event list \<Rightarrow> world \<Rightarrow> world wait" where
  "wait_bits evs w =
     (if wf_connected_bit (w_wifi w) \<or> wf_fail_bit (w_wifi w) then Done w
      else (case evs of
              [] \<Rightarrow> Blocked w
            | ev # evs' \<Rightarrow>
                (case event_handler ev w of None \<Rightarrow> Crashed | Some w' \<Rightarrow> wait_bits evs' w')))"

declare wait_bits.simps [simp del]

text \<open>
  \<open>strncpy\<close> fills the 32 and 64 byte fields of the configuration and adds no terminator when the
  credentials are that long.
\<close>

definition wifi_init_sta :: "wifi_event list \<Rightarrow> world \<Rightarrow> world wait" where
  "wifi_init_sta evs w =
     (let w1 = on_wifi (\<lambda>s. s\<lparr>wf_connected_bit := False, wf_fail_bit := False,
                  wf_sta_ssid := take 32 (w_wifiSsid w), wf_sta_password := take 64 (w_wifiPassword w),
                  wf_mode := Some WIFI_MODE_STA\<rparr>) w
      in case wait_bits evs w1 of
           Done w2 \<Rightarrow>
             if wf_connected_bit (w_wifi w2) then Done w2
             else (case wifi_init_softap (on_lcd (lcd_row 0 ''CREANDO AP'') w2) of
                     None \<Rightarrow> Crashed | Some w3 \<Rightarrow> Done w3)
         | r \<Rightarrow> r)"

section \<open>Facts\<close>

lemma dec_nat_byte: "length (dec_nat (unat (a::u8))) \<le> 3"
proof -
  have "unat a < 2 ^ 8" using unsigned_less [of a] by simp
  then have "unat a < 10 ^ 3" by simp
  then show ?thesis by (rule dec_nat_length) simp
qed

lemma ip_string_length: "length (ip_string ip) \<le> 15"
proof (cases ip)
  case (fields a b c d)
  then show ?thesis
    using dec_nat_byte [of a] dec_nat_byte [of b] dec_nat_byte [of c] dec_nat_byte [of d]
    by (simp add: ip_string_def)
qed

lemma ip_string_fits: "snprintf_s 16 (ip_string ip) = ip_string ip"
  by (rule snprintf_s_fits) (rule order.strict_trans1 [OF ip_string_length], simp)

lemma wifi_on_lcd [simp]: "w_wifi (on_lcd f w) = w_wifi w"
  by (simp add: on_lcd_def)

lemma wifi_on_wifi [simp]: "w_wifi (on_wifi f w) = f (w_wifi w)" "w_lcd (on_wifi f w) = w_lcd w"
  by (simp_all add: on_wifi_def)

lemma printCurrentIP_wifi:
  "printCurrentIP w = Some w' \<Longrightarrow> w_wifi w' = w_wifi w"
  "printCurrentIP w = None \<longleftrightarrow> wf_mode (w_wifi w) = None"
  by (auto simp: printCurrentIP_def Let_def split: option.splits if_splits)

lemma printCurrentIP_lines:
  "wf_mode (w_wifi w) = Some WIFI_MODE_STA \<Longrightarrow>
     printCurrentIP w = Some (show_lines ''WIFI CONECTADO'' (ip_string (wf_ip (w_wifi w))) w)"
  "wf_mode (w_wifi w) = Some WIFI_MODE_AP \<Longrightarrow>
     printCurrentIP w = Some (show_lines ''AP CREADO'' (ip_string (wf_ip (w_wifi w))) w)"
  by (simp_all add: printCurrentIP_def ip_string_fits show_lines_def on_lcd_def)

lemma show_lines_visible:
  assumes "dev_idle (dev_of_bus d (w_lcd w))" "length a \<le> 40" "length b \<le> 40"
  shows "visible (dev_of_bus d (w_lcd (show_lines a b w))) 0 = padded a"
    and "visible (dev_of_bus d (w_lcd (show_lines a b w))) 1 = padded b"
  using two_rows_visible [OF assms] by (simp_all add: show_lines_def)

section \<open>The connection state machine\<close>

inductive wifi_step :: "world \<Rightarrow> world \<Rightarrow> bool" where
  handled: "event_handler ev w = Some w' \<Longrightarrow> wifi_step w w'"

inductive wifi_reach :: "world \<Rightarrow> bool" where
  start: "wf_retry_num (w_wifi w) = 0 \<Longrightarrow> \<not> wf_fail_bit (w_wifi w) \<Longrightarrow> wifi_reach w"
| step: "wifi_reach w \<Longrightarrow> wifi_step w w' \<Longrightarrow> wifi_reach w'"

inductive_cases wifi_stepE: "wifi_step w w'"

lemma event_handler_wifi:
  assumes "event_handler ev w = Some w'"
  shows "w_wifi w' =
     (case ev of
        WIFI_EVENT_STA_START \<Rightarrow> esp_wifi_connect (w_wifi w)
      | WIFI_EVENT_STA_DISCONNECTED \<Rightarrow>
          if wf_retry_num (w_wifi w) < 5
          then (esp_wifi_connect (w_wifi w))\<lparr>wf_retry_num := wf_retry_num (w_wifi w) + 1\<rparr>
          else (w_wifi w)\<lparr>wf_fail_bit := True\<rparr>
      | IP_EVENT_STA_GOT_IP ip \<Rightarrow> (w_wifi w)\<lparr>wf_ip := ip, wf_retry_num := 0, wf_connected_bit := True\<rparr>
      | _ \<Rightarrow> w_wifi w)"
  using assms
  by (cases ev) (auto simp: event_handler_def CONFIG_ESP_MAXIMUM_RETRY_def split: if_splits
      dest!: printCurrentIP_wifi(1))

definition retry_inv :: "wifi \<Rightarrow> bool" where
  "retry_inv s \<longleftrightarrow> 0 \<le> wf_retry_num s \<and> wf_retry_num s \<le> 5"

lemma retry_inv_step: "wifi_step w w' \<Longrightarrow> retry_inv (w_wifi w) \<Longrightarrow> retry_inv (w_wifi w')"
  by (elim wifi_stepE, drule event_handler_wifi)
    (auto simp: retry_inv_def esp_wifi_connect_def split: wifi_event.splits)

lemma bits_step:
  "wifi_step w w' \<Longrightarrow> wf_connected_bit (w_wifi w) \<Longrightarrow> wf_connected_bit (w_wifi w')"
  "wifi_step w w' \<Longrightarrow> wf_fail_bit (w_wifi w) \<Longrightarrow> wf_fail_bit (w_wifi w')"
  by (elim wifi_stepE, drule event_handler_wifi,
      auto simp: esp_wifi_connect_def split: wifi_event.splits)+

lemma wait_bits_disconnects:
  assumes "retry_inv (w_wifi w)" "\<not> wf_connected_bit (w_wifi w)" "\<not> wf_fail_bit (w_wifi w)"
    and "int k \<le> 5 - wf_retry_num (w_wifi w)"
  shows "\<exists>w'. wait_bits (replicate k WIFI_EVENT_STA_DISCONNECTED @ evs) w = wait_bits evs w' \<and>
     w_wifi w' = (w_wifi w)\<lparr>wf_retry_num := wf_retry_num (w_wifi w) + int k, wf_connects := wf_connects (w_wifi w) + k\<rparr>"
  using assms
proof (induction k arbitrary: w)
  case 0
  then show ?case by (auto intro!: exI [of _ w])
next
  case (Suc k)
  let ?w1 = "on_wifi (\<lambda>s. (esp_wifi_connect s)\<lparr>wf_retry_num := wf_retry_num s + 1\<rparr>) w"
  have h: "event_handler WIFI_EVENT_STA_DISCONNECTED w = Some ?w1"
    using Suc.prems by (simp add: event_handler_def CONFIG_ESP_MAXIMUM_RETRY_def)
  have "\<exists>w'. wait_bits (replicate k WIFI_EVENT_STA_DISCONNECTED @ evs) ?w1 = wait_bits evs w' \<and>
     w_wifi w' = (w_wifi ?w1)\<lparr>wf_retry_num := wf_retry_num (w_wifi ?w1) + int k, wf_connects := wf_connects (w_wifi ?w1) + k\<rparr>"
    by (rule Suc.IH) (use Suc.prems in \<open>auto simp: retry_inv_def esp_wifi_connect_def\<close>)
  moreover have "wait_bits (replicate (Suc k) WIFI_EVENT_STA_DISCONNECTED @ evs) w =
      wait_bits (replicate k WIFI_EVENT_STA_DISCONNECTED @ evs) ?w1"
    using Suc.prems(2,3) by (subst wait_bits.simps) (simp add: h)
  ultimately show ?case
    by (auto simp: esp_wifi_connect_def algebra_simps)
qed

lemma softap_crashes: "wifi_init_softap w = None"
  by (simp add: wifi_init_softap_def esp_netif_create_default_wifi_ap_def Let_def)

section \<open>Properties\<close>

text \<open>
  In every state the events can lead to, the retry counter is between 0 and the maximum of 5,
  and a disconnection that finds it below 5 asks for one more connection instead of giving up.
\<close>

theorem wifi_retry_bounded:
  assumes "wifi_reach w"
  shows "0 \<le> wf_retry_num (w_wifi w) \<and> wf_retry_num (w_wifi w) \<le> CONFIG_ESP_MAXIMUM_RETRY"
proof -
  have "retry_inv (w_wifi w)"
    using assms by (induction rule: wifi_reach.induct) (auto simp: retry_inv_def dest: retry_inv_step)
  then show ?thesis by (simp add: retry_inv_def CONFIG_ESP_MAXIMUM_RETRY_def)
qed

theorem wifi_retry_bounded_witness:
  "\<exists>w1. event_handler WIFI_EVENT_STA_DISCONNECTED boot_world = Some w1 \<and>
     wf_retry_num (w_wifi w1) \<le> CONFIG_ESP_MAXIMUM_RETRY"
proof -
  obtain w1 where h: "event_handler WIFI_EVENT_STA_DISCONNECTED boot_world = Some w1"
    by (simp add: event_handler_def CONFIG_ESP_MAXIMUM_RETRY_def boot_world_def)
  have "wifi_reach boot_world" by (rule wifi_reach.start) (simp_all add: boot_world_def)
  then have "wifi_reach w1" by (rule wifi_reach.step) (rule wifi_step.handled [OF h])
  from wifi_retry_bounded [OF this] h show ?thesis by auto
qed

lemma wifi_init_sta_outcome_parts:
  assumes "wf_retry_num (w_wifi w) = 0"
  shows "k \<le> 5 \<Longrightarrow> \<exists>w'. wifi_init_sta (WIFI_EVENT_STA_START # replicate k WIFI_EVENT_STA_DISCONNECTED @
           IP_EVENT_STA_GOT_IP ip # evs) w = Done w' \<and>
         wf_connected_bit (w_wifi w') \<and> wf_ip (w_wifi w') = ip \<and> \<not> wf_fail_bit (w_wifi w') \<and>
         wf_connects (w_wifi w') = wf_connects (w_wifi w) + 1 + k"
    and "6 \<le> k \<Longrightarrow> wifi_init_sta (WIFI_EVENT_STA_START # replicate k WIFI_EVENT_STA_DISCONNECTED @ evs) w = Crashed"
proof -
  define w1 where "w1 = on_wifi (\<lambda>s. s\<lparr>wf_connected_bit := False, wf_fail_bit := False,
      wf_sta_ssid := take 32 (w_wifiSsid w), wf_sta_password := take 64 (w_wifiPassword w),
      wf_mode := Some WIFI_MODE_STA\<rparr>) w"
  define w2 where "w2 = on_wifi esp_wifi_connect w1"
  have b: "wait_bits (WIFI_EVENT_STA_START # es) w1 = wait_bits es w2" for es
    by (subst wait_bits.simps) (simp add: w1_def w2_def event_handler_def)
  have w2: "retry_inv (w_wifi w2)" "\<not> wf_connected_bit (w_wifi w2)" "\<not> wf_fail_bit (w_wifi w2)"
      "wf_retry_num (w_wifi w2) = 0" "wf_mode (w_wifi w2) = Some WIFI_MODE_STA"
      "wf_connects (w_wifi w2) = wf_connects (w_wifi w) + 1"
    using assms by (simp_all add: w1_def w2_def esp_wifi_connect_def retry_inv_def)
  note sta = wifi_init_sta_def [unfolded Let_def, of _ w, folded w1_def]
  show "\<exists>w'. wifi_init_sta (WIFI_EVENT_STA_START # replicate k WIFI_EVENT_STA_DISCONNECTED @
           IP_EVENT_STA_GOT_IP ip # evs) w = Done w' \<and>
         wf_connected_bit (w_wifi w') \<and> wf_ip (w_wifi w') = ip \<and> \<not> wf_fail_bit (w_wifi w') \<and>
         wf_connects (w_wifi w') = wf_connects (w_wifi w) + 1 + k" if "k \<le> 5"
  proof -
    obtain w3 where w3: "wait_bits (replicate k WIFI_EVENT_STA_DISCONNECTED @ IP_EVENT_STA_GOT_IP ip # evs) w2 =
          wait_bits (IP_EVENT_STA_GOT_IP ip # evs) w3"
        "w_wifi w3 = (w_wifi w2)\<lparr>wf_retry_num := int k, wf_connects := wf_connects (w_wifi w2) + k\<rparr>"
      using wait_bits_disconnects [OF w2(1-3), of k "IP_EVENT_STA_GOT_IP ip # evs"] \<open>k \<le> 5\<close> w2(4) by auto
    obtain w4 where w4: "event_handler (IP_EVENT_STA_GOT_IP ip) w3 = Some w4"
      using printCurrentIP_wifi(2) [of "on_wifi (\<lambda>s. s\<lparr>wf_ip := ip\<rparr>) w3"] w2(5)
      by (auto simp: event_handler_def w3(2))
    note e = event_handler_wifi [OF w4]
    have "wait_bits (IP_EVENT_STA_GOT_IP ip # evs) w3 = Done w4"
      using w2(2,3) by (subst wait_bits.simps) (simp add: w3(2) w4 wait_bits.simps [of evs w4] e)
    then have "wifi_init_sta (WIFI_EVENT_STA_START # replicate k WIFI_EVENT_STA_DISCONNECTED @
           IP_EVENT_STA_GOT_IP ip # evs) w = Done w4"
      by (simp add: sta b w3(1) e)
    then show ?thesis using w2(3,6) by (intro exI [of _ w4] conjI) (simp_all add: e w3(2))
  qed
  show "wifi_init_sta (WIFI_EVENT_STA_START # replicate k WIFI_EVENT_STA_DISCONNECTED @ evs) w = Crashed"
    if "6 \<le> k"
  proof -
    define j where "j = k - 6"
    have k: "k = 5 + Suc j" using \<open>6 \<le> k\<close> by (simp add: j_def)
    let ?es = "replicate j WIFI_EVENT_STA_DISCONNECTED @ evs"
    obtain w3 where w3: "wait_bits (replicate 5 WIFI_EVENT_STA_DISCONNECTED @ WIFI_EVENT_STA_DISCONNECTED # ?es) w2 =
          wait_bits (WIFI_EVENT_STA_DISCONNECTED # ?es) w3"
        "w_wifi w3 = (w_wifi w2)\<lparr>wf_retry_num := 5, wf_connects := wf_connects (w_wifi w2) + 5\<rparr>"
      using wait_bits_disconnects [OF w2(1-3), of 5 "WIFI_EVENT_STA_DISCONNECTED # ?es"] w2(4) by auto
    let ?w4 = "on_wifi (\<lambda>s. s\<lparr>wf_fail_bit := True\<rparr>) w3"
    have "event_handler WIFI_EVENT_STA_DISCONNECTED w3 = Some ?w4"
      by (simp add: event_handler_def w3(2) CONFIG_ESP_MAXIMUM_RETRY_def)
    then have "wait_bits (WIFI_EVENT_STA_DISCONNECTED # ?es) w3 = Done ?w4"
      using w2(2,3) by (subst wait_bits.simps) (simp add: w3(2) wait_bits.simps [of ?es ?w4])
    moreover have "replicate k WIFI_EVENT_STA_DISCONNECTED @ evs =
        replicate 5 WIFI_EVENT_STA_DISCONNECTED @ WIFI_EVENT_STA_DISCONNECTED # ?es"
      unfolding k replicate_add by simp
    ultimately show ?thesis
      using w2(2) by (simp add: sta b w3 softap_crashes)
  qed
qed

text \<open>
  C13. \<open>wifi_init_sta\<close> returns connected, with the address it was given, when an address arrives after
  at most five failed attempts; the sixth failure ends in the access point fallback, which never
  returns: see \<open>softap_never_starts\<close>.
\<close>

theorem wifi_init_sta_outcome:
  assumes "wf_retry_num (w_wifi w) = 0"
  shows "(k \<le> 5 \<longrightarrow> (\<exists>w'. wifi_init_sta (WIFI_EVENT_STA_START # replicate k WIFI_EVENT_STA_DISCONNECTED @
           IP_EVENT_STA_GOT_IP ip # evs) w = Done w' \<and>
         wf_connected_bit (w_wifi w') \<and> wf_ip (w_wifi w') = ip \<and> \<not> wf_fail_bit (w_wifi w') \<and>
         wf_connects (w_wifi w') = wf_connects (w_wifi w) + 1 + k)) \<and>
     (6 \<le> k \<longrightarrow> wifi_init_sta (WIFI_EVENT_STA_START # replicate k WIFI_EVENT_STA_DISCONNECTED @ evs) w = Crashed)"
  using wifi_init_sta_outcome_parts [OF assms] by blast

theorem wifi_init_sta_outcome_witness:
  "wifi_init_sta (WIFI_EVENT_STA_START # replicate 6 WIFI_EVENT_STA_DISCONNECTED @ []) boot_world = Crashed \<and>
   (\<exists>w'. wifi_init_sta (WIFI_EVENT_STA_START # replicate 2 WIFI_EVENT_STA_DISCONNECTED @
       IP_EVENT_STA_GOT_IP (10, 0, 0, 7) # []) boot_world = Done w' \<and> wf_ip (w_wifi w') = (10, 0, 0, 7))"
proof -
  have r: "wf_retry_num (w_wifi boot_world) = 0" by (simp add: boot_world_def)
  from wifi_init_sta_outcome [OF r, of 2 "(10, 0, 0, 7)" "[]"] wifi_init_sta_outcome [OF r, of 6 _ "[]"]
  show ?thesis by auto
qed

text \<open>
  \<open>wifi_init_softap\<close> never returns: it creates the default interface of the access point twice,
  and the second creation fails the assertion in \<open>esp_netif_create_default_wifi_ap\<close>.
\<close>

theorem softap_never_starts: "wifi_init_softap w = None"
  by (rule softap_crashes)

text \<open>
  No event clears the bit that says the station is connected: once set it stays set, also over
  any number of disconnections, so the tasks that test it do not notice the loss of the network.
\<close>

theorem connected_bit_never_cleared:
  assumes "wifi_step\<^sup>*\<^sup>* w w'" and "wf_connected_bit (w_wifi w)"
  shows "wf_connected_bit (w_wifi w')"
  using assms by (induction rule: rtranclp_induct) (auto dest: bits_step(1))

theorem connected_bit_never_cleared_witness:
  "\<exists>w1 w2. event_handler (IP_EVENT_STA_GOT_IP (10, 0, 0, 7)) (on_wifi (\<lambda>s. s\<lparr>wf_mode := Some WIFI_MODE_STA\<rparr>) boot_world) = Some w1 \<and>
     event_handler WIFI_EVENT_STA_DISCONNECTED w1 = Some w2 \<and> wf_connected_bit (w_wifi w2)"
proof -
  let ?w = "on_wifi (\<lambda>s. s\<lparr>wf_mode := Some WIFI_MODE_STA\<rparr>) boot_world"
  obtain w1 where h1: "event_handler (IP_EVENT_STA_GOT_IP (10, 0, 0, 7)) ?w = Some w1"
    by (simp add: event_handler_def printCurrentIP_def Let_def)
  have c: "wf_connected_bit (w_wifi w1)" using event_handler_wifi [OF h1] by simp
  obtain w2 where h2: "event_handler WIFI_EVENT_STA_DISCONNECTED w1 = Some w2"
    by (cases "wf_retry_num (w_wifi w1) < CONFIG_ESP_MAXIMUM_RETRY") (simp_all add: event_handler_def)
  have "wifi_step\<^sup>*\<^sup>* w1 w2" by (rule r_into_rtranclp) (rule wifi_step.handled [OF h2])
  from connected_bit_never_cleared [OF this c] h1 h2 show ?thesis by blast
qed

text \<open>
  \<open>printCurrentIP\<close> never cuts an address off: in station mode the display shows the title and
  the whole address.
\<close>

theorem printCurrentIP_shown:
  assumes "wf_mode (w_wifi w) = Some WIFI_MODE_STA" and "dev_idle (dev_of_bus d (w_lcd w))"
  shows "\<exists>w'. printCurrentIP w = Some w' \<and>
     visible (dev_of_bus d (w_lcd w')) 0 = padded ''WIFI CONECTADO'' \<and>
     visible (dev_of_bus d (w_lcd w')) 1 = padded (ip_string (wf_ip (w_wifi w))) \<and>
     length (ip_string (wf_ip (w_wifi w))) < 16"
  using printCurrentIP_lines(1) [OF assms(1)] show_lines_visible [OF assms(2)]
    ip_string_length [of "wf_ip (w_wifi w)"] by simp

theorem printCurrentIP_shown_witness:
  "\<exists>w'. printCurrentIP (on_wifi (\<lambda>s. s\<lparr>wf_mode := Some WIFI_MODE_STA\<rparr>) boot_world) = Some w' \<and>
     visible (dev_of_bus \<lparr>d_en = False, d_half = None, d_addr = 0, d_ram = (\<lambda>_. 0)\<rparr> (w_lcd w')) 0
       = padded ''WIFI CONECTADO''"
  using printCurrentIP_shown [of "on_wifi (\<lambda>s. s\<lparr>wf_mode := Some WIFI_MODE_STA\<rparr>) boot_world"
      "\<lparr>d_en = False, d_half = None, d_addr = 0, d_ram = (\<lambda>_. 0)\<rparr>"]
  by (auto simp: boot_world_def dev_of_bus_def dev_run_def dev_idle_def)

end
