(* ===== verification/Menu.thy ===== *)
theory Menu
  imports Wifi
begin

text \<open>
  \<open>main/menuTypes.c\<close> and the menu part of \<open>main/main.cpp\<close>: display and selection of menu items, the
  menu of devices that is rebuilt from the device array, and the navigation with the three buttons.
  The static variable \<open>currentMenuIndex\<close> of \<open>navigate_menu\<close> is \<open>ms_index\<close>; \<open>None\<close> is an access that C
  leaves undefined: a null pointer, an index out of the array, freed or uninitialised memory.
\<close>

section \<open>Access\<close>

definition current_menu :: "world \<Rightarrow> sub_menu" where
  "current_menu w = ms_menus (w_menu w) (ms_current (w_menu w))"

definition set_current :: "menu_id \<Rightarrow> world \<Rightarrow> world" where
  "set_current m w = w\<lparr>w_menu := (w_menu w)\<lparr>ms_current := m\<rparr>\<rparr>"

definition set_index :: "int \<Rightarrow> world \<Rightarrow> world" where
  "set_index i w = w\<lparr>w_menu := (w_menu w)\<lparr>ms_index := i\<rparr>\<rparr>"

definition set_menu :: "menu_id \<Rightarrow> (sub_menu \<Rightarrow> sub_menu) \<Rightarrow> world \<Rightarrow> world" where
  "set_menu m f w = w\<lparr>w_menu := (w_menu w)\<lparr>ms_menus := (ms_menus (w_menu w))(m := f (ms_menus (w_menu w) m))\<rparr>\<rparr>"

fun name_text :: "world \<Rightarrow> name_ref \<Rightarrow> string option" where
  "name_text w (Lit s) = Some s"
| "name_text w (DevName gen name) = (if gen \<in> w_freed w then None else name)"

definition at_index :: "'a list \<Rightarrow> int \<Rightarrow> 'a option" where
  "at_index xs i = (if 0 \<le> i \<and> i < int (length xs) then Some (xs ! nat i) else None)"

definition item_at :: "int \<Rightarrow> world \<Rightarrow> menu_item option" where
  "item_at i w = Option.bind (sm_items (current_menu w)) (\<lambda>items. at_index items i)"

definition device_at :: "int \<Rightarrow> world \<Rightarrow> device option" where
  "device_at i w = Option.bind (w_devices w) (\<lambda>ds. Option.bind (at_index ds i) (\<lambda>d. d))"

section \<open>displayMenu\<close>

fun display_items :: "int \<Rightarrow> nat list \<Rightarrow> world \<Rightarrow> world option" where
  "display_items selectedIndex [] w = Some w"
| "display_items selectedIndex (i # is) w =
     (if int i = selectedIndex
      then Option.bind (item_at (int i) w) (\<lambda>item.
           Option.bind (name_text w (mi_name item)) (\<lambda>name.
             display_items selectedIndex is (on_lcd (lcd_row 1 name) w)))
      else display_items selectedIndex is w)"

definition displayMenu :: "int \<Rightarrow> world \<Rightarrow> world option" where
  "displayMenu selectedIndex w =
     (let w1 = on_lcd lcd_clear w;
          w2 = on_lcd (lcd_row 0 (sm_name (current_menu w))) w1
      in display_items selectedIndex [0..<nat (sm_itemCount (current_menu w))] w2)"

section \<open>Actions\<close>

definition submenu1Fn :: "world \<Rightarrow> world option" where
  "submenu1Fn w = displayMenu 0 (set_current Submenu1 w)"

definition submenu2Fn :: "world \<Rightarrow> world option" where
  "submenu2Fn w = displayMenu 0 (set_current Submenu2 w)"

definition submenu3Fn :: "world \<Rightarrow> world option" where
  "submenu3Fn w = displayMenu 0 (set_current Submenu3 w)"

definition volver :: "world \<Rightarrow> world option" where
  "volver w =
     (if ms_current (w_menu w) = MainMenu then printCurrentIP w
      else (case sm_parent (current_menu w) of
              Some p \<Rightarrow> displayMenu 0 (set_current p w)
            | None \<Rightarrow> Some w))"

definition put_device :: "int \<Rightarrow> device \<Rightarrow> world \<Rightarrow> world" where
  "put_device i d w = w\<lparr>w_devices := map_option (\<lambda>ds. ds[nat i := Some d]) (w_devices w)\<rparr>"

text \<open>The state that is toggled is that of \<open>currentDeviceIndex\<close>, whatever item was selected.\<close>

definition deviceAction :: "world \<Rightarrow> world option" where
  "deviceAction w =
     Option.bind (device_at (w_currentDevice w) w) (\<lambda>dev.
       if d_type dev = ''relay'' then
         let dev' = dev\<lparr>d_state := \<not> d_state dev\<rparr>;
             w1 = put_device (w_currentDevice w) dev' w;
             w2 = w1\<lparr>w_gpio := snd (gpio_set_level (d_pin dev') (if d_state dev' then 1 else 0) (w_gpio w1))\<rparr>
         in Some (task_do (Create FirebaseUpdateTask) w2)
       else Some w)"

fun menu_action :: "menu_function \<Rightarrow> world \<Rightarrow> world option" where
  "menu_action Submenu1Fn w = submenu1Fn w"
| "menu_action Submenu2Fn w = submenu2Fn w"
| "menu_action Submenu3Fn w = submenu3Fn w"
| "menu_action Volver w = volver w"
| "menu_action DeviceAction w = deviceAction w"

definition initMenuSystem :: "world \<Rightarrow> world" where
  "initMenuSystem w = set_current MainMenu w"

definition selectMenuItem :: "int \<Rightarrow> world \<Rightarrow> world option" where
  "selectMenuItem index w =
     (if 0 \<le> index \<and> index < sm_itemCount (current_menu w)
      then Option.bind (item_at index w) (\<lambda>item. Option.bind (mi_action item) (\<lambda>f. menu_action f w))
      else Some w)"

section \<open>The menu of devices\<close>

definition free_devices_array :: "world \<Rightarrow> world option" where
  "free_devices_array w =
     (if w_devices w \<noteq> None then
        if list_all (\<lambda>i. device_at (int i) w \<noteq> None) [0..<nat (w_deviceCount w)]
        then Some (w\<lparr>w_freed := insert (w_dev_gen w) (w_freed w), w_devices := None, w_deviceCount := 0\<rparr>)
        else None
      else Some w)"

definition device_item :: "world \<Rightarrow> nat \<Rightarrow> menu_item option" where
  "device_item w i = map_option (\<lambda>d. \<lparr>mi_name = DevName (w_dev_gen w) (d_name d), mi_action = Some DeviceAction,
      mi_submenu = None\<rparr>) (device_at (int i) w)"

fun all_items :: "menu_item option list \<Rightarrow> menu_item list option" where
  "all_items [] = Some []"
| "all_items (x # xs) = Option.bind x (\<lambda>y. map_option ((#) y) (all_items xs))"

text \<open>
  The old array is freed first, so when the allocation fails the menu is left without a valid array
  but keeps its count. The field \<open>submenu\<close> of the new items is never set and never read, because they
  have actions.
\<close>

definition populate_device_menu :: "world \<Rightarrow> world option" where
  "populate_device_menu w =
     (let maxItems = w_deviceCount w + 1;
          w1 = set_menu Submenu1 (\<lambda>m. m\<lparr>sm_items := None\<rparr>) w
      in case malloc w1 of (ok, w2) \<Rightarrow>
           if \<not> ok then Some w2
           else Option.bind (all_items (map (device_item w2) [0..<nat (w_deviceCount w2)])) (\<lambda>its.
             let items = its @ [lit_item ''VOLVER'' (Some Volver)];
                 w3 = set_menu Submenu1 (\<lambda>m. m\<lparr>sm_items := Some items, sm_itemCount := maxItems\<rparr>) w2
             in if ms_current (w_menu w3) = Submenu1 then displayMenu 0 w3 else Some w3))"

section \<open>Navigation\<close>

definition navigate_up :: "world \<Rightarrow> world option" where
  "navigate_up w =
     (if wget BTN_UP_RELEASED w then
        let w1 = wset BTN_UP_RELEASED False w;
            i = ms_index (w_menu w1) - 1;
            i' = (if i < 0 then sm_itemCount (current_menu w1) - 1 else i)
        in displayMenu i' (set_index i' w1)
      else Some w)"

definition navigate_down :: "world \<Rightarrow> world option" where
  "navigate_down w =
     (if wget BTN_DOWN_RELEASED w then
        let w1 = wset BTN_DOWN_RELEASED False w;
            i = ms_index (w_menu w1) + 1;
            i' = (if i \<ge> sm_itemCount (current_menu w1) then 0 else i)
        in displayMenu i' (set_index i' w1)
      else Some w)"

definition navigate_enter :: "world \<Rightarrow> world option" where
  "navigate_enter w =
     (if wget BTN_ENTER_RELEASED w then
        let w1 = wset BTN_ENTER_RELEASED False w
        in Option.bind (item_at (ms_index (w_menu w1)) w1) (\<lambda>item.
           Option.bind (name_text w1 (mi_name item)) (\<lambda>name.
             if name = ''VOLVER'' then volver w1
             else (case mi_action item of
                     Some f \<Rightarrow> menu_action f w1
                   | None \<Rightarrow>
                       (case mi_submenu item of
                          Some m \<Rightarrow> displayMenu 0 (set_index 0 (set_current m w1))
                        | None \<Rightarrow> Some w1))))
      else Some w)"

definition navigate_menu :: "world \<Rightarrow> world option" where
  "navigate_menu w =
     Option.bind (navigate_up w) (\<lambda>w1. Option.bind (navigate_down w1) navigate_enter)"

section \<open>Facts\<close>

lemma menu_frame [simp]:
  "w_menu (on_lcd f w) = w_menu w" "current_menu (on_lcd f w) = current_menu w"
  "current_menu (wset g b w) = current_menu w" "current_menu (set_index i w) = current_menu w"
  "current_menu (set_current m w) = ms_menus (w_menu w) m"
  "ms_current (w_menu (set_current m w)) = m" "ms_menus (w_menu (set_current m w)) = ms_menus (w_menu w)"
  "ms_index (w_menu (set_current m w)) = ms_index (w_menu w)"
  "ms_index (w_menu (set_index i w)) = i" "ms_current (w_menu (set_index i w)) = ms_current (w_menu w)"
  "ms_menus (w_menu (set_index i w)) = ms_menus (w_menu w)"
  by (simp_all add: current_menu_def set_current_def set_index_def)

lemma set_frame [simp]:
  "w_lcd (set_current m w) = w_lcd w" "w_lcd (set_index i w) = w_lcd w"
  "w_devices (set_current m w) = w_devices w" "w_devices (set_index i w) = w_devices w"
  "w_freed (set_current m w) = w_freed w" "w_freed (set_index i w) = w_freed w"
  "w_wifi (set_current m w) = w_wifi w" "w_wifi (set_index i w) = w_wifi w"
  "w_currentDevice (set_current m w) = w_currentDevice w" "w_currentDevice (set_index i w) = w_currentDevice w"
  "wget f (set_current m w) = wget f w" "wget f (set_index i w) = wget f w"
  by (simp_all add: set_current_def set_index_def wget_def)

lemma name_text_cong: "w_freed w = w_freed w' \<Longrightarrow> name_text w n = name_text w' n"
  by (cases n) simp_all

lemma name_text_frame [simp]:
  "name_text (on_lcd f w) n = name_text w n" "name_text (wset g b w) n = name_text w n"
  "name_text (set_current m w) n = name_text w n" "name_text (set_index i w) n = name_text w n"
  by (rule name_text_cong, simp)+

lemma item_at_frame [simp]:
  "item_at i (on_lcd f w) = item_at i w" "item_at i (wset g b w) = item_at i w"
  "item_at i (set_index j w) = item_at i w"
  by (simp_all add: item_at_def)

text \<open>The loop of \<open>displayMenu\<close> writes one item at most.\<close>

lemma display_items_eq:
  "distinct is \<Longrightarrow> display_items sel is w =
     (if 0 \<le> sel \<and> nat sel \<in> set is
      then Option.bind (item_at sel w) (\<lambda>item.
           map_option (\<lambda>name. on_lcd (lcd_row 1 name) w) (name_text w (mi_name item)))
      else Some w)"
proof (induction "is" arbitrary: w)
  case Nil
  then show ?case by simp
next
  case (Cons i is')
  show ?case
  proof (cases "int i = sel")
    case True
    with Cons show ?thesis
      by (cases "item_at sel w"; cases "name_text w (mi_name (the (item_at sel w)))") auto
  next
    case False
    with Cons show ?thesis by auto
  qed
qed

lemma on_lcd_comp: "on_lcd f (on_lcd g w) = on_lcd (f \<circ> g) w"
  by (simp add: on_lcd_def)

lemma displayMenu_item:
  assumes "0 \<le> sel" "sel < sm_itemCount (current_menu w)"
    and "item_at sel w = Some item" "name_text w (mi_name item) = Some name"
  shows "displayMenu sel w = Some (show_lines (sm_name (current_menu w)) name w)"
proof -
  have "nat sel < nat (sm_itemCount (current_menu w))" using assms(1,2) by simp
  then show ?thesis
    using assms by (simp add: displayMenu_def display_items_eq show_lines_def on_lcd_comp comp_assoc)
qed

lemma displayMenu_dangling:
  assumes "0 \<le> sel" "sel < sm_itemCount (current_menu w)"
    and "item_at sel w = Some item" "name_text w (mi_name item) = None"
  shows "displayMenu sel w = None"
proof -
  have "nat sel < nat (sm_itemCount (current_menu w))" using assms(1,2) by simp
  then show ?thesis using assms by (simp add: displayMenu_def display_items_eq)
qed

lemma displayMenu_none:
  assumes "\<not> (0 \<le> sel \<and> sel < sm_itemCount (current_menu w))"
  shows "displayMenu sel w = Some (on_lcd (lcd_row 0 (sm_name (current_menu w)) \<circ> lcd_clear) w)"
  using assms by (auto simp: displayMenu_def display_items_eq on_lcd_comp nat_less_eq_zless)

lemma all_items_map:
  "(\<And>i. i \<in> set is \<Longrightarrow> f i = Some (g i)) \<Longrightarrow> all_items (map f is) = Some (map g is)"
  by (induction "is") simp_all

section \<open>Safety of the navigation\<close>

definition device_menu_ok :: "world \<Rightarrow> sub_menu \<Rightarrow> bool" where
  "device_menu_ok w m \<longleftrightarrow>
     (\<exists>its. sm_items m = Some its \<and> sm_itemCount m = int (length its) \<and> its \<noteq> [] \<and> length its \<le> 4 \<and>
        (\<forall>it\<in>set its. name_text w (mi_name it) \<noteq> None \<and> mi_action it \<in> {Some DeviceAction, Some Volver})) \<and>
     sm_parent m = Some MainMenu"

definition menu_inv :: "world \<Rightarrow> bool" where
  "menu_inv w \<longleftrightarrow>
     ms_menus (w_menu w) MainMenu = boot_menus MainMenu \<and>
     ms_menus (w_menu w) Submenu2 = boot_menus Submenu2 \<and>
     ms_menus (w_menu w) Submenu3 = boot_menus Submenu3 \<and>
     device_menu_ok w (ms_menus (w_menu w) Submenu1) \<and>
     0 \<le> ms_index (w_menu w) \<and> ms_index (w_menu w) < sm_itemCount (current_menu w) \<and>
     device_at (w_currentDevice w) w \<noteq> None \<and> wf_mode (w_wifi w) \<noteq> None"

lemma menu_inv_cong:
  assumes "w_menu w' = w_menu w" "w_freed w' = w_freed w" "w_currentDevice w' = w_currentDevice w"
    and "device_at (w_currentDevice w) w' \<noteq> None \<longleftrightarrow> device_at (w_currentDevice w) w \<noteq> None"
    and "w_wifi w' = w_wifi w"
  shows "menu_inv w' = menu_inv w"
  using assms name_text_cong [of w w']
  by (simp add: menu_inv_def device_menu_ok_def current_menu_def)

lemma device_at_frame [simp]:
  "device_at i (on_lcd f w) = device_at i w" "device_at i (wset g b w) = device_at i w"
  "device_at i (set_current m w) = device_at i w" "device_at i (set_index j w) = device_at i w"
  by (simp_all add: device_at_def)

lemma menu_inv_frame [simp]:
  "menu_inv (on_lcd f w) = menu_inv w" "menu_inv (wset g b w) = menu_inv w"
  by (rule menu_inv_cong, simp_all)+

lemma menu_inv_show [simp]: "menu_inv (show_lines a b w) = menu_inv w"
  by (simp add: show_lines_def)

lemma boot_items:
  "sm_itemCount (boot_menus MainMenu) = 4" "sm_itemCount (boot_menus Submenu2) = 3"
  "sm_itemCount (boot_menus Submenu3) = 3"
  by simp_all

lemma int_upto4: "0 \<le> (i::int) \<Longrightarrow> i < 4 \<Longrightarrow> i = 0 \<or> i = 1 \<or> i = 2 \<or> i = 3"
  by presburger

lemma menu_inv_item:
  assumes "menu_inv w" "0 \<le> i" "i < sm_itemCount (current_menu w)"
  shows "\<exists>item name. item_at i w = Some item \<and> name_text w (mi_name item) = Some name"
proof (cases "ms_current (w_menu w)")
  case Submenu1
  with assms obtain its where "sm_items (current_menu w) = Some its" "i < int (length its)"
      "\<forall>it\<in>set its. name_text w (mi_name it) \<noteq> None"
    by (auto simp: menu_inv_def device_menu_ok_def current_menu_def)
  then show ?thesis using assms(2) by (auto simp: item_at_def at_index_def nat_less_iff)
qed (use assms int_upto4 [of i] in
    \<open>auto simp: menu_inv_def current_menu_def item_at_def at_index_def lit_item_def option_items_def\<close>)

lemma displayMenu_inv:
  assumes "menu_inv w" "0 \<le> i" "i < sm_itemCount (current_menu w)"
  shows "\<exists>name. displayMenu i w = Some (show_lines (sm_name (current_menu w)) name w)"
  using menu_inv_item [OF assms] displayMenu_item [OF assms(2,3)] by blast

lemma menu_inv_index:
  "menu_inv w \<Longrightarrow> 0 \<le> i \<Longrightarrow> i < sm_itemCount (current_menu w) \<Longrightarrow> menu_inv (set_index i w)"
  by (simp add: menu_inv_def device_menu_ok_def)

lemma menu_inv_current:
  "menu_inv w \<Longrightarrow> ms_index (w_menu w) < sm_itemCount (ms_menus (w_menu w) m) \<Longrightarrow> menu_inv (set_current m w)"
  by (simp add: menu_inv_def device_menu_ok_def)

lemma menu_inv_counts:
  "menu_inv w \<Longrightarrow> 0 < sm_itemCount (ms_menus (w_menu w) m) \<and> sm_itemCount (ms_menus (w_menu w) m) \<le> 4"
  by (cases m) (auto simp: menu_inv_def device_menu_ok_def)

lemma navigate_up_safe:
  assumes "menu_inv w"
  shows "\<exists>w'. navigate_up w = Some w' \<and> menu_inv w'"
proof -
  let ?i = "ms_index (w_menu w)" and ?n = "sm_itemCount (current_menu w)"
  let ?j = "if ?i - 1 < 0 then ?n - 1 else ?i - 1"
  have "0 \<le> ?j" "?j < ?n" using assms by (auto simp: menu_inv_def)
  then have "menu_inv (set_index ?j (wset BTN_UP_RELEASED False w))"
    using assms by (intro menu_inv_index) simp_all
  moreover from this have "\<exists>s. displayMenu ?j (set_index ?j (wset BTN_UP_RELEASED False w)) =
      Some (show_lines (sm_name (current_menu w)) s (set_index ?j (wset BTN_UP_RELEASED False w)))"
    using displayMenu_inv [of "set_index ?j (wset BTN_UP_RELEASED False w)" ?j] \<open>0 \<le> ?j\<close> \<open>?j < ?n\<close> by simp
  ultimately show ?thesis using assms by (auto simp: navigate_up_def Let_def)
qed

lemma navigate_down_safe:
  assumes "menu_inv w"
  shows "\<exists>w'. navigate_down w = Some w' \<and> menu_inv w'"
proof -
  let ?i = "ms_index (w_menu w)" and ?n = "sm_itemCount (current_menu w)"
  let ?j = "if ?i + 1 \<ge> ?n then 0 else ?i + 1"
  have "0 \<le> ?j" "?j < ?n" using assms by (auto simp: menu_inv_def)
  then have "menu_inv (set_index ?j (wset BTN_DOWN_RELEASED False w))"
    using assms by (intro menu_inv_index) simp_all
  moreover from this have "\<exists>s. displayMenu ?j (set_index ?j (wset BTN_DOWN_RELEASED False w)) =
      Some (show_lines (sm_name (current_menu w)) s (set_index ?j (wset BTN_DOWN_RELEASED False w)))"
    using displayMenu_inv [of "set_index ?j (wset BTN_DOWN_RELEASED False w)" ?j] \<open>0 \<le> ?j\<close> \<open>?j < ?n\<close> by simp
  ultimately show ?thesis using assms by (auto simp: navigate_down_def Let_def)
qed

lemma printCurrentIP_on_lcd:
  "wf_mode (w_wifi w) \<noteq> None \<Longrightarrow> \<exists>g. printCurrentIP w = Some (on_lcd g w)"
  by (auto simp: printCurrentIP_def Let_def on_lcd_comp)

lemma menu_inv_goto:
  assumes "menu_inv w" "ms_index (w_menu w) < sm_itemCount (ms_menus (w_menu w) m)"
  shows "\<exists>w'. displayMenu 0 (set_current m w) = Some w' \<and> menu_inv w'"
  using displayMenu_inv [OF menu_inv_current [OF assms], of 0] menu_inv_current [OF assms]
    menu_inv_counts [OF assms(1)] by auto

lemma volver_safe:
  assumes "menu_inv w"
  shows "\<exists>w'. volver w = Some w' \<and> menu_inv w'"
proof (cases "ms_current (w_menu w) = MainMenu")
  case True
  then show ?thesis
    using assms printCurrentIP_on_lcd [of w] by (auto simp: volver_def menu_inv_def [of w])
next
  case False
  then have "sm_parent (current_menu w) = Some MainMenu"
    using assms by (cases "ms_current (w_menu w)") (auto simp: menu_inv_def device_menu_ok_def current_menu_def)
  moreover have "ms_index (w_menu w) < 4" "sm_itemCount (ms_menus (w_menu w) MainMenu) = 4"
    using assms menu_inv_counts [OF assms, of "ms_current (w_menu w)"]
    by (auto simp: menu_inv_def current_menu_def)
  ultimately show ?thesis
    using menu_inv_goto [OF assms, of MainMenu] False by (simp add: volver_def)
qed

lemma deviceAction_safe:
  assumes "menu_inv w"
  shows "\<exists>w'. deviceAction w = Some w' \<and> menu_inv w'"
proof -
  obtain d where d: "device_at (w_currentDevice w) w = Some d"
    using assms by (auto simp: menu_inv_def)
  let ?d = "d\<lparr>d_state := \<not> d_state d\<rparr>"
  let ?w = "task_do (Create FirebaseUpdateTask) ((put_device (w_currentDevice w) ?d w)
      \<lparr>w_gpio := snd (gpio_set_level (d_pin d) (if \<not> d_state d then 1 else 0) (w_gpio w))\<rparr>)"
  have "device_at (w_currentDevice w) ?w = Some ?d"
    using d by (auto simp: device_at_def put_device_def task_do_def at_index_def bind_eq_Some_conv split: if_splits)
  then have "menu_inv ?w = menu_inv w"
    by (intro menu_inv_cong) (simp_all add: task_do_def put_device_def d)
  moreover have "deviceAction w = Some (if d_type d = ''relay'' then ?w else w)"
    by (simp add: deviceAction_def d put_device_def)
  ultimately show ?thesis using assms by simp
qed

lemma navigate_enter_safe:
  assumes "menu_inv w"
  shows "\<exists>w'. navigate_enter w = Some w' \<and> menu_inv w'"
proof (cases "wget BTN_ENTER_RELEASED w")
  case True
  let ?w = "wset BTN_ENTER_RELEASED False w" and ?i = "ms_index (w_menu w)"
  have inv: "menu_inv ?w" using assms by simp
  have i: "0 \<le> ?i" "?i < sm_itemCount (current_menu w)" using assms by (simp_all add: menu_inv_def)
  obtain item name where it: "item_at ?i ?w = Some item" "name_text ?w (mi_name item) = Some name"
    using menu_inv_item [OF assms i] by auto
  let ?go = "case mi_action item of Some f \<Rightarrow> menu_action f ?w
      | None \<Rightarrow> (case mi_submenu item of Some m \<Rightarrow> displayMenu 0 (set_index 0 (set_current m ?w)) | None \<Rightarrow> Some ?w)"
  have opt: "mi_action item = None \<and> mi_submenu item = None"
    if "name \<noteq> ''VOLVER''" "sm_items (current_menu w) = Some option_items"
    using it that by (auto simp: item_at_def at_index_def option_items_def lit_item_def nth_Cons split: if_splits nat.splits)
  have option_menus: "ms_current (w_menu w) = Submenu2 \<or> ms_current (w_menu w) = Submenu3 \<Longrightarrow>
      sm_items (current_menu w) = Some option_items"
    using assms by (auto simp: menu_inv_def current_menu_def)
  have act: "\<exists>w'. ?go = Some w' \<and> menu_inv w'" if v: "name \<noteq> ''VOLVER''"
  proof (cases "ms_current (w_menu w)")
    case Submenu1
    with it inv obtain its where "sm_items (current_menu w) = Some its" "item \<in> set its"
      "\<forall>it\<in>set its. mi_action it \<in> {Some DeviceAction, Some Volver}"
      by (auto simp: menu_inv_def device_menu_ok_def current_menu_def item_at_def at_index_def split: if_splits)
    then show ?thesis using volver_safe [OF inv] deviceAction_safe [OF inv] by auto
  next
    case MainMenu
    then have "sm_items (current_menu w) = sm_items (boot_menus MainMenu)"
      using assms by (simp add: menu_inv_def current_menu_def)
    moreover have "?i = 0 \<or> ?i = 1 \<or> ?i = 2 \<or> ?i = 3"
      using i MainMenu assms by (intro int_upto4) (auto simp: menu_inv_def current_menu_def)
    moreover have "?i < sm_itemCount (ms_menus (w_menu ?w) m)" if "?i = 0 \<or> (?i < 3 \<and> m \<noteq> Submenu1)" for m
      using that inv menu_inv_counts [OF inv, of m] by (cases m) (auto simp: menu_inv_def)
    ultimately show ?thesis
      using it v menu_inv_goto [OF inv]
      by (auto simp: item_at_def at_index_def lit_item_def submenu1Fn_def submenu2Fn_def submenu3Fn_def)
  qed (use opt [OF v] inv option_menus in simp_all)
  show ?thesis
    using volver_safe [OF inv] act it True
    by (cases "name = ''VOLVER''") (auto simp: navigate_enter_def Let_def)
qed (use assms in \<open>simp add: navigate_enter_def\<close>)

lemma navigate_menu_safe:
  assumes "menu_inv w"
  shows "\<exists>w'. navigate_menu w = Some w' \<and> menu_inv w'"
proof -
  obtain w1 where "navigate_up w = Some w1" "menu_inv w1" using navigate_up_safe [OF assms] by blast
  moreover obtain w2 where "navigate_down w1 = Some w2" "menu_inv w2"
    using navigate_down_safe [OF \<open>menu_inv w1\<close>] by blast
  ultimately show ?thesis using navigate_enter_safe [of w2] by (simp add: navigate_menu_def)
qed

text \<open>The buttons are released in any order and number between two rounds of the navigation.\<close>

inductive menu_step :: "world \<Rightarrow> world \<Rightarrow> bool" where
  release: "menu_step w (wset (btn_released_flag b) True w)"
| navigate: "navigate_menu w = Some w' \<Longrightarrow> menu_step w w'"

inductive_cases menu_stepE: "menu_step w w'"

lemma menu_step_inv: "menu_step w w' \<Longrightarrow> menu_inv w \<Longrightarrow> menu_inv w'"
  by (elim menu_stepE) (use navigate_menu_safe in fastforce)+

lemma only_enter:
  "\<not> wget BTN_UP_RELEASED w \<Longrightarrow> \<not> wget BTN_DOWN_RELEASED w \<Longrightarrow> navigate_menu w = navigate_enter w"
  by (simp add: navigate_menu_def navigate_up_def navigate_down_def)

lemma device_item_live:
  assumes "w_devices w = Some (map Some ds)" "i < length ds"
  shows "device_item w i = Some \<lparr>mi_name = DevName (w_dev_gen w) (d_name (ds ! i)),
     mi_action = Some DeviceAction, mi_submenu = None\<rparr>"
  using assms by (simp add: device_item_def device_at_def at_index_def)

definition device_items :: "nat \<Rightarrow> device list \<Rightarrow> menu_item list" where
  "device_items gen ds = map (\<lambda>d. \<lparr>mi_name = DevName gen (d_name d), mi_action = Some DeviceAction,
     mi_submenu = None\<rparr>) ds @ [lit_item ''VOLVER'' (Some Volver)]"

lemma all_device_items:
  assumes "w_devices w = Some (map Some ds)"
  shows "Option.bind (all_items (map (device_item w) [0..<length ds])) (\<lambda>its. Some (its @ [lit_item ''VOLVER'' (Some Volver)]))
     = Some (device_items (w_dev_gen w) ds)"
proof -
  have "all_items (map (device_item w) [0..<length ds]) =
      Some (map (\<lambda>i. \<lparr>mi_name = DevName (w_dev_gen w) (d_name (ds ! i)), mi_action = Some DeviceAction,
     mi_submenu = None\<rparr>) [0..<length ds])"
    by (rule all_items_map) (simp add: device_item_live [OF assms])
  also have "\<dots> = Some (map (\<lambda>d. \<lparr>mi_name = DevName (w_dev_gen w) (d_name d), mi_action = Some DeviceAction,
     mi_submenu = None\<rparr>) ds)"
    by (intro arg_cong [where f = Some] nth_equalityI) simp_all
  finally show ?thesis by (simp add: device_items_def)
qed

definition populated :: "device list \<Rightarrow> world \<Rightarrow> world" where
  "populated ds w = set_menu Submenu1 (\<lambda>m. m\<lparr>sm_items := Some (device_items (w_dev_gen w) ds),
     sm_itemCount := int (length ds) + 1\<rparr>) (w\<lparr>w_mallocs := Suc (w_mallocs w)\<rparr>)"

lemma populate_eq:
  assumes "w_devices w = Some (map Some ds)" "w_deviceCount w = int (length ds)"
    and "\<not> w_malloc_fails w (w_mallocs w)"
  shows "populate_device_menu w =
     (if ms_current (w_menu w) = Submenu1 then displayMenu 0 (populated ds w) else Some (populated ds w))"
proof -
  let ?w = "(set_menu Submenu1 (\<lambda>m. m\<lparr>sm_items := None\<rparr>) w)\<lparr>w_mallocs := Suc (w_mallocs w)\<rparr>"
  have d: "w_devices ?w = Some (map Some ds)" using assms by (simp add: set_menu_def)
  obtain its where its: "all_items (map (device_item ?w) [0..<length ds]) = Some its"
      "its @ [lit_item ''VOLVER'' (Some Volver)] = device_items (w_dev_gen ?w) ds"
    using all_device_items [OF d] by (auto simp: bind_eq_Some_conv)
  have m: "malloc (set_menu Submenu1 (\<lambda>m. m\<lparr>sm_items := None\<rparr>) w) = (True, ?w)"
    using assms by (simp add: malloc_def set_menu_def)
  have "set_menu Submenu1 (\<lambda>m. m\<lparr>sm_items := Some (device_items (w_dev_gen ?w) ds), sm_itemCount := w_deviceCount w + 1\<rparr>) ?w
      = populated ds w"
    using assms by (simp add: populated_def set_menu_def)
  moreover have "w_deviceCount ?w = int (length ds)" "ms_current (w_menu (populated ds w)) = ms_current (w_menu w)"
    using assms by (simp_all add: set_menu_def populated_def)
  ultimately show ?thesis
    unfolding populate_device_menu_def m Let_def by (simp add: its)
qed

lemma set_menu_frame [simp]:
  "wget f (set_menu m g w) = wget f w" "ms_current (w_menu (set_menu m g w)) = ms_current (w_menu w)"
  "ms_menus (w_menu (set_menu m g w)) = (ms_menus (w_menu w))(m := g (ms_menus (w_menu w) m))"
  "w_freed (set_menu m g w) = w_freed w" "ms_index (w_menu (set_menu m g w)) = ms_index (w_menu w)"
  by (simp_all add: set_menu_def wget_def)

section \<open>An instance\<close>

text \<open>One relay on pin 23, the menu populated, the station connected: the state after a first start.\<close>

definition relay0 :: device where
  "relay0 = \<lparr>d_name = Some ''Luz'', d_id = 0, d_pin = 23, d_state = False, d_type = ''relay''\<rparr>"

definition ready_world :: world where
  "ready_world = populated [relay0]
     (set_menu Submenu1 (\<lambda>m. m\<lparr>sm_parent := Some MainMenu\<rparr>)
       (boot_world\<lparr>w_devices := Some [Some relay0], w_deviceCount := 1,
          w_wifi := (w_wifi boot_world)\<lparr>wf_mode := Some WIFI_MODE_STA\<rparr>\<rparr>))"

lemma ready_fields [simp]:
  "w_devices ready_world = Some [Some relay0]" "w_freed ready_world = {}" "w_currentDevice ready_world = 0"
  "w_deviceCount ready_world = 1" "w_malloc_fails ready_world n = False"
  "wf_mode (w_wifi ready_world) = Some WIFI_MODE_STA" "w_lcd ready_world = w_lcd boot_world"
  "ms_current (w_menu ready_world) = MainMenu" "ms_index (w_menu ready_world) = 0"
  "w_btn ready_world = w_btn boot_world"
  by (simp_all add: ready_world_def populated_def set_menu_def boot_world_def)

lemma ready_menus [simp]:
  "m \<noteq> Submenu1 \<Longrightarrow> ms_menus (w_menu ready_world) m = boot_menus m"
  "ms_menus (w_menu ready_world) Submenu1 = \<lparr>sm_name = ''Dispositivos'', sm_items = Some (device_items 0 [relay0]),
     sm_itemCount = 2, sm_parent = Some MainMenu\<rparr>"
  by (simp_all add: ready_world_def populated_def set_menu_def boot_world_def)

lemma ready_menu_inv [simp]: "menu_inv ready_world"
  by (simp add: menu_inv_def device_menu_ok_def current_menu_def device_at_def at_index_def device_items_def
      lit_item_def relay0_def)

lemma ready_flags: "wget f ready_world = False"
  by (simp add: wget_def boot_world_def)

section \<open>Properties\<close>

text \<open>
  C8. With at most three devices in their menu, no sequence of button releases and navigation rounds
  reaches an item outside of its array, a freed name or a null action: from a state that satisfies
  \<open>menu_inv\<close> the navigation always returns.
\<close>

theorem menu_navigation_safe:
  assumes "menu_step\<^sup>*\<^sup>* w w'" and "menu_inv w"
  shows "\<exists>w''. navigate_menu w' = Some w''"
proof -
  have "menu_inv w'"
    using assms by (induction rule: rtranclp_induct) (auto dest: menu_step_inv)
  then show ?thesis using navigate_menu_safe by blast
qed

theorem menu_navigation_safe_witness:
  "\<exists>w''. navigate_menu (wset (btn_released_flag ENTER) True (wset (btn_released_flag UP) True ready_world)) = Some w''"
proof -
  have "menu_step\<^sup>*\<^sup>* ready_world (wset (btn_released_flag ENTER) True (wset (btn_released_flag UP) True ready_world))"
    by (rule rtranclp.rtrancl_into_rtrancl [OF r_into_rtranclp]) (rule menu_step.release)+
  then show ?thesis by (rule menu_navigation_safe) simp
qed

text \<open>
  C39. With four devices or more the menu of devices has an item \<open>VOLVER\<close> at index 4 or above. Selecting
  it shows the main menu, but the index stays, so the next press of ENTER reads behind the four items
  of the main menu.
\<close>

theorem volver_leaves_index_out_of_range:
  assumes "ms_current (w_menu w) = Submenu1" "sm_parent (current_menu w) = Some MainMenu"
    and "ms_menus (w_menu w) MainMenu = boot_menus MainMenu"
    and "sm_items (current_menu w) = Some (device_items gen ds)" "4 \<le> length ds"
    and "ms_index (w_menu w) = int (length ds)"
    and "wget BTN_ENTER_RELEASED w" "\<not> wget BTN_UP_RELEASED w" "\<not> wget BTN_DOWN_RELEASED w"
  shows "\<exists>w'. navigate_menu w = Some w' \<and> ms_current (w_menu w') = MainMenu \<and>
     navigate_menu (wset BTN_ENTER_RELEASED True w') = None"
proof -
  let ?w = "set_current MainMenu (wset BTN_ENTER_RELEASED False w)"
  let ?w' = "show_lines ''Main Menu'' ''Dispositivos'' ?w"
  have "item_at (int (length ds)) w = Some (lit_item ''VOLVER'' (Some Volver))"
    using assms by (simp add: item_at_def at_index_def device_items_def nth_append)
  moreover have "displayMenu 0 ?w = Some ?w'"
    using displayMenu_item [of 0 ?w "lit_item ''Dispositivos'' (Some Submenu1Fn)" "''Dispositivos''"] assms(3)
    by (simp add: item_at_def at_index_def lit_item_def)
  ultimately have "navigate_menu w = Some ?w'"
    using assms by (simp add: only_enter navigate_enter_def volver_def lit_item_def)
  moreover have "navigate_menu (wset BTN_ENTER_RELEASED True ?w') = None"
    using assms by (simp add: only_enter navigate_enter_def show_lines_def item_at_def at_index_def)
  ultimately show ?thesis by (simp add: show_lines_def)
qed

theorem volver_leaves_index_out_of_range_witness:
  "\<exists>w w'. navigate_menu w = Some w' \<and> navigate_menu (wset BTN_ENTER_RELEASED True w') = None"
proof -
  let ?w = "wset BTN_ENTER_RELEASED True (set_index 4 (set_current Submenu1
      (set_menu Submenu1 (\<lambda>m. m\<lparr>sm_items := Some (device_items 0 (replicate 4 relay0)), sm_itemCount := 5\<rparr>) ready_world)))"
  show ?thesis
    using volver_leaves_index_out_of_range [of ?w 0 "replicate 4 relay0"]
    by (auto simp: ready_flags)
qed

text \<open>
  UP and DOWN step through the items of the current menu in a circle, and the display shows
  the name of the menu and the name of the item that is now selected.
\<close>

theorem menu_wraps_around:
  assumes "menu_inv w" and "\<not> wget BTN_ENTER_RELEASED w"
    and "wget BTN_UP_RELEASED w \<longleftrightarrow> \<not> wget BTN_DOWN_RELEASED w"
    and "j = (ms_index (w_menu w) + (if wget BTN_UP_RELEASED w then -1 else 1)) mod sm_itemCount (current_menu w)"
    and "item_at j w = Some item" "name_text w (mi_name item) = Some name"
    and "length name \<le> 40" "length (sm_name (current_menu w)) \<le> 40" "dev_idle (dev_of_bus d (w_lcd w))"
  shows "\<exists>w'. navigate_menu w = Some w' \<and> ms_index (w_menu w') = j \<and>
     ms_current (w_menu w') = ms_current (w_menu w) \<and>
     \<not> wget BTN_UP_RELEASED w' \<and> \<not> wget BTN_DOWN_RELEASED w' \<and>
     visible (dev_of_bus d (w_lcd w')) 0 = padded (sm_name (current_menu w)) \<and>
     visible (dev_of_bus d (w_lcd w')) 1 = padded name"
proof -
  let ?i = "ms_index (w_menu w)" and ?n = "sm_itemCount (current_menu w)"
  define f where "f = (if wget BTN_UP_RELEASED w then BTN_UP_RELEASED else BTN_DOWN_RELEASED)"
  let ?w = "set_index j (wset f False w)"
  let ?w' = "show_lines (sm_name (current_menu w)) name ?w"
  have i: "0 \<le> ?i" "?i < ?n" using assms(1) by (simp_all add: menu_inv_def)
  have up: "(if ?i - 1 < 0 then ?n - 1 else ?i - 1) = (?i - 1) mod ?n"
    using i by (cases "?i = 0") (simp_all add: zmod_minus1)
  have down: "(if ?i + 1 \<ge> ?n then 0 else ?i + 1) = (?i + 1) mod ?n"
    using i by (cases "?i + 1 = ?n") simp_all
  have "0 \<le> j" "j < ?n" using i assms(4) by simp_all
  then have "displayMenu j ?w = Some ?w'"
    using displayMenu_item [of j ?w item name] assms(5,6) by simp
  then have "navigate_menu w = Some ?w'"
    using assms(2,3,4) up down
    by (auto simp: navigate_menu_def navigate_up_def navigate_down_def navigate_enter_def f_def Let_def)
  moreover have "w_lcd ?w = w_lcd w" by simp
  ultimately show ?thesis
    using show_lines_visible [of d ?w "sm_name (current_menu w)" name] assms(3,7-9)
    by (auto simp: f_def)
qed

theorem menu_wraps_around_witness:
  "\<exists>w'. navigate_menu (wset BTN_UP_RELEASED True ready_world) = Some w' \<and>
     visible (dev_of_bus \<lparr>d_en = False, d_half = None, d_addr = 0, d_ram = (\<lambda>_. 0)\<rparr> (w_lcd w')) 1 = padded ''VOLVER''"
  using menu_wraps_around [of "wset BTN_UP_RELEASED True ready_world" 3 "lit_item ''VOLVER'' (Some Volver)" "''VOLVER''"
      "\<lparr>d_en = False, d_half = None, d_addr = 0, d_ram = (\<lambda>_. 0)\<rparr>"]
  by (auto simp: ready_flags current_menu_def item_at_def at_index_def lit_item_def boot_world_def
      dev_of_bus_def dev_run_def dev_idle_def)

text \<open>
  Entering a submenu shows its first item but keeps the index of the item that led there: in
  \<open>SubMenu 3\<close> the display shows \<open>Option 1\<close>, and the next press of ENTER executes the item with index
  2, \<open>VOLVER\<close>, which goes back to the main menu.
\<close>

theorem shown_item_is_not_selected:
  assumes "ms_current (w_menu w) = MainMenu" "ms_index (w_menu w) = 2"
    and "\<And>m. m \<noteq> Submenu1 \<Longrightarrow> ms_menus (w_menu w) m = boot_menus m"
    and "wget BTN_ENTER_RELEASED w" "\<not> wget BTN_UP_RELEASED w" "\<not> wget BTN_DOWN_RELEASED w"
    and "dev_idle (dev_of_bus d (w_lcd w))"
  shows "\<exists>w1 w2. navigate_menu w = Some w1 \<and> ms_current (w_menu w1) = Submenu3 \<and>
     visible (dev_of_bus d (w_lcd w1)) 1 = padded ''Option 1'' \<and>
     navigate_menu (wset BTN_ENTER_RELEASED True w1) = Some w2 \<and> ms_current (w_menu w2) = MainMenu"
proof -
  let ?w1 = "show_lines ''SubMenu 3'' ''Option 1'' (set_current Submenu3 (wset BTN_ENTER_RELEASED False w))"
  let ?w2 = "show_lines ''Main Menu'' ''Dispositivos'' (set_current MainMenu (wset BTN_ENTER_RELEASED False
      (wset BTN_ENTER_RELEASED True ?w1)))"
  have "displayMenu 0 (set_current Submenu3 (wset BTN_ENTER_RELEASED False w)) = Some ?w1"
    using displayMenu_item [of 0 "set_current Submenu3 (wset BTN_ENTER_RELEASED False w)" "lit_item ''Option 1'' None" "''Option 1''"]
      assms(3) by (simp add: item_at_def at_index_def lit_item_def option_items_def)
  then have 1: "navigate_menu w = Some ?w1"
    using assms by (simp add: only_enter navigate_enter_def item_at_def current_menu_def at_index_def lit_item_def submenu3Fn_def)
  have "displayMenu 0 (set_current MainMenu (wset BTN_ENTER_RELEASED False (wset BTN_ENTER_RELEASED True ?w1))) = Some ?w2"
    using displayMenu_item [of 0 "set_current MainMenu (wset BTN_ENTER_RELEASED False (wset BTN_ENTER_RELEASED True ?w1))"
        "lit_item ''Dispositivos'' (Some Submenu1Fn)" "''Dispositivos''"] assms(3)
    by (simp add: item_at_def at_index_def lit_item_def)
  then have 2: "navigate_menu (wset BTN_ENTER_RELEASED True ?w1) = Some ?w2"
    using assms by (simp add: only_enter navigate_enter_def item_at_def current_menu_def at_index_def
        lit_item_def volver_def option_items_def)
  show ?thesis
    using show_lines_visible(2) [of d "set_current Submenu3 (wset BTN_ENTER_RELEASED False w)" "''SubMenu 3''" "''Option 1''"]
      assms(7) by (intro exI [of _ ?w1] exI [of _ ?w2]) (simp add: 1 2)
qed

theorem shown_item_is_not_selected_witness:
  "\<exists>w1 w2. navigate_menu (wset BTN_ENTER_RELEASED True (set_index 2 ready_world)) = Some w1 \<and>
     ms_current (w_menu w1) = Submenu3 \<and>
     navigate_menu (wset BTN_ENTER_RELEASED True w1) = Some w2 \<and> ms_current (w_menu w2) = MainMenu"
  using shown_item_is_not_selected [of "wset BTN_ENTER_RELEASED True (set_index 2 ready_world)"
      "\<lparr>d_en = False, d_half = None, d_addr = 0, d_ram = (\<lambda>_. 0)\<rparr>"]
  by (auto simp: ready_flags boot_world_def dev_of_bus_def dev_run_def dev_idle_def)

text \<open>
  C31. \<open>populate_device_menu\<close> lists the devices by name, in the order of the array, followed by
  \<open>VOLVER\<close>. Once the devices are freed, every one of these names is freed memory: showing any of
  the device items is undefined until the menu is populated again.
\<close>

theorem device_menu_lifetime:
  assumes "w_devices w = Some (map Some ds)" "w_deviceCount w = int (length ds)"
    and "\<not> w_malloc_fails w (w_mallocs w)" "ms_current (w_menu w) \<noteq> Submenu1"
    and "w_dev_gen w \<notin> w_freed w"
  shows "\<exists>w1 w2 items. populate_device_menu w = Some w1 \<and>
     sm_items (ms_menus (w_menu w1) Submenu1) = Some items \<and>
     sm_itemCount (ms_menus (w_menu w1) Submenu1) = int (length items) \<and>
     map (name_text w1 \<circ> mi_name) items = map d_name ds @ [Some ''VOLVER''] \<and>
     map mi_action items = replicate (length ds) (Some DeviceAction) @ [Some Volver] \<and>
     free_devices_array w1 = Some w2 \<and>
     (\<forall>i<length ds. displayMenu (int i) (set_current Submenu1 w2) = None)"
proof -
  let ?w1 = "populated ds w" and ?its = "device_items (w_dev_gen w) ds"
  let ?w2 = "?w1\<lparr>w_freed := insert (w_dev_gen w) (w_freed w), w_devices := None, w_deviceCount := 0\<rparr>"
  have d: "w_devices ?w1 = Some (map Some ds)" "w_deviceCount ?w1 = int (length ds)"
      "w_dev_gen ?w1 = w_dev_gen w" "w_freed ?w1 = w_freed w"
    using assms by (simp_all add: populated_def set_menu_def)
  have "free_devices_array ?w1 = Some ?w2"
    using d by (auto simp: free_devices_array_def list_all_iff device_at_def at_index_def)
  moreover have "displayMenu (int i) (set_current Submenu1 ?w2) = None" if "i < length ds" for i
    using that
    by (intro displayMenu_dangling [of _ _ "?its ! i"])
      (simp_all add: item_at_def populated_def set_menu_def at_index_def device_items_def nth_append)
  moreover have "map (name_text ?w1 \<circ> mi_name) ?its = map d_name ds @ [Some ''VOLVER'']"
    using assms(5) d by (simp add: device_items_def lit_item_def)
  moreover have "sm_items (ms_menus (w_menu ?w1) Submenu1) = Some ?its"
      "sm_itemCount (ms_menus (w_menu ?w1) Submenu1) = int (length ?its)"
    by (simp_all add: populated_def device_items_def)
  moreover have "map mi_action ?its = replicate (length ds) (Some DeviceAction) @ [Some Volver]"
    by (simp add: device_items_def lit_item_def comp_def map_replicate_const)
  moreover have "populate_device_menu w = Some ?w1"
    using assms(4) by (simp add: populate_eq [OF assms(1-3)])
  ultimately show ?thesis by blast
qed

theorem device_menu_lifetime_witness:
  "\<exists>w1 w2. populate_device_menu ready_world = Some w1 \<and> free_devices_array w1 = Some w2 \<and>
     displayMenu 0 (set_current Submenu1 w2) = None"
proof -
  have "\<exists>w1 w2 items. populate_device_menu ready_world = Some w1 \<and>
     sm_items (ms_menus (w_menu w1) Submenu1) = Some items \<and>
     sm_itemCount (ms_menus (w_menu w1) Submenu1) = int (length items) \<and>
     map (name_text w1 \<circ> mi_name) items = map d_name [relay0] @ [Some ''VOLVER''] \<and>
     map mi_action items = replicate (length [relay0]) (Some DeviceAction) @ [Some Volver] \<and>
     free_devices_array w1 = Some w2 \<and>
     (\<forall>i<length [relay0]. displayMenu (int i) (set_current Submenu1 w2) = None)"
    by (rule device_menu_lifetime) simp_all
  then show ?thesis by fastforce
qed

end
