(* ===== verification/HttpClient.thy ===== *)
theory HttpClient
  imports Menu
begin

text \<open>
  The HTTP client: \<open>client_event_get_handler\<close> of \<open>main/webserver.c\<close>, which collects the body of a
  response and interprets it by the URL it came from, and the request functions of
  \<open>main/httpMethods.c\<close>. What a server answers is a parameter: the \<open>k\<close>-th request gets the events, the
  error code and the status of \<open>w_replies w k\<close>. Which events and codes can be is the subject of
  \<open>perform_passes\<close>, the loop of \<open>esp_http_client_perform\<close> in \<open>components/esp_http_client/esp_http_client.c\<close>
  over what the transport layer reports. \<open>esp_http_client_init\<close> is taken to succeed.
\<close>

section \<open>Collecting the body\<close>

text \<open>\<open>malloc\<close> of a size; a null pointer for the size 0, as \<open>heap_caps_malloc_base\<close> answers.\<close>

definition malloc_size :: "nat \<Rightarrow> world \<Rightarrow> bool \<times> world" where
  "malloc_size bytes w = (if bytes = 0 then (False, w) else malloc w)"

definition set_url :: "string option \<Rightarrow> world \<Rightarrow> world" where
  "set_url client_url w =
     (case client_url of Some u \<Rightarrow> w\<lparr>w_url := snprintf_s URL_MAX_LEN u\<rparr> | None \<Rightarrow> w)"

definition on_data :: "bool \<Rightarrow> string \<Rightarrow> string option \<Rightarrow> world \<Rightarrow> world option" where
  "on_data chunked data client_url w =
     (if \<not> chunked then
        (case malloc w of (ok, w1) \<Rightarrow>
           if \<not> ok then None
           else (case w_response w1 of
                   None \<Rightarrow> Some (set_url client_url (w1\<lparr>w_response := Some data\<rparr>))
                 | Some old \<Rightarrow> Some (set_url client_url (w1\<lparr>w_response := Some (old @ data)\<rparr>))))
      else Some (set_url client_url w))"

section \<open>newData.json\<close>

definition dispatch_section :: "string \<Rightarrow> world \<Rightarrow> world" where
  "dispatch_section s w =
     (if strncmp_eq s ''set/'' 4 then
        if strncmp_eq (drop 4 s) ''devices/'' 8 then wset SETNEWDEVICEDATA True w
        else if drop 4 s = ''info'' then wset SETNEWINFODATA True w
        else if strncmp_eq (drop 4 s) ''time/'' 5 then wset SETNEWDATETIME True w
        else w
      else if strncmp_eq s ''get/'' 4 then
        if drop 4 s = ''info'' then wset FETCHNEWINFODATA True w
        else if drop 4 s = ''devices'' then wset FETCHNEWDEVICESDATA True w
        else if drop 4 s = ''firmware'' then wset FETCHNEWFIRMWAREDATA True w
        else if drop 4 s = ''datetime'' then wset FETCHNEWDATETIMEDATA True w
        else if drop 4 s = ''alive'' then wset FETCHNEWALIVE True w
        else w
      else w)"

definition parsed :: "string \<Rightarrow> cjson option" where
  "parsed response = (case cJSON_Parse (cstr response) of Accept j \<Rightarrow> Some j | _ \<Rightarrow> None)"

definition new_data :: "string \<Rightarrow> world \<Rightarrow> world" where
  "new_data response w =
     (case parsed response of
        Some json \<Rightarrow>
          let status = cJSON_GetObjectItem (Some json) ''status''
          in if cJSON_IsBool status \<and> cJSON_IsTrue status then
               let w1 = show_lines ''DATOS NUEVOS'' ''DETECTADOS'' w;
                   section_item = cJSON_GetObjectItem (Some json) ''section''
               in if cJSON_IsString section_item then
                    let section_value = valuestring section_item
                    in dispatch_section section_value (w1\<lparr>w_urlSection := take 79 section_value\<rparr>)
                  else w1
             else w
      | None \<Rightarrow> w)"

section \<open>devices.json\<close>

text \<open>
  The pin is a 32-bit enumeration, but \<open>read_device_pin_from_nvs\<close> stores a byte: the other three
  bytes are what \<open>malloc\<close> left there (\<open>w_junk\<close>). \<open>setPower\<close> gets the low byte.
\<close>

definition stored_pin :: "u32 \<Rightarrow> u8 \<Rightarrow> int" where
  "stored_pin junk b = sint ((junk AND NOT 0xFF) OR ucast b :: u32)"

definition put_entry :: "nat \<Rightarrow> device \<Rightarrow> world \<Rightarrow> world" where
  "put_entry index d w = w\<lparr>w_devices := map_option (\<lambda>ds. ds[index := Some d]) (w_devices w)\<rparr>"

definition valid_device :: "cjson \<Rightarrow> bool" where
  "valid_device j \<longleftrightarrow>
     cJSON_GetObjectItem (Some j) ''deviceType'' \<noteq> None \<and> cJSON_GetObjectItem (Some j) ''status'' \<noteq> None \<and>
     cJSON_IsString (cJSON_GetObjectItem (Some j) ''deviceType'') \<and>
     cJSON_IsBool (cJSON_GetObjectItem (Some j) ''status'') \<and>
     cJSON_IsNumber (cJSON_GetObjectItem (Some j) ''id'') \<and>
     cJSON_IsString (cJSON_GetObjectItem (Some j) ''name'')"

definition load_device :: "cjson \<Rightarrow> nat \<Rightarrow> world \<Rightarrow> world option" where
  "load_device j index w =
     (let id = valueint (cJSON_GetObjectItem (Some j) ''id'');
          name = valuestring (cJSON_GetObjectItem (Some j) ''name'');
          dtype = valuestring (cJSON_GetObjectItem (Some j) ''deviceType'');
          st = cJSON_IsTrue (cJSON_GetObjectItem (Some j) ''status'')
      in case malloc w of (ok_name, w1) \<Rightarrow> case malloc w1 of (ok_type, w2) \<Rightarrow>
         case read_device_pin_from_nvs id (ucast (w_junk w2 index)) (w_nvs w2) of (err, b, nvs') \<Rightarrow>
           let pin = (if err \<noteq> ESP_OK then -1 else stored_pin (w_junk w2 index) b);
               d = \<lparr>d_name = if ok_name then Some name else None, d_id = id, d_pin = pin, d_state = st, d_type = dtype\<rparr>;
               w3 = put_entry index d (w2\<lparr>w_nvs := nvs'\<rparr>)
           in if \<not> ok_type then None
              else if dtype = ''relay'' then Some (w3\<lparr>w_gpio := setPower st (of_int pin) (w_gpio w3)\<rparr>)
              else Some w3)"

fun load_devices :: "cjson list \<Rightarrow> nat \<Rightarrow> world \<Rightarrow> world option" where
  "load_devices [] index w = Some w"
| "load_devices (j # js) index w =
     (if valid_device j then Option.bind (load_device j index w) (load_devices js (Suc index))
      else load_devices js index w)"

text \<open>
  \<open>devices.json\<close>; the first component tells whether the branch ended without a \<open>break\<close>, so that the
  code after the branches runs. The size of the array in bytes is 0 only for no devices.
\<close>

definition devices_json :: "string \<Rightarrow> world \<Rightarrow> (bool \<times> world) option" where
  "devices_json response w =
     (case parsed response of
        None \<Rightarrow> Some (False, w)
      | Some json_array \<Rightarrow>
          if \<not> cJSON_IsArray (Some json_array) then Some (False, w)
          else
            let array_size = cJSON_GetArraySize (Some json_array);
                w1 = w\<lparr>w_deviceCount := int array_size\<rparr>
            in case malloc_size array_size w1 of (ok, w2) \<Rightarrow>
                 if \<not> ok then Some (False, w2\<lparr>w_devices := None\<rparr>)
                 else map_option (\<lambda>w4. (True, wset POPULATEDEVICES True w4))
                        (load_devices (children json_array) 0
                          (w2\<lparr>w_devices := Some (replicate array_size None), w_dev_gen := Suc (w_dev_gen w2)\<rparr>)))"

section \<open>The event handler\<close>

definition on_finish_tail :: "world \<Rightarrow> world" where
  "on_finish_tail w =
     (let w1 = (if wget FETCHNEWINFODATA w \<or> wget FETCHNEWDEVICESDATA w \<or> wget FETCHNEWFIRMWAREDATA w \<or>
                   wget FETCHNEWDATETIMEDATA w \<or> wget SETNEWINFODATA w \<or> wget SETNEWDEVICEDATA w \<or>
                   wget SETNEWDATETIME w
                then wset POSTNONEWDATA True w else w)
      in w1\<lparr>w_response := None\<rparr>)"

definition on_finish :: "string option \<Rightarrow> world \<Rightarrow> world option" where
  "on_finish client_url w =
     (case w_response w of
        None \<Rightarrow> Some w
      | Some response \<Rightarrow>
          let w1 = set_url client_url w
          in if strstr (w_url w1) ''/newData.json'' \<noteq> None then
               Some (on_finish_tail (new_data response w1))
             else if strstr (w_url w1) ''/devices.json'' \<noteq> None then
               map_option (\<lambda>(ended, w2). if ended then on_finish_tail w2 else w2) (devices_json response w1)
             else Some (on_finish_tail w1))"

definition client_event_get_handler :: "http_event \<Rightarrow> world \<Rightarrow> world option" where
  "client_event_get_handler evt w =
     (case evt of
        HTTP_EVENT_ON_DATA chunked data u \<Rightarrow> on_data chunked data u w
      | HTTP_EVENT_ON_FINISH u \<Rightarrow> on_finish u w
      | HTTP_EVENT_OTHER \<Rightarrow> Some w)"

section \<open>Requests\<close>

fun handle_events :: "http_event list \<Rightarrow> world \<Rightarrow> world option" where
  "handle_events [] w = Some w"
| "handle_events (evt # evts) w = Option.bind (client_event_get_handler evt w) (handle_events evts)"

definition esp_http_client_perform :: "request \<Rightarrow> world \<Rightarrow> (esp_err \<times> int \<times> world) option" where
  "esp_http_client_perform rq w =
     (let rp = w_replies w (length (w_requests w))
      in map_option (\<lambda>w1. (rp_err rp, rp_status rp, w1))
           (handle_events (rp_events rp) (w\<lparr>w_requests := w_requests w @ [rq]\<rparr>)))"

text \<open>
  Where the events come from: a pass through the switch of \<open>esp_http_client_perform\<close>, synchronous as the
  firmware uses it, with the result of each stage as the transport gives it: connecting, sending the head and the
  body of the request, the headers (with the fragments of the body read along with them), the check of the
  response, and the fragments read afterwards until the body is complete or the connection ends.
  \<open>process_again\<close> (a redirection, authentication) is set by the check. Errors dispatch
  \<open>HTTP_EVENT_ERROR\<close>, except a timeout before the headers, which dispatches nothing. A body that is cut off
  is finished like a complete one.
\<close>

record pass_outcome =
  po_url :: string
  po_connect :: esp_err
  po_send :: esp_err
  po_post :: esp_err
  po_fetch :: esp_err
  po_early :: "string list"
  po_check :: esp_err
  po_chunked :: bool
  po_data :: "string list"
  po_again :: bool

abbreviation (input) ESP_ERR_HTTP_EAGAIN :: esp_err where "ESP_ERR_HTTP_EAGAIN \<equiv> 0x7007"

definition perform_pass :: "pass_outcome \<Rightarrow> http_event list \<times> esp_err" where
  "perform_pass p =
     (let data = map (\<lambda>d. HTTP_EVENT_ON_DATA (po_chunked p) d (Some (po_url p)))
      in if po_connect p \<noteq> ESP_OK then ([HTTP_EVENT_OTHER], po_connect p)
         else if po_send p \<noteq> ESP_OK then ([HTTP_EVENT_OTHER], po_send p)
         else if po_post p \<noteq> ESP_OK then ([HTTP_EVENT_OTHER], po_post p)
         else if po_fetch p = ESP_ERR_HTTP_EAGAIN then ([], ESP_ERR_HTTP_EAGAIN)
         else if po_fetch p \<noteq> ESP_OK then ([HTTP_EVENT_OTHER], po_fetch p)
         else if po_check p \<noteq> ESP_OK then (data (po_early p) @ [HTTP_EVENT_OTHER], po_check p)
         else (data (po_early p) @ data (po_data p) @ [HTTP_EVENT_ON_FINISH (Some (po_url p))], ESP_OK))"

fun perform_passes :: "pass_outcome list \<Rightarrow> http_event list \<times> esp_err" where
  "perform_passes [] = ([], ESP_OK)"
| "perform_passes (p # ps) =
     (case perform_pass p of (evts, err) \<Rightarrow>
        if err \<noteq> ESP_OK then (evts, err)
        else if \<not> po_again p then (evts, ESP_OK)
        else (case perform_passes ps of (evts', err') \<Rightarrow> (evts @ evts', err')))"

definition perform :: "http_method \<Rightarrow> string \<Rightarrow> string option \<Rightarrow> world \<Rightarrow> world option" where
  "perform m u body w =
     map_option (\<lambda>(_, _, w1). w1) (esp_http_client_perform \<lparr>rq_method = m, rq_url = u, rq_body = body\<rparr> w)"

definition perform_http_get :: "string \<Rightarrow> world \<Rightarrow> world option" where
  "perform_http_get u w = perform HTTP_GET u None w"

definition perform_http_patch :: "string \<Rightarrow> string \<Rightarrow> world \<Rightarrow> world option" where
  "perform_http_patch u json_data w = perform HTTP_PATCH u (Some json_data) w"

definition perform_http_post :: "string \<Rightarrow> string \<Rightarrow> world \<Rightarrow> world option" where
  "perform_http_post u json_data w = perform HTTP_POST u (Some json_data) w"

definition perform_http_put :: "string \<Rightarrow> string \<Rightarrow> world \<Rightarrow> world option" where
  "perform_http_put u json_data w = perform HTTP_PUT u (Some json_data) w"

definition client_post_rest_function :: "world \<Rightarrow> world option" where
  "client_post_rest_function w =
     perform_http_post ''https://sicaewebapp-default-rtdb.firebaseio.com/''
       (''{'' @ [CHR 0x22] @ ''key'' @ [CHR 0x22] @ '': '' @ [CHR 0x22] @ ''value'' @ [CHR 0x22] @ ''}'') w"

section \<open>Facts\<close>

lemma on_data_ok:
  assumes "\<And>n. \<not> w_malloc_fails w n"
  shows "on_data False data u w = Some (set_url u (w\<lparr>w_mallocs := Suc (w_mallocs w),
     w_response := Some (case w_response w of None \<Rightarrow> data | Some old \<Rightarrow> old @ data)\<rparr>))"
  using assms by (simp add: on_data_def malloc_def split: option.splits)

lemma set_url_twice: "set_url u (g (set_url u w)) = set_url u (g w)"
  if "\<And>v. g (w\<lparr>w_url := v\<rparr>) = (g w)\<lparr>w_url := v\<rparr>"
  using that by (cases u) (simp_all add: set_url_def)

text \<open>Any number of fragments that are not chunked leave their concatenation.\<close>

lemma handle_fragments:
  assumes "\<And>n. \<not> w_malloc_fails w n"
  shows "handle_events (map (\<lambda>d. HTTP_EVENT_ON_DATA False d u) ds @ evts) w =
     (if ds = [] then handle_events evts w
      else handle_events evts (set_url u (w\<lparr>w_mallocs := w_mallocs w + length ds,
        w_response := Some ((case w_response w of None \<Rightarrow> [] | Some old \<Rightarrow> old) @ concat ds)\<rparr>)))"
  using assms
proof (induction ds arbitrary: w)
  case Nil
  then show ?case by simp
next
  case (Cons d ds)
  let ?w = "set_url u (w\<lparr>w_mallocs := Suc (w_mallocs w),
     w_response := Some (case w_response w of None \<Rightarrow> d | Some old \<Rightarrow> old @ d)\<rparr>)"
  have "\<not> w_malloc_fails ?w n" for n using Cons.prems by (simp add: set_url_def split: option.split)
  note IH = Cons.IH [OF this]
  have f: "w_response ?w = Some (case w_response w of None \<Rightarrow> d | Some old \<Rightarrow> old @ d)"
      "w_mallocs ?w = Suc (w_mallocs w)"
    by (simp_all add: set_url_def split: option.split)
  show ?case
    using IH f by (cases "ds = []"; cases u; cases "w_response w")
      (simp_all add: client_event_get_handler_def on_data_ok [OF Cons.prems] set_url_def)
qed

fun section_flag :: "string \<Rightarrow> flag option" where
  "section_flag s =
     (if prefix ''set/devices/'' s then Some SETNEWDEVICEDATA
      else if s = ''set/info'' then Some SETNEWINFODATA
      else if prefix ''set/time/'' s then Some SETNEWDATETIME
      else map_of [(''get/info'', FETCHNEWINFODATA), (''get/devices'', FETCHNEWDEVICESDATA),
        (''get/firmware'', FETCHNEWFIRMWAREDATA), (''get/datetime'', FETCHNEWDATETIMEDATA),
        (''get/alive'', FETCHNEWALIVE)] s)"

lemma strncmp_eq_prefix: "length p = n \<Longrightarrow> strncmp_eq s p n = prefix p s"
  by (auto simp: strncmp_eq_def prefix_def) (metis append_take_drop_id)

lemma prefix_longer: "\<not> prefix p s \<Longrightarrow> \<not> prefix (p @ q) s"
  by (auto simp: prefix_def)

lemma not_prefix_neq: "\<not> prefix p s \<Longrightarrow> s \<noteq> p @ q"
  by auto

lemma dispatch_section_flag:
  "dispatch_section s w = (case section_flag s of Some f \<Rightarrow> wset f True w | None \<Rightarrow> w)"
proof -
  consider (set) r where "s = ''set/'' @ r" | (get) r where "s = ''get/'' @ r"
    | (other) "\<not> prefix ''set/'' s" "\<not> prefix ''get/'' s"
    by (auto simp: prefix_def)
  then show ?thesis
  proof cases
    case set
    have "prefix ''set/devices/'' s = prefix ''devices/'' r" "(s = ''set/info'') = (r = ''info'')"
        "prefix ''set/time/'' s = prefix ''time/'' r"
      by (simp_all add: set)
    moreover have "strncmp_eq s ''set/'' 4" "drop 4 s = r" "\<not> prefix ''get/'' s"
      by (simp_all add: set strncmp_eq_def)
    moreover have "map_of [(''get/info'', FETCHNEWINFODATA), (''get/devices'', FETCHNEWDEVICESDATA),
        (''get/firmware'', FETCHNEWFIRMWAREDATA), (''get/datetime'', FETCHNEWDATETIMEDATA),
        (''get/alive'', FETCHNEWALIVE)] s = None"
      by (simp add: set)
    ultimately show ?thesis
      unfolding dispatch_section_def section_flag.simps by (simp only: strncmp_eq_prefix list.size) simp
  next
    case get
    have "\<not> prefix ''set/devices/'' s" "s \<noteq> ''set/info''" "\<not> prefix ''set/time/'' s"
      by (simp_all add: get)
    moreover have "\<not> strncmp_eq s ''set/'' 4" "strncmp_eq s ''get/'' 4" "drop 4 s = r"
      by (simp_all add: get strncmp_eq_def)
    moreover have "(s = ''get/info'') = (r = ''info'')" "(s = ''get/devices'') = (r = ''devices'')"
        "(s = ''get/firmware'') = (r = ''firmware'')" "(s = ''get/datetime'') = (r = ''datetime'')"
        "(s = ''get/alive'') = (r = ''alive'')"
      by (simp_all add: get)
    ultimately show ?thesis
      unfolding dispatch_section_def section_flag.simps map_of.simps prod.sel fun_upd_apply by (simp only:) simp
  next
    case other
    have "\<not> strncmp_eq s ''set/'' 4" "\<not> strncmp_eq s ''get/'' 4"
      using other by (simp_all only: strncmp_eq_prefix list.size) simp_all
    moreover have "\<not> prefix ''set/devices/'' s" "s \<noteq> ''set/info''" "\<not> prefix ''set/time/'' s"
      using prefix_longer [OF other(1), of "''devices/''"] prefix_longer [OF other(1), of "''time/''"]
        not_prefix_neq [OF other(1), of "''info''"] by simp_all
    moreover have "s \<noteq> ''get/info''" "s \<noteq> ''get/devices''" "s \<noteq> ''get/firmware''" "s \<noteq> ''get/datetime''"
        "s \<noteq> ''get/alive''"
      using not_prefix_neq [OF other(2), of "''info''"] not_prefix_neq [OF other(2), of "''devices''"]
        not_prefix_neq [OF other(2), of "''firmware''"] not_prefix_neq [OF other(2), of "''datetime''"]
        not_prefix_neq [OF other(2), of "''alive''"] by simp_all
    ultimately show ?thesis
      unfolding dispatch_section_def section_flag.simps map_of.simps prod.sel fun_upd_apply by (simp only:) simp
  qed
qed

section \<open>What the device array holds\<close>

definition loaded :: "(nat \<Rightarrow> u32) \<Rightarrow> (string \<rightharpoonup> u8) \<Rightarrow> nat \<Rightarrow> cjson \<Rightarrow> device" where
  "loaded junk pins i j =
     \<lparr>d_name = Some (valuestring (cJSON_GetObjectItem (Some j) ''name'')),
      d_id = valueint (cJSON_GetObjectItem (Some j) ''id''),
      d_pin = (case pins (device_key (valueint (cJSON_GetObjectItem (Some j) ''id''))) of
                 Some p \<Rightarrow> stored_pin (junk i) p | None \<Rightarrow> -1),
      d_state = cJSON_IsTrue (cJSON_GetObjectItem (Some j) ''status''),
      d_type = valuestring (cJSON_GetObjectItem (Some j) ''deviceType'')\<rparr>"

fun loaded_from :: "(nat \<Rightarrow> u32) \<Rightarrow> (string \<rightharpoonup> u8) \<Rightarrow> nat \<Rightarrow> cjson list \<Rightarrow> device list" where
  "loaded_from junk pins i [] = []"
| "loaded_from junk pins i (j # js) =
     (if valid_device j then loaded junk pins i j # loaded_from junk pins (Suc i) js
      else loaded_from junk pins i js)"

definition relay_writes :: "device list \<Rightarrow> (int \<times> nat) list" where
  "relay_writes ds = map (\<lambda>d. (uint (of_int (d_pin d) :: u8), of_bool (\<not> d_state d))) (filter (\<lambda>d. d_type d = ''relay'') ds)"

text \<open>The relays of the list, switched one after the other.\<close>

definition switch_relays :: "device list \<Rightarrow> gpio_dev \<Rightarrow> gpio_dev" where
  "switch_relays ds = fold (\<lambda>d g. if d_type d = ''relay'' then setPower (d_state d) (of_int (d_pin d)) g else g) ds"

lemma switch_relays_log: "g_log (switch_relays ds g) = g_log g @ relay_writes ds"
  by (induction ds arbitrary: g) (simp_all add: switch_relays_def relay_writes_def setPower_log)

lemma switch_relays_append: "switch_relays (ds @ es) g = switch_relays es (switch_relays ds g)"
  by (simp add: switch_relays_def)

lemma loaded_from_length: "length (loaded_from junk pins i js) = length (filter valid_device js)"
  by (induction js arbitrary: i) simp_all

lemma load_device_ok:
  assumes "\<And>n. \<not> w_malloc_fails w n" "nv_healthy (w_nvs w)" "nv_ns (w_nvs w)"
  shows "\<exists>nv m g. load_device j i w =
     Some (w\<lparr>w_nvs := nv, w_mallocs := m, w_gpio := g,
       w_devices := map_option (\<lambda>ds. ds[i := Some (loaded (w_junk w) (nv_u8 (w_nvs w)) i j)]) (w_devices w)\<rparr>) \<and>
     nv_healthy nv \<and> nv_ns nv \<and> nv_u8 nv = nv_u8 (w_nvs w) \<and>
     g = switch_relays [loaded (w_junk w) (nv_u8 (w_nvs w)) i j] (w_gpio w)"
proof -
  let ?d = "loaded (w_junk w) (nv_u8 (w_nvs w)) i j"
  let ?g = "if d_type ?d = ''relay'' then setPower (d_state ?d) (of_int (d_pin ?d)) (w_gpio w) else w_gpio w"
  have "load_device j i w =
     Some (w\<lparr>w_nvs := (w_nvs w)\<lparr>nv_calls := nv_calls (w_nvs w) + 2\<rparr>, w_mallocs := w_mallocs w + 2, w_gpio := ?g,
       w_devices := map_option (\<lambda>ds. ds[i := Some ?d]) (w_devices w)\<rparr>)"
    using assms
    by (cases "nv_u8 (w_nvs w) (device_key (d_id ?d))")
      (simp_all add: load_device_def malloc_def put_entry_def loaded_def Let_def read_device_pin_healthy)
  moreover have "?g = switch_relays [?d] (w_gpio w)" by (simp add: switch_relays_def)
  ultimately show ?thesis
    using assms(2,3)
    by (intro exI [of _ "(w_nvs w)\<lparr>nv_calls := nv_calls (w_nvs w) + 2\<rparr>"] exI [of _ "w_mallocs w + 2"] exI [of _ ?g])
      (simp only: nv_healthy_update, simp)
qed

lemma list_update_next: "(map Some ds @ replicate (Suc k) None)[length ds := Some d] = map Some (ds @ [d]) @ replicate k None"
  by (simp add: list_update_append)

lemma load_devices_ok:
  assumes "\<And>n. \<not> w_malloc_fails w n" "nv_healthy (w_nvs w)" "nv_ns (w_nvs w)"
    and "w_devices w = Some (map Some ds @ replicate k None)" "length (filter valid_device js) \<le> k"
  shows "\<exists>nv m g. load_devices js (length ds) w =
     Some (w\<lparr>w_nvs := nv, w_mallocs := m, w_gpio := g,
       w_devices := Some (map Some (ds @ loaded_from (w_junk w) (nv_u8 (w_nvs w)) (length ds) js) @
         replicate (k - length (filter valid_device js)) None)\<rparr>) \<and>
     nv_u8 nv = nv_u8 (w_nvs w) \<and>
     g = switch_relays (loaded_from (w_junk w) (nv_u8 (w_nvs w)) (length ds) js) (w_gpio w)"
  using assms
proof (induction js arbitrary: w ds k)
  case Nil
  then show ?case
    by (intro exI [of _ "w_nvs w"] exI [of _ "w_mallocs w"] exI [of _ "w_gpio w"]) (simp add: switch_relays_def)
next
  case (Cons j js)
  show ?case
  proof (cases "valid_device j")
    case False
    then show ?thesis using Cons.IH [OF Cons.prems(1-4)] Cons.prems(5) by simp
  next
    case True
    let ?d = "loaded (w_junk w) (nv_u8 (w_nvs w)) (length ds) j"
    obtain k' where k: "k = Suc k'" "length (filter valid_device js) \<le> k'"
      using Cons.prems(5) True by (cases k) simp_all
    obtain nv m g where 1: "load_device j (length ds) w =
        Some (w\<lparr>w_nvs := nv, w_mallocs := m, w_gpio := g, w_devices := Some (map Some (ds @ [?d]) @ replicate k' None)\<rparr>)"
      "nv_healthy nv" "nv_ns nv" "nv_u8 nv = nv_u8 (w_nvs w)" "g = switch_relays [?d] (w_gpio w)"
      using load_device_ok [OF Cons.prems(1-3), of j "length ds"] Cons.prems(4) k(1)
      by (auto simp: list_update_next simp del: replicate.simps)
    let ?w = "w\<lparr>w_nvs := nv, w_mallocs := m, w_gpio := g, w_devices := Some (map Some (ds @ [?d]) @ replicate k' None)\<rparr>"
    obtain nv' m' g' where 2: "load_devices js (length (ds @ [?d])) ?w =
       Some (?w\<lparr>w_nvs := nv', w_mallocs := m', w_gpio := g',
         w_devices := Some (map Some ((ds @ [?d]) @ loaded_from (w_junk w) (nv_u8 nv) (length (ds @ [?d])) js) @
           replicate (k' - length (filter valid_device js)) None)\<rparr>)"
      "nv_u8 nv' = nv_u8 nv"
      "g' = switch_relays (loaded_from (w_junk w) (nv_u8 nv) (length (ds @ [?d])) js) g"
      using Cons.IH [of ?w "ds @ [?d]" k'] 1 Cons.prems(1) k(2) by auto
    show ?thesis
      using 1 2 True k by (intro exI [of _ nv'] exI [of _ m'] exI [of _ g']) (simp add: switch_relays_def)
  qed
qed

section \<open>The end of a response\<close>

definition pending_flags :: "flag list" where
  "pending_flags = [FETCHNEWINFODATA, FETCHNEWDEVICESDATA, FETCHNEWFIRMWAREDATA, FETCHNEWDATETIMEDATA,
     SETNEWINFODATA, SETNEWDEVICEDATA, SETNEWDATETIME]"

lemma wget_update [simp]:
  "wget f (w\<lparr>w_response := r\<rparr>) = wget f w" "wget f (w\<lparr>w_urlSection := s\<rparr>) = wget f w"
  "wget f (w\<lparr>w_url := s\<rparr>) = wget f w" "wget f (w\<lparr>w_mallocs := m\<rparr>) = wget f w"
  "wget f (w\<lparr>w_devices := d\<rparr>) = wget f w" "wget f (w\<lparr>w_deviceCount := n\<rparr>) = wget f w"
  "wget f (w\<lparr>w_dev_gen := m\<rparr>) = wget f w" "wget f (w\<lparr>w_nvs := nv\<rparr>) = wget f w"
  "wget f (w\<lparr>w_gpio := g\<rparr>) = wget f w" "wget f (w\<lparr>w_requests := rs\<rparr>) = wget f w"
  "wget f (w\<lparr>w_rssi_str := s\<rparr>) = wget f w" "wget f (w\<lparr>w_freed := fr\<rparr>) = wget f w"
  by (simp_all add: wget_def)

lemma on_finish_tail_flags:
  "wget f (on_finish_tail w) \<longleftrightarrow> wget f w \<or> f = POSTNONEWDATA \<and> (\<exists>g\<in>set pending_flags. wget g w)"
  by (auto simp: on_finish_tail_def Let_def pending_flags_def)

lemma on_finish_tail_frame [simp]:
  "w_response (on_finish_tail w) = None" "w_urlSection (on_finish_tail w) = w_urlSection w"
  "w_devices (on_finish_tail w) = w_devices w" "w_deviceCount (on_finish_tail w) = w_deviceCount w"
  "w_gpio (on_finish_tail w) = w_gpio w" "w_lcd (on_finish_tail w) = w_lcd w"
  "w_requests (on_finish_tail w) = w_requests w" "w_nvs (on_finish_tail w) = w_nvs w"
  by (simp_all add: on_finish_tail_def Let_def)

lemma dispatch_section_frame [simp]:
  "w_urlSection (dispatch_section s w) = w_urlSection w" "w_lcd (dispatch_section s w) = w_lcd w"
  "wget f (dispatch_section s w) \<longleftrightarrow> wget f w \<or> section_flag s = Some f"
  by (auto simp: dispatch_section_flag simp del: section_flag.simps split: option.splits)

definition answer :: "string \<Rightarrow> string list \<Rightarrow> http_event list" where
  "answer u ds = map (\<lambda>d. HTTP_EVENT_ON_DATA False d (Some u)) ds @ [HTTP_EVENT_ON_FINISH (Some u)]"

text \<open>
  The events that the handler does not ignore; the fragments of the body among them; and a reply without news
  for a request to \<open>u\<close>: it fails before any body arrives, or ends after a body (perhaps empty, in any
  fragments) that neither announces anything, if it comes from \<open>newData.json\<close>, nor is taken for the
  list of devices.
\<close>

definition relevant :: "http_event list \<Rightarrow> http_event list" where
  "relevant evts = filter (\<lambda>e. e \<noteq> HTTP_EVENT_OTHER) evts"

fun fragments :: "http_event list \<Rightarrow> string list" where
  "fragments [] = []"
| "fragments (HTTP_EVENT_ON_DATA chunked d u # evts) = d # fragments evts"
| "fragments (HTTP_EVENT_ON_FINISH u # evts) = fragments evts"
| "fragments (HTTP_EVENT_OTHER # evts) = fragments evts"

definition has_body :: "reply \<Rightarrow> bool" where
  "has_body rp \<longleftrightarrow> fragments (rp_events rp) \<noteq> []"

definition nothing_new :: "string \<Rightarrow> string \<Rightarrow> bool" where
  "nothing_new u body \<longleftrightarrow>
     (let v = snprintf_s URL_MAX_LEN u
      in if strstr v ''/newData.json'' \<noteq> None
         then (case parsed body of Some j \<Rightarrow> cJSON_GetObjectItem (Some j) ''status'' \<noteq> Some JTrue | None \<Rightarrow> True)
         else strstr v ''/devices.json'' = None)"

definition no_news :: "string \<Rightarrow> reply \<Rightarrow> bool" where
  "no_news u rp \<longleftrightarrow> relevant (rp_events rp) = [] \<or>
     relevant (rp_events rp) = answer u (fragments (rp_events rp)) \<and>
       (has_body rp \<longrightarrow> nothing_new u (concat (fragments (rp_events rp))))"

lemma handle_relevant: "handle_events (relevant evts) w = handle_events evts w"
proof (induction evts arbitrary: w)
  case (Cons e evts)
  have c: "handle_events (relevant evts) = handle_events evts" using Cons by blast
  show ?case by (cases e) (simp_all add: relevant_def client_event_get_handler_def c [unfolded relevant_def])
qed (simp add: relevant_def)

lemma fragments_relevant: "fragments (relevant evts) = fragments evts"
  by (induction evts rule: fragments.induct) (simp_all add: relevant_def)

lemma answer_facts [simp]: "fragments (answer u ds) = ds" "relevant (answer u ds) = answer u ds"
proof -
  have "fragments (map (\<lambda>d. HTTP_EVENT_ON_DATA False d (Some u)) ds @ es) = ds @ fragments es" for es
    by (induction ds) simp_all
  then show "fragments (answer u ds) = ds" by (simp add: answer_def)
  show "relevant (answer u ds) = answer u ds" by (auto simp: relevant_def answer_def filter_True)
qed

text \<open>
  Every single pass that is not chunked and whose check does not fail behind a fragment gives a reply of the two
  kinds, and the kind goes with the error code.
\<close>

lemma single_pass_reply:
  assumes "\<not> po_again p" "\<not> po_chunked p" "po_check p \<noteq> ESP_OK \<longrightarrow> po_early p = []"
    and "perform_passes [p] = (evts, err)"
  shows "if err = ESP_OK then relevant evts = answer (po_url p) (fragments evts) else relevant evts = []"
proof -
  have "err = ESP_OK \<Longrightarrow> evts = answer (po_url p) (po_early p @ po_data p)"
    using assms by (auto simp: perform_pass_def Let_def answer_def split: if_splits)
  moreover have "err \<noteq> ESP_OK \<Longrightarrow> evts \<in> {[], [HTTP_EVENT_OTHER]}"
    using assms by (auto simp: perform_pass_def Let_def split: if_splits)
  ultimately show ?thesis by (auto simp: relevant_def [of "[]"] relevant_def [of "[HTTP_EVENT_OTHER]"])
qed

lemma parsed_render: "plain x \<Longrightarrow> nest x \<le> CJSON_NESTING_LIMIT \<Longrightarrow> parsed (render f 0 x) = Some x"
  by (simp add: parsed_def cstr_render parse_render)

text \<open>A whole answer in fragments is one call of \<open>on_finish\<close> with the body in place.\<close>

lemma handle_answer:
  assumes "\<And>n. \<not> w_malloc_fails w n" "w_response w = None" "ds \<noteq> []"
  shows "handle_events (answer u ds) w =
     on_finish (Some u) (w\<lparr>w_mallocs := w_mallocs w + length ds, w_response := Some (concat ds),
       w_url := snprintf_s URL_MAX_LEN u\<rparr>)"
  using assms handle_fragments [OF assms(1), of "Some u" ds "[HTTP_EVENT_ON_FINISH (Some u)]"]
  by (cases "on_finish (Some u) (w\<lparr>w_mallocs := w_mallocs w + length ds, w_response := Some (concat ds),
       w_url := snprintf_s URL_MAX_LEN u\<rparr>)")
    (simp_all add: answer_def client_event_get_handler_def set_url_def)

lemma new_data_answer:
  assumes "\<And>n. \<not> w_malloc_fails w n" "w_response w = None" "ds \<noteq> []"
    and "parsed (concat ds) = Some json"
    and "strstr (snprintf_s URL_MAX_LEN u) ''/newData.json'' \<noteq> None"
    and "cJSON_GetObjectItem (Some json) ''status'' = Some JTrue"
    and "cJSON_GetObjectItem (Some json) ''section'' = Some (JString s)"
  shows "\<exists>w'. handle_events (answer u ds) w = Some w' \<and> w_urlSection w' = take 79 s \<and> w_response w' = None \<and>
     (\<forall>f. wget f w' \<longleftrightarrow> wget f w \<or> section_flag s = Some f \<or>
        f = POSTNONEWDATA \<and> (\<exists>g\<in>set pending_flags. wget g w \<or> section_flag s = Some g))"
proof -
  let ?w = "w\<lparr>w_mallocs := w_mallocs w + length ds, w_response := Some (concat ds), w_url := snprintf_s URL_MAX_LEN u\<rparr>"
  let ?n = "dispatch_section s ((show_lines ''DATOS NUEVOS'' ''DETECTADOS'' ?w)\<lparr>w_urlSection := take 79 s\<rparr>)"
  have "new_data (concat ds) ?w = ?n" by (simp add: new_data_def assms(4,6,7))
  then have "handle_events (answer u ds) w = Some (on_finish_tail ?n)"
    using assms(5) by (simp add: handle_answer [OF assms(1-3)] on_finish_def set_url_def)
  then show ?thesis
    by (simp add: on_finish_tail_flags del: section_flag.simps)
qed

text \<open>
  A reply without news changes nothing but \<open>POSTNONEWDATA\<close>, which a body of whatever kind raises when work is
  pending.
\<close>

definition posted :: "bool \<Rightarrow> world \<Rightarrow> world" where
  "posted b w = (if b then wset POSTNONEWDATA True w else w)"

definition work_pending :: "world \<Rightarrow> bool" where
  "work_pending w \<longleftrightarrow> (\<exists>g\<in>set pending_flags. wget g w)"

lemma on_finish_tail_posted: "on_finish_tail w = (posted (work_pending w) w)\<lparr>w_response := None\<rparr>"
  by (auto simp: on_finish_tail_def posted_def work_pending_def pending_flags_def Let_def)

lemma posted_flags: "wget f (posted b w) \<longleftrightarrow> wget f w \<or> f = POSTNONEWDATA \<and> b"
  by (auto simp: posted_def)

lemma no_status: "cJSON_GetObjectItem (Some j) ''status'' \<noteq> Some JTrue \<Longrightarrow> \<not> cJSON_IsTrue (cJSON_GetObjectItem (Some j) ''status'')"
  by (cases "cJSON_GetObjectItem (Some j) ''status''" rule: cJSON_IsTrue.cases) auto

lemma finish_nothing_new:
  assumes "nothing_new u body" "w_response w = Some body"
  shows "\<exists>v. on_finish (Some u) w = Some ((posted (work_pending w) (w\<lparr>w_url := v\<rparr>))\<lparr>w_response := None\<rparr>)"
proof -
  let ?w = "w\<lparr>w_url := snprintf_s URL_MAX_LEN u\<rparr>"
  have n: "new_data body ?w = ?w" if "strstr (snprintf_s URL_MAX_LEN u) ''/newData.json'' \<noteq> None"
    using that assms(1) no_status by (auto simp: nothing_new_def new_data_def Let_def split: option.splits)
  have p: "work_pending ?w = work_pending w" by (simp add: work_pending_def)
  have "on_finish (Some u) w = Some (on_finish_tail ?w)"
    using assms n by (auto simp: on_finish_def set_url_def nothing_new_def Let_def split: if_splits)
  then show ?thesis unfolding on_finish_tail_posted p by blast
qed

lemma handle_no_news:
  assumes "\<And>n. \<not> w_malloc_fails w n" "w_response w = None" "no_news u rp"
  shows "\<exists>m v. handle_events (rp_events rp) w = Some (posted (has_body rp \<and> work_pending w) (w\<lparr>w_mallocs := m, w_url := v\<rparr>))"
proof (cases "has_body rp")
  case False
  then have "relevant (rp_events rp) \<in> {[], answer u []}" using assms(3) by (auto simp: no_news_def has_body_def)
  then have "handle_events (rp_events rp) w = Some w"
    using assms(2) by (auto simp: handle_relevant [symmetric, of "rp_events rp"] answer_def client_event_get_handler_def on_finish_def)
  moreover have "w\<lparr>w_mallocs := w_mallocs w, w_url := w_url w\<rparr> = w" by simp
  ultimately show ?thesis using False by (intro exI [of _ "w_mallocs w"] exI [of _ "w_url w"]) (simp add: posted_def)
next
  case True
  let ?ds = "fragments (rp_events rp)"
  have d: "?ds \<noteq> []" "relevant (rp_events rp) = answer u ?ds" "nothing_new u (concat ?ds)"
    using assms(3) True fragments_relevant [of "rp_events rp"] by (auto simp: no_news_def has_body_def)
  let ?w = "w\<lparr>w_mallocs := w_mallocs w + length ?ds, w_response := Some (concat ?ds), w_url := snprintf_s URL_MAX_LEN u\<rparr>"
  have "handle_events (rp_events rp) w = on_finish (Some u) ?w"
    unfolding handle_relevant [symmetric, of "rp_events rp"] d(2) using handle_answer [OF assms(1,2) d(1), of u] by simp
  moreover obtain v where "on_finish (Some u) ?w = Some ((posted (work_pending ?w) (?w\<lparr>w_url := v\<rparr>))\<lparr>w_response := None\<rparr>)"
    using finish_nothing_new [OF d(3), of ?w] by auto
  moreover have "work_pending ?w = work_pending w" by (simp add: work_pending_def)
  moreover have "(posted b (?w\<lparr>w_url := v\<rparr>))\<lparr>w_response := None\<rparr> =
      posted b (w\<lparr>w_mallocs := w_mallocs w + length ?ds, w_url := v\<rparr>)" for b
    using assms(2) by (cases w) (simp add: posted_def wset_def)
  ultimately show ?thesis
    using True by (intro exI [of _ "w_mallocs w + length ?ds"] exI [of _ v]) simp
qed

text \<open>What such a request leaves behind.\<close>

definition asked :: "http_method \<Rightarrow> string \<Rightarrow> string option \<Rightarrow> world \<Rightarrow> world \<Rightarrow> bool" where
  "asked m u body w w' \<longleftrightarrow>
     (\<exists>a v. w' = posted (has_body (w_replies w (length (w_requests w))) \<and> work_pending w)
        (w\<lparr>w_requests := w_requests w @ [\<lparr>rq_method = m, rq_url = u, rq_body = body\<rparr>], w_mallocs := a, w_url := v\<rparr>))"

lemma asked_flags:
  "asked m u body w w' \<Longrightarrow> wget f w' \<longleftrightarrow> wget f w \<or> f = POSTNONEWDATA \<and> has_body (w_replies w (length (w_requests w))) \<and> work_pending w"
  by (auto simp: asked_def posted_flags)

lemma asked_frame:
  assumes "asked m u body w w'"
  shows "w_requests w' = w_requests w @ [\<lparr>rq_method = m, rq_url = u, rq_body = body\<rparr>]" "w_gpio w' = w_gpio w"
    "w_nvs w' = w_nvs w" "w_devices w' = w_devices w" "w_deviceCount w' = w_deviceCount w" "w_dev_gen w' = w_dev_gen w"
    "w_freed w' = w_freed w" "w_menu w' = w_menu w" "w_tasks w' = w_tasks w" "w_response w' = w_response w"
    "w_urlSection w' = w_urlSection w" "w_malloc_fails w' = w_malloc_fails w" "w_json_fault w' = w_json_fault w"
    "w_replies w' = w_replies w" "w_events_url w' = w_events_url w" "w_disp_url w' = w_disp_url w" "w_wifi w' = w_wifi w"
    "w_lcd w' = w_lcd w" "w_junk w' = w_junk w" "w_clock w' = w_clock w"
proof -
  obtain a v where w': "w' = posted (has_body (w_replies w (length (w_requests w))) \<and> work_pending w)
      (w\<lparr>w_requests := w_requests w @ [\<lparr>rq_method = m, rq_url = u, rq_body = body\<rparr>], w_mallocs := a, w_url := v\<rparr>)"
    using assms by (auto simp: asked_def)
  show "w_requests w' = w_requests w @ [\<lparr>rq_method = m, rq_url = u, rq_body = body\<rparr>]" "w_gpio w' = w_gpio w"
    "w_nvs w' = w_nvs w" "w_devices w' = w_devices w" "w_deviceCount w' = w_deviceCount w" "w_dev_gen w' = w_dev_gen w"
    "w_freed w' = w_freed w" "w_menu w' = w_menu w" "w_tasks w' = w_tasks w" "w_response w' = w_response w"
    "w_urlSection w' = w_urlSection w" "w_malloc_fails w' = w_malloc_fails w" "w_json_fault w' = w_json_fault w"
    "w_replies w' = w_replies w" "w_events_url w' = w_events_url w" "w_disp_url w' = w_disp_url w" "w_wifi w' = w_wifi w"
    "w_lcd w' = w_lcd w" "w_junk w' = w_junk w" "w_clock w' = w_clock w"
    unfolding w' posted_def by (simp_all add: wset_def)
qed

lemma perform_asked:
  assumes "\<And>n. \<not> w_malloc_fails w n" "w_response w = None" "rp = w_replies w (length (w_requests w))" "no_news u rp"
  shows "\<exists>w'. esp_http_client_perform \<lparr>rq_method = m, rq_url = u, rq_body = body\<rparr> (w\<lparr>w_url := v\<rparr>) = Some (rp_err rp, rp_status rp, w') \<and>
     asked m u body w w'"
proof -
  let ?w = "w\<lparr>w_url := v, w_requests := w_requests w @ [\<lparr>rq_method = m, rq_url = u, rq_body = body\<rparr>]\<rparr>"
  have p: "work_pending ?w = work_pending w" by (simp add: work_pending_def)
  have "\<not> w_malloc_fails ?w n" "w_response ?w = None" for n using assms(1,2) by simp_all
  from handle_no_news [OF this assms(4)] obtain a v' where
    h: "handle_events (rp_events rp) ?w = Some (posted (has_body rp \<and> work_pending w) (?w\<lparr>w_mallocs := a, w_url := v'\<rparr>))"
    unfolding p by blast
  have "?w\<lparr>w_mallocs := a, w_url := v'\<rparr> =
      w\<lparr>w_requests := w_requests w @ [\<lparr>rq_method = m, rq_url = u, rq_body = body\<rparr>], w_mallocs := a, w_url := v'\<rparr>" by simp
  note h' = h [unfolded this]
  have "w_replies ?w = w_replies w" "w_requests w = w_requests (w\<lparr>w_url := v\<rparr>)" by simp_all
  show ?thesis
    unfolding asked_def assms(3) [symmetric]
    by (rule exI, intro conjI exI [of _ a] exI [of _ v'], simp add: esp_http_client_perform_def Let_def h' flip: assms(3)) (rule refl)
qed

section \<open>Properties\<close>

text \<open>
  C5. However the server splits a \<open>newData.json\<close> document into fragments, a document with
  \<open>"status": true\<close> and a section string sets exactly the flag that the section names, stores the section
  (cut at 79 characters), frees the body, and sets \<open>POSTNONEWDATA\<close> exactly when one of the seven work
  flags is then set.
\<close>

theorem new_data_dispatch:
  assumes "\<And>n. \<not> w_malloc_fails w n" "w_response w = None" "ds \<noteq> []"
    and "concat ds = render fmt 0 json" "plain json" "nest json \<le> CJSON_NESTING_LIMIT"
    and "strstr (snprintf_s URL_MAX_LEN u) ''/newData.json'' \<noteq> None"
    and "cJSON_GetObjectItem (Some json) ''status'' = Some JTrue"
    and "cJSON_GetObjectItem (Some json) ''section'' = Some (JString s)"
  shows "\<exists>w'. handle_events (answer u ds) w = Some w' \<and> w_urlSection w' = take 79 s \<and> w_response w' = None \<and>
     (\<forall>f. wget f w' \<longleftrightarrow> wget f w \<or> section_flag s = Some f \<or>
        f = POSTNONEWDATA \<and> (\<exists>g\<in>set pending_flags. wget g w \<or> section_flag s = Some g))"
proof -
  have "parsed (concat ds) = Some json" using parsed_render [OF assms(5,6)] by (simp only: assms(4))
  with assms show ?thesis by (intro new_data_answer)
qed

theorem new_data_dispatch_witness:
  "\<exists>w'. handle_events (answer ''https://x/newData.json''
       [render False 0 (JObject [(''section'', JString ''get/devices''), (''status'', JTrue)])]) boot_world = Some w' \<and>
     wget FETCHNEWDEVICESDATA w' \<and> wget POSTNONEWDATA w'"
proof -
  let ?j = "JObject [(''section'', JString ''get/devices''), (''status'', JTrue)]"
  have "\<exists>w'. handle_events (answer ''https://x/newData.json'' [render False 0 ?j]) boot_world = Some w' \<and>
     w_urlSection w' = take 79 ''get/devices'' \<and> w_response w' = None \<and>
     (\<forall>f. wget f w' \<longleftrightarrow> wget f boot_world \<or> section_flag ''get/devices'' = Some f \<or>
        f = POSTNONEWDATA \<and> (\<exists>g\<in>set pending_flags. wget g boot_world \<or> section_flag ''get/devices'' = Some g))"
  proof (rule new_data_dispatch)
    show "strstr (snprintf_s URL_MAX_LEN ''https://x/newData.json'') ''/newData.json'' \<noteq> None" by code_simp
    show "concat [render False 0 ?j] = render False 0 ?j" by simp
    show "cJSON_GetObjectItem (Some ?j) ''status'' = Some JTrue" by (simp add: same_name_def tolower_def)
    show "cJSON_GetObjectItem (Some ?j) ''section'' = Some (JString ''get/devices'')" by simp
  qed (simp_all add: boot_world_def CJSON_NESTING_LIMIT_def NUL_def)
  then show ?thesis by (auto simp: pending_flags_def)
qed

lemma devices_answer:
  assumes "\<And>n. \<not> w_malloc_fails w n" "w_response w = None" "ds \<noteq> []"
    and "concat ds = render fmt 0 (JArray js)" "plain (JArray js)" "nest (JArray js) \<le> CJSON_NESTING_LIMIT" "js \<noteq> []"
    and "strstr (snprintf_s URL_MAX_LEN u) ''/newData.json'' = None" "strstr (snprintf_s URL_MAX_LEN u) ''/devices.json'' \<noteq> None"
    and "nv_healthy (w_nvs w)" "nv_ns (w_nvs w)"
    and "L = loaded_from (w_junk w) (nv_u8 (w_nvs w)) 0 js"
  shows "\<exists>w'. handle_events (answer u ds) w = Some w' \<and>
     w_devices w' = Some (map Some L @ replicate (length js - length L) None) \<and>
     w_deviceCount w' = int (length js) \<and>
     g_log (w_gpio w') = g_log (w_gpio w) @ relay_writes L \<and>
     wget POPULATEDEVICES w' \<and> w_response w' = None \<and> w_gpio w' = switch_relays L (w_gpio w) \<and>
     w_dev_gen w' = Suc (w_dev_gen w) \<and> w_freed w' = w_freed w \<and>
     (\<forall>f. f \<notin> {POPULATEDEVICES, POSTNONEWDATA} \<longrightarrow> wget f w' = wget f w) \<and> (wget POSTNONEWDATA w \<longrightarrow> wget POSTNONEWDATA w')"
proof -
  let ?w = "w\<lparr>w_mallocs := w_mallocs w + length ds, w_response := Some (concat ds), w_url := snprintf_s URL_MAX_LEN u\<rparr>"
  let ?w2 = "?w\<lparr>w_deviceCount := int (length js), w_mallocs := Suc (w_mallocs w + length ds),
     w_devices := Some (replicate (length js) None), w_dev_gen := Suc (w_dev_gen w)\<rparr>"
  have p: "parsed (concat ds) = Some (JArray js)" using parsed_render [OF assms(5,6)] by (simp only: assms(4))
  obtain nv m g where l: "load_devices js 0 ?w2 =
       Some (?w2\<lparr>w_nvs := nv, w_mallocs := m, w_gpio := g,
         w_devices := Some (map Some L @ replicate (length js - length L) None)\<rparr>)"
      "g = switch_relays L (w_gpio w)"
    using load_devices_ok [of ?w2 "[]" "length js" js] assms(1,10,11,12) by (auto simp: loaded_from_length)
  have m: "malloc (?w\<lparr>w_deviceCount := int (length js)\<rparr>) =
      (True, ?w\<lparr>w_deviceCount := int (length js), w_mallocs := Suc (w_mallocs w + length ds)\<rparr>)"
    using assms(1) by (simp add: malloc_def)
  have "devices_json (concat ds) ?w = Some (True, wset POPULATEDEVICES True
      (?w2\<lparr>w_nvs := nv, w_mallocs := m, w_gpio := g,
         w_devices := Some (map Some L @ replicate (length js - length L) None)\<rparr>))"
    using assms(7) m l(1) by (simp add: devices_json_def p malloc_size_def Let_def)
  then have "handle_events (answer u ds) w = Some (on_finish_tail (wset POPULATEDEVICES True
      (?w2\<lparr>w_nvs := nv, w_mallocs := m, w_gpio := g,
         w_devices := Some (map Some L @ replicate (length js - length L) None)\<rparr>)))"
    using assms(8,9) by (simp add: handle_answer [OF assms(1-3)] on_finish_def set_url_def)
  then show ?thesis using l(2) by (simp add: on_finish_tail_flags switch_relays_log) (simp add: on_finish_tail_def Let_def)
qed

text \<open>
  C6. \<open>devices.json\<close> with an array of devices, healthy storage and enough memory: the array holds the
  valid entries in their order, with the pins of the storage, the relays among them are switched to
  the states of the document, and the menu is marked for population. Invalid entries are skipped but
  counted: the end of the array stays uninitialised.
\<close>

theorem devices_json_loads:
  assumes "\<And>n. \<not> w_malloc_fails w n" "w_response w = None" "ds \<noteq> []"
    and "concat ds = render fmt 0 (JArray js)" "plain (JArray js)" "nest (JArray js) \<le> CJSON_NESTING_LIMIT" "js \<noteq> []"
    and "strstr (snprintf_s URL_MAX_LEN u) ''/newData.json'' = None" "strstr (snprintf_s URL_MAX_LEN u) ''/devices.json'' \<noteq> None"
    and "nv_healthy (w_nvs w)" "nv_ns (w_nvs w)"
    and "L = loaded_from (w_junk w) (nv_u8 (w_nvs w)) 0 js"
  shows "\<exists>w'. handle_events (answer u ds) w = Some w' \<and>
     w_devices w' = Some (map Some L @ replicate (length js - length L) None) \<and>
     w_deviceCount w' = int (length js) \<and>
     g_log (w_gpio w') = g_log (w_gpio w) @ relay_writes L \<and>
     wget POPULATEDEVICES w' \<and> w_response w' = None"
  using devices_answer [OF assms] by blast

definition lamp :: cjson where
  "lamp = JObject [(''deviceType'', JString ''relay''), (''id'', JNumber (Fin 0)), (''name'', JString ''Luz''), (''status'', JTrue)]"

lemma lamp_members:
  "cJSON_GetObjectItem (Some lamp) ''deviceType'' = Some (JString ''relay'')"
  "cJSON_GetObjectItem (Some lamp) ''id'' = Some (JNumber (Fin 0))"
  "cJSON_GetObjectItem (Some lamp) ''name'' = Some (JString ''Luz'')"
  "cJSON_GetObjectItem (Some lamp) ''status'' = Some JTrue"
  by (simp_all add: lamp_def same_name_def tolower_def)

lemma lamp_loaded:
  "loaded (\<lambda>_. 0) [''device-0'' \<mapsto> 23] 0 lamp =
     \<lparr>d_name = Some ''Luz'', d_id = 0, d_pin = 23, d_state = True, d_type = ''relay''\<rparr>"
  by (simp add: loaded_def lamp_members device_key_def snprintf_s_def dec_int_def dec_nat.simps [of 0] digit_char_def
      char_of_def bit_0 stored_pin_def INT_MIN_def INT_MAX_def)

lemma lamp_valid: "valid_device lamp" "\<not> valid_device JNull"
  by (simp_all add: valid_device_def lamp_members)

theorem devices_json_loads_witness:
  "\<exists>w'. handle_events (answer ''https://x/devices.json'' [render True 0 (JArray [lamp, JNull])])
       (boot_world\<lparr>w_nvs := (w_nvs boot_world)\<lparr>nv_ns := True, nv_u8 := [''device-0'' \<mapsto> 23]\<rparr>\<rparr>) = Some w' \<and>
     w_devices w' = Some [Some \<lparr>d_name = Some ''Luz'', d_id = 0, d_pin = 23, d_state = True, d_type = ''relay''\<rparr>, None] \<and>
     g_log (w_gpio w') = [(23, 0)]"
proof -
  let ?w = "boot_world\<lparr>w_nvs := (w_nvs boot_world)\<lparr>nv_ns := True, nv_u8 := [''device-0'' \<mapsto> 23]\<rparr>\<rparr>"
  let ?d = "\<lparr>d_name = Some ''Luz'', d_id = 0, d_pin = 23, d_state = True, d_type = ''relay''\<rparr>"
  have "\<exists>w'. handle_events (answer ''https://x/devices.json'' [render True 0 (JArray [lamp, JNull])]) ?w = Some w' \<and>
     w_devices w' = Some (map Some [?d] @ replicate (length [lamp, JNull] - length [?d]) None) \<and>
     w_deviceCount w' = int (length [lamp, JNull]) \<and>
     g_log (w_gpio w') = g_log (w_gpio ?w) @ relay_writes [?d] \<and>
     wget POPULATEDEVICES w' \<and> w_response w' = None"
  proof (rule devices_json_loads)
    show "strstr (snprintf_s URL_MAX_LEN ''https://x/devices.json'') ''/newData.json'' = None"
      "strstr (snprintf_s URL_MAX_LEN ''https://x/devices.json'') ''/devices.json'' \<noteq> None" by code_simp+
    show "concat [render True 0 (JArray [lamp, JNull])] = render True 0 (JArray [lamp, JNull])" by simp
    show "plain (JArray [lamp, JNull])" by (simp add: lamp_def NUL_def INT_MIN_def INT_MAX_def)
    show "[?d] = loaded_from (w_junk ?w) (nv_u8 (w_nvs ?w)) 0 [lamp, JNull]"
      by (simp add: lamp_valid lamp_loaded boot_world_def)
  qed (simp_all add: boot_world_def CJSON_NESTING_LIMIT_def nv_healthy_def lamp_def NUL_def)
  then show ?thesis by (auto simp: boot_world_def relay_writes_def)
qed

lemma skipped_device_is_fatal_parts:
  assumes "w_devices w = Some (map Some L @ replicate k None)" "w_deviceCount w = int (length L + k)" "0 < k"
    and "\<not> w_malloc_fails w (w_mallocs w)"
  shows "populate_device_menu w = None" and "free_devices_array w = None"
proof -
  have bad: "device_at (int (length L)) w' = None" if "w_devices w' = w_devices w" for w'
    using assms(1,3) that by (simp add: device_at_def at_index_def nth_append)
  have mem: "length L \<in> set [0..<nat (w_deviceCount w)]" using assms(2,3) by simp
  then show "free_devices_array w = None"
    using bad [OF refl] assms(1) by (auto simp: free_devices_array_def list_all_iff)
  have all: "all_items xs = None" if "None \<in> set xs" for xs
    using that by (induction xs) (auto split: option.split)
  let ?w = "(set_menu Submenu1 (\<lambda>m. m\<lparr>sm_items := None\<rparr>) w)\<lparr>w_mallocs := Suc (w_mallocs w)\<rparr>"
  have "malloc (set_menu Submenu1 (\<lambda>m. m\<lparr>sm_items := None\<rparr>) w) = (True, ?w)"
    using assms(4) by (simp add: malloc_def set_menu_def)
  moreover have "device_item ?w (length L) = None"
    using bad [of ?w] by (simp add: device_item_def set_menu_def)
  then have "all_items (map (device_item ?w) [0..<nat (w_deviceCount w)]) = None"
    using mem by (intro all) force
  moreover have "w_deviceCount ?w = w_deviceCount w" by (simp add: set_menu_def)
  ultimately show "populate_device_menu w = None" by (simp add: populate_device_menu_def)
qed

text \<open>
  C40. A device array with an uninitialised entry cannot be used: rebuilding the menu from it and
  freeing it both read memory that was never written. Together with \<open>devices_json_loads\<close>: one invalid
  entry in \<open>devices.json\<close> is enough.
\<close>

theorem skipped_device_is_fatal:
  assumes "w_devices w = Some (map Some L @ replicate k None)" "w_deviceCount w = int (length L + k)" "0 < k"
    and "\<not> w_malloc_fails w (w_mallocs w)"
  shows "populate_device_menu w = None \<and> free_devices_array w = None"
  using skipped_device_is_fatal_parts [OF assms] by simp

theorem skipped_device_is_fatal_witness:
  "populate_device_menu (ready_world\<lparr>w_devices := Some [Some relay0, None], w_deviceCount := 2\<rparr>) = None"
  by (rule skipped_device_is_fatal [of _ "[relay0]" 1, THEN conjunct1]) simp_all

text \<open>
  A \<open>devices.json\<close> body that is not a JSON array, or that is an empty array, is not freed: it stays in
  front of the next body, whatever request that belongs to.
\<close>

theorem devices_json_body_kept:
  assumes "\<And>n. \<not> w_malloc_fails w n" "w_response w = None" "ds \<noteq> []" "parsed (concat ds) \<in> {None, Some (JArray [])}"
    and "strstr (snprintf_s URL_MAX_LEN u) ''/newData.json'' = None" "strstr (snprintf_s URL_MAX_LEN u) ''/devices.json'' \<noteq> None"
  shows "\<exists>w1 w2. handle_events (answer u ds) w = Some w1 \<and>
     client_event_get_handler (HTTP_EVENT_ON_DATA False next_body next_url) w1 = Some w2 \<and>
     w_response w2 = Some (concat ds @ next_body)"
proof -
  let ?w = "w\<lparr>w_mallocs := w_mallocs w + length ds, w_response := Some (concat ds), w_url := snprintf_s URL_MAX_LEN u\<rparr>"
  obtain w1 where w1: "devices_json (concat ds) ?w = Some (False, w1)" "w_response w1 = Some (concat ds)"
      "w_malloc_fails w1 = w_malloc_fails w"
    using assms(4) by (auto simp: devices_json_def malloc_size_def)
  have 1: "handle_events (answer u ds) w = Some w1"
    using assms(5,6) w1(1) by (simp add: handle_answer [OF assms(1-3)] on_finish_def set_url_def)
  have m: "\<not> w_malloc_fails w1 n" for n using assms(1) w1(3) by simp
  have "client_event_get_handler (HTTP_EVENT_ON_DATA False next_body next_url) w1 =
      Some (set_url next_url (w1\<lparr>w_mallocs := Suc (w_mallocs w1), w_response := Some (concat ds @ next_body)\<rparr>))"
    using w1(2) by (simp add: client_event_get_handler_def on_data_ok [OF m])
  then show ?thesis using 1 by (cases next_url) (auto simp: set_url_def)
qed

theorem devices_json_body_kept_witness:
  "\<exists>w1 w2. handle_events (answer ''https://x/devices.json'' [''[]'']) boot_world = Some w1 \<and>
     client_event_get_handler (HTTP_EVENT_ON_DATA False ''{}'' None) w1 = Some w2 \<and> w_response w2 = Some ''[]{}''"
proof -
  have p: "parsed ''[]'' = Some (JArray [])"
    using parsed_render [of "JArray []" False] by (simp add: CJSON_NESTING_LIMIT_def)
  have "strstr (snprintf_s URL_MAX_LEN ''https://x/devices.json'') ''/newData.json'' = None"
      "strstr (snprintf_s URL_MAX_LEN ''https://x/devices.json'') ''/devices.json'' \<noteq> None" by code_simp+
  then show ?thesis
    using devices_json_body_kept [of boot_world "[''[]'']" "''https://x/devices.json''" "''{}''" None] p
    by (simp add: boot_world_def)
qed

end
