(* ===== verification/Firebase.thy ===== *)
theory Firebase
  imports HttpClient
begin

text \<open>
  \<open>main/firebaseFns.c\<close>: the requests to the realtime database. Each function formats the URL into the
  global \<open>url\<close>, builds a JSON document, prints it and sends it. \<open>w_clock\<close> is what \<open>strftime\<close> writes;
  \<open>None\<close> is an undefined access inside the event handler.
\<close>

section \<open>Reading\<close>

definition url_printf :: "string \<Rightarrow> world \<Rightarrow> world" where
  "url_printf s w = w\<lparr>w_url := snprintf_s URL_MAX_LEN s\<rparr>"

definition firebase_get_new_data :: "world \<Rightarrow> world option" where
  "firebase_get_new_data w =
     (let w1 = url_printf (w_events_url w @ ''newData.json'') w
      in perform HTTP_GET (w_url w1) None w1)"

definition firebase_get_dispositivo_info :: "world \<Rightarrow> world option" where
  "firebase_get_dispositivo_info w =
     (let w1 = url_printf (w_disp_url w @ ''info.json'') w in perform_http_get (w_url w1) w1)"

definition firebase_get_dispositivo_device :: "world \<Rightarrow> world option" where
  "firebase_get_dispositivo_device w =
     (let w1 = url_printf (w_disp_url w @ w_urlSection w @ ''.json'') w in perform_http_get (w_url w1) w1)"

definition firebase_get_dispositivo_devices :: "world \<Rightarrow> world option" where
  "firebase_get_dispositivo_devices w =
     (let w1 = url_printf (w_disp_url w @ ''devices.json'') w in perform_http_get (w_url w1) w1)"

section \<open>newData\<close>

definition clear_document :: cjson where
  "clear_document =
     cJSON_AddBoolToObject (cJSON_AddStringToObject cJSON_CreateObject ''section'' []) ''status'' False"

definition cleared_flags :: "flag list" where
  "cleared_flags = [POSTNONEWDATA, FETCHNEWINFODATA, FETCHNEWDEVICESDATA, FETCHNEWDATETIMEDATA,
     FETCHNEWFIRMWAREDATA, FETCHNEWALIVE]"

definition clear_new_data_section :: "world \<Rightarrow> world option" where
  "clear_new_data_section w =
     (let w1 = url_printf (w_events_url w @ ''newData.json'') w
      in case cJSON_PrintUnformatted (w_json_fault w1) clear_document of
           None \<Rightarrow> Some w1
         | Some post_data \<Rightarrow>
             map_option (\<lambda>(err, status, w2).
                 if err = ESP_OK \<and> status = 200 then fold (\<lambda>f. wset f False) cleared_flags w2 else w2)
               (esp_http_client_perform \<lparr>rq_method = HTTP_PUT, rq_url = w_url w1, rq_body = Some post_data\<rparr> w1))"

definition read_status_document :: cjson where
  "read_status_document =
     cJSON_AddBoolToObject (cJSON_AddStringToObject cJSON_CreateObject ''section'' ''get/devices'') ''status'' True"

definition firebase_read_device_status :: "world \<Rightarrow> world option" where
  "firebase_read_device_status w =
     (case cJSON_Print (w_json_fault w) read_status_document of
        None \<Rightarrow> Some w
      | Some json_data \<Rightarrow>
          let w1 = url_printf (w_events_url w @ ''newData.json'') w
          in perform_http_put (w_url w1) json_data w1)"

section \<open>Information about this device\<close>

definition info_document :: "bool \<Rightarrow> world \<Rightarrow> cjson" where
  "info_document apMode w =
     cJSON_AddStringToObject
      (cJSON_AddStringToObject
       (cJSON_AddBoolToObject
        (cJSON_AddStringToObject
         (cJSON_AddBoolToObject
          (cJSON_AddStringToObject
           (cJSON_AddStringToObject
            (cJSON_AddStringToObject cJSON_CreateObject ''salaName'' ''Sala Piloto'')
            ''firmware'' (w_firmwareVersion w))
           ''ssid'' (w_wifiSsid w))
          ''status'' True)
         ''connDBI'' (w_rssi_str w))
        ''apMode'' apMode)
       ''ip'' (snprintf_s 16 (ip_string (wf_ip (w_wifi w)))))
      ''lastConnectionTime'' (w_clock w)"

definition firebase_set_dispositivo_info :: "world \<Rightarrow> world option" where
  "firebase_set_dispositivo_info w =
     (let w1 = get_wifi_signal_strength w;
          root = info_document (is_ap_mode w1) w1
      in case cJSON_Print (w_json_fault w1) root of
           None \<Rightarrow> Some w1
         | Some put_data \<Rightarrow>
             let w2 = url_printf (w_disp_url w1 @ ''info.json'') w1
             in perform_http_put (w_url w2) put_data w2)"

definition alive_document :: "world \<Rightarrow> cjson" where
  "alive_document w =
     cJSON_AddStringToObject
       (cJSON_AddStringToObject
         (cJSON_AddBoolToObject cJSON_CreateObject ''status'' True)
         ''lastConnectionTime'' (w_clock w))
       ''connDBI'' (w_rssi_str w)"

definition send_alive_package :: "world \<Rightarrow> world option" where
  "send_alive_package w =
     (let w1 = get_wifi_signal_strength w
      in case cJSON_Print (w_json_fault w1) (alive_document w1) of
           None \<Rightarrow> Some w1
         | Some patch_data \<Rightarrow>
             let w2 = url_printf (w_disp_url w1 @ ''info.json'') w1
             in perform_http_patch (w_url w2) patch_data w2)"

section \<open>Devices\<close>

definition status_document :: "bool \<Rightarrow> cjson" where
  "status_document status = cJSON_AddBoolToObject cJSON_CreateObject ''status'' status"

definition firebase_update_dispositivo_device_status :: "int \<Rightarrow> bool \<Rightarrow> world \<Rightarrow> world option" where
  "firebase_update_dispositivo_device_status device_number status w =
     (case cJSON_Print (w_json_fault w) (status_document status) of
        None \<Rightarrow> Some w
      | Some patch_data \<Rightarrow>
          let w1 = url_printf (w_disp_url w @ ''devices/'' @ dec_int device_number @ ''.json'') w
          in perform_http_patch (w_url w1) patch_data w1)"

text \<open>
  \<open>found\<close> is the key of the first entry of the namespace, if there is one. \<open>nvs_entry_next (it)\<close> passes
  the iterator where its address is expected, so with any entry the loop is undefined.
\<close>

definition send_devices_pins :: "string option \<Rightarrow> world \<Rightarrow> world option" where
  "send_devices_pins found w =
     (case nvs_open NVS_READONLY (w_nvs w) of (err, n1) \<Rightarrow>
        let w1 = w\<lparr>w_nvs := n1\<rparr>
        in if err \<noteq> ESP_OK then Some w1
           else if found \<noteq> None then None
           else
             let root = cJSON_AddBoolToObject
                   (cJSON_AddStringToObject (cJSON_AddStringToObject cJSON_CreateObject ''section'' ''devices_pins'')
                     ''feedback'' ''200'') ''status'' True
             in case cJSON_Print (w_json_fault w1) root of
                  None \<Rightarrow> Some (w1\<lparr>w_nvs := nvs_close (w_nvs w1)\<rparr>)
                | Some json_data \<Rightarrow>
                    let w2 = url_printf (w_events_url w1 @ ''retrievedData.json'') w1
                    in map_option (\<lambda>w3. w3\<lparr>w_nvs := nvs_close (w_nvs w3)\<rparr>)
                         (perform_http_patch (w_url w2) json_data w2))"

text \<open>\<open>"%.2f"\<close> of a finite number.\<close>

definition fixed2 :: "rat \<Rightarrow> string" where
  "fixed2 x =
     (let n = nat (round_half_even (\<bar>x\<bar> * 100))
      in (if x < 0 then ''-'' else []) @ dec_nat (n div 100) @ ''.'' @
         [digit_char (n div 10 mod 10), digit_char (n mod 10)])"

definition firebase_update_device_current :: "int \<Rightarrow> rat \<Rightarrow> world \<Rightarrow> world option" where
  "firebase_update_device_current device_number average_current w =
     (let w1 = url_printf (w_disp_url w @ ''devices/'' @ dec_int device_number @ ''/currentConsumed.json'') w;
          payload = snprintf_s 64 (fixed2 average_current)
      in perform_http_put (w_url w1) payload w1)"

section \<open>What a request leaves alone\<close>

definition client_frame :: "world \<Rightarrow> world \<Rightarrow> bool" where
  "client_frame w w' \<longleftrightarrow> w_requests w' = w_requests w \<and> w_replies w' = w_replies w \<and>
     w_events_url w' = w_events_url w \<and> w_disp_url w' = w_disp_url w \<and> w_wifi w' = w_wifi w \<and>
     w_menu w' = w_menu w \<and> w_tasks w' = w_tasks w \<and> w_json_fault w' = w_json_fault w \<and>
     w_malloc_fails w' = w_malloc_fails w"

lemma client_frame_refl [simp]: "client_frame w w"
  by (simp add: client_frame_def)

lemma client_frame_trans: "client_frame w w1 \<Longrightarrow> client_frame w1 w2 \<Longrightarrow> client_frame w w2"
  by (simp add: client_frame_def)

lemma client_frame_updates [simp]:
  "client_frame w (wset f v w)" "client_frame w (show_lines a b w)" "client_frame w (w\<lparr>w_url := s\<rparr>)"
  "client_frame w (w\<lparr>w_response := r\<rparr>)" "client_frame w (set_url u w)" "client_frame w (w\<lparr>w_mallocs := m\<rparr>)"
  by (auto simp: client_frame_def wset_def show_lines_def on_lcd_def set_url_def split: option.split)

lemma load_device_frame: "load_device j i w = Some w' \<Longrightarrow> client_frame w w'"
  by (auto simp: load_device_def malloc_def put_entry_def client_frame_def Let_def split: prod.splits if_splits)

lemma load_devices_frame: "load_devices js i w = Some w' \<Longrightarrow> client_frame w w'"
  by (induction js i w arbitrary: w' rule: load_devices.induct)
    (auto simp: bind_eq_Some_conv split: if_splits dest: load_device_frame intro: client_frame_trans)

lemma devices_json_frame: "devices_json r w = Some (b, w') \<Longrightarrow> client_frame w w'"
  by (auto simp: devices_json_def malloc_size_def malloc_def Let_def client_frame_def wset_def
      split: option.splits if_splits dest!: load_devices_frame)

lemma new_data_frame: "client_frame w (new_data r w)"
proof -
  have d: "client_frame w (dispatch_section s w)" for s w
    by (simp add: dispatch_section_flag split: option.split)
  have u: "client_frame w ((show_lines a b w)\<lparr>w_urlSection := s\<rparr>)" for a b s
    by (simp add: client_frame_def show_lines_def on_lcd_def)
  show ?thesis
    by (auto simp: new_data_def Let_def split: option.split intro: client_frame_trans [OF u d])
qed

lemma on_finish_tail_frames: "client_frame w (on_finish_tail w)"
  by (auto simp: on_finish_tail_def Let_def client_frame_def wset_def)

lemma client_event_frame:
  assumes "client_event_get_handler evt w = Some w'"
  shows "client_frame w w'"
proof (cases evt)
  case (HTTP_EVENT_ON_FINISH u)
  have n: "client_frame w (on_finish_tail (new_data r (set_url u w)))" for r
    by (rule client_frame_trans [OF client_frame_trans [OF _ new_data_frame] on_finish_tail_frames]) simp
  have d: "client_frame w w2" "client_frame w (on_finish_tail w2)" if "devices_json r (set_url u w) = Some (b, w2)" for r b w2
    using client_frame_trans [OF _ devices_json_frame [OF that], of w] client_frame_trans [OF _ on_finish_tail_frames] by simp_all
  have o: "client_frame w (on_finish_tail (set_url u w))"
    by (rule client_frame_trans [OF _ on_finish_tail_frames]) simp
  from assms HTTP_EVENT_ON_FINISH n d o show ?thesis
    by (auto simp: client_event_get_handler_def on_finish_def Let_def split: option.splits if_splits)
qed (use assms in \<open>auto simp: client_event_get_handler_def on_data_def malloc_def client_frame_def set_url_def
      split: option.splits if_splits\<close>)

lemma handle_events_frame: "handle_events evts w = Some w' \<Longrightarrow> client_frame w w'"
  by (induction evts w rule: handle_events.induct)
    (auto simp: bind_eq_Some_conv dest: client_event_frame intro: client_frame_trans)

section \<open>Facts\<close>

lemma perform_request:
  assumes "perform m u body w = Some w'"
  shows "w_requests w' = w_requests w @ [\<lparr>rq_method = m, rq_url = u, rq_body = body\<rparr>]"
  using assms handle_events_frame
  by (auto simp: perform_def esp_http_client_perform_def Let_def client_frame_def)

lemma perform_no_events:
  "rp_events (w_replies w (length (w_requests w))) = [] \<Longrightarrow>
   perform m u body w = Some (w\<lparr>w_requests := w_requests w @ [\<lparr>rq_method = m, rq_url = u, rq_body = body\<rparr>]\<rparr>)"
  by (simp add: perform_def esp_http_client_perform_def Let_def)

lemma newData_url:
  assumes "suffix ''/'' base" "length base < SERVER_URL_MAX_LEN"
  shows "strstr (snprintf_s URL_MAX_LEN (base @ ''newData.json'')) ''/newData.json'' \<noteq> None"
    and "snprintf_s URL_MAX_LEN (base @ ''newData.json'') = base @ ''newData.json''"
proof -
  show f: "snprintf_s URL_MAX_LEN (base @ ''newData.json'') = base @ ''newData.json''"
    using assms(2) by (simp add: snprintf_s_fits URL_MAX_LEN_def SERVER_URL_MAX_LEN_def)
  obtain p where "base = p @ ''/''" using assms(1) by (auto simp: suffix_def)
  then show "strstr (snprintf_s URL_MAX_LEN (base @ ''newData.json'')) ''/newData.json'' \<noteq> None"
    using f by (simp only: strstr_Some_iff) (simp add: sublist_def, metis append_Nil2)
qed

lemma get_wifi_frame [simp]:
  "w_requests (get_wifi_signal_strength w) = w_requests w" "w_disp_url (get_wifi_signal_strength w) = w_disp_url w"
  "w_json_fault (get_wifi_signal_strength w) = w_json_fault w" "w_clock (get_wifi_signal_strength w) = w_clock w"
  "w_wifiSsid (get_wifi_signal_strength w) = w_wifiSsid w" "w_wifi (get_wifi_signal_strength w) = w_wifi w"
  "w_firmwareVersion (get_wifi_signal_strength w) = w_firmwareVersion w"
  by (simp_all add: get_wifi_signal_strength_def split: option.split)

lemma url_printf_fits:
  "length s < 256 \<Longrightarrow> w_url (url_printf s w) = s"
  "w_requests (url_printf s w) = w_requests w" "w_json_fault (url_printf s w) = w_json_fault w"
  by (simp_all add: url_printf_def snprintf_s_fits URL_MAX_LEN_def)

lemma escape_char_length: "length (escape_char c) \<le> 6"
  by (simp add: escape_char_def)

lemma print_string_length: "length (print_string s) \<le> 6 * length s + 2"
proof -
  have "length (concat (map escape_char s)) \<le> 6 * length s"
    using escape_char_length by (induction s) (simp_all add: add_mono)
  then show ?thesis by (simp add: print_string_def)
qed

text \<open>
  The documents are flat: at most ten members with short names, each a C string of at most 100
  characters or a boolean. Such a document is printed, and what is printed reads back.
\<close>

fun flat_value :: "cjson \<Rightarrow> bool" where
  "flat_value (JString s) = (NUL \<notin> set s \<and> length s \<le> 100)"
| "flat_value JTrue = True"
| "flat_value JFalse = True"
| "flat_value _ = False"

definition flat :: "(string \<times> cjson) list \<Rightarrow> bool" where
  "flat ms \<longleftrightarrow> length ms \<le> 10 \<and> (\<forall>m\<in>set ms. NUL \<notin> set (fst m) \<and> length (fst m) \<le> 100 \<and> flat_value (snd m))"

lemma flat_value_facts:
  "flat_value v \<Longrightarrow> plain v \<and> nest v = 0 \<and> numbers_fit v \<and> length (render f d v) \<le> 602"
  by (cases v) (auto intro: order_trans [OF print_string_length])

lemma flat_members_length:
  "\<forall>m\<in>set ms. length (fst m) \<le> 100 \<and> flat_value (snd m) \<Longrightarrow> length (render_members f 1 ms) \<le> 1300 * length ms"
proof (induction ms)
  case Nil
  then show ?case by simp
next
  case (Cons m ms)
  obtain k v where m: "m = (k, v)" by (cases m)
  have "length (print_string k) \<le> 602" using print_string_length [of k] Cons.prems m by simp
  moreover have "length (render f 1 v) \<le> 602" using flat_value_facts [of v f 1] Cons.prems m by simp
  ultimately show ?case using Cons by (cases f) (simp_all add: m tabs_def)
qed

lemma flat_print:
  assumes "flat ms"
  shows "\<exists>s. print_item f (\<lambda>_. False) (JObject ms) = Some s \<and> cJSON_Parse s = Accept (JObject ms)"
proof -
  have v: "plain (snd m) \<and> nest (snd m) = 0 \<and> numbers_fit (snd m)" if "m \<in> set ms" for m
    using assms that flat_value_facts by (simp add: flat_def)
  have "plain (JObject ms)" "numbers_fit (JObject ms)" using assms v by (simp_all add: flat_def)
  moreover have "nest (JObject ms) \<le> Suc 0" using v by (simp only: nest_object_le) simp
  then have "nest (JObject ms) \<le> CJSON_NESTING_LIMIT" by (simp add: CJSON_NESTING_LIMIT_def)
  moreover have "length (render_members f 1 ms) \<le> 13000"
    using flat_members_length [of ms f] assms by (auto simp: flat_def)
  then have "length (render f 0 (JObject ms)) + 2 \<le> INT_MAX_nat"
    by (cases f) (simp_all add: tabs_def INT_MAX_nat_def INT_MAX_def)
  ultimately show ?thesis
    using print_item_render [of "JObject ms" f] parse_render [of "JObject ms" f] by auto
qed

lemma ip_string_no_nul: "CHR 0x00 \<notin> set (ip_string ip)"
  using dec_nat_digits [of "CHR 0x00"] by (cases ip) (auto simp: ip_string_def)

definition reported :: "http_method \<Rightarrow> string \<Rightarrow> cjson \<Rightarrow> world \<Rightarrow> world \<Rightarrow> bool" where
  "reported m u doc w w' \<longleftrightarrow> (\<exists>body. w_requests w' = w_requests w @
     [\<lparr>rq_method = m, rq_url = u, rq_body = Some body\<rparr>] \<and> cJSON_Parse body = Accept doc)"

lemma disp_url_kept:
  "length (w_disp_url w) < SERVER_URL_MAX_LEN \<Longrightarrow> length s < 100 \<Longrightarrow>
   w_url (url_printf (w_disp_url w @ s) v) = w_disp_url w @ s"
  by (intro url_printf_fits) (simp add: SERVER_URL_MAX_LEN_def)

lemma status_report:
  assumes "w_json_fault w = (\<lambda>_. False)" "length (w_disp_url w) < SERVER_URL_MAX_LEN" "int32 i"
    and "firebase_update_dispositivo_device_status i on w = Some w'"
  shows "reported HTTP_PATCH (w_disp_url w @ ''devices/'' @ dec_int i @ ''.json'')
     (JObject [(''status'', if on then JTrue else JFalse)]) w w'"
proof -
  have "flat [(''status'', if on then JTrue else JFalse)]" by (simp add: flat_def NUL_def)
  then show ?thesis
    using flat_print [of "[(''status'', if on then JTrue else JFalse)]" True] assms
      disp_url_kept [of w "''devices/'' @ dec_int i @ ''.json''"] dec_int_length [OF assms(3)]
    by (auto simp: firebase_update_dispositivo_device_status_def cJSON_Print_def status_document_def json_build
        perform_http_patch_def url_printf_fits(2) reported_def dest!: perform_request)
qed

lemma alive_report:
  assumes "w_json_fault w = (\<lambda>_. False)" "length (w_disp_url w) < SERVER_URL_MAX_LEN"
    and "\<forall>v\<in>{w_rssi_str (get_wifi_signal_strength w), w_clock w}. NUL \<notin> set v \<and> length v \<le> 100"
    and "send_alive_package w = Some w'"
  shows "reported HTTP_PATCH (w_disp_url w @ ''info.json'') (JObject
     [(''status'', JTrue), (''lastConnectionTime'', JString (w_clock w)),
      (''connDBI'', JString (w_rssi_str (get_wifi_signal_strength w)))]) w w'"
    (is "reported _ _ (JObject ?ms) _ _")
proof -
  have "flat ?ms" using assms(3) by (simp add: flat_def NUL_def)
  then show ?thesis
    using flat_print [of ?ms True] assms(1,2,4) disp_url_kept [of w "''info.json''"]
    by (auto simp: send_alive_package_def cJSON_Print_def alive_document_def json_build
        perform_http_patch_def url_printf_fits(2) reported_def dest!: perform_request)
qed

lemma info_report:
  assumes "w_json_fault w = (\<lambda>_. False)" "length (w_disp_url w) < SERVER_URL_MAX_LEN"
    and "\<forall>v\<in>{w_firmwareVersion w, w_wifiSsid w, w_rssi_str (get_wifi_signal_strength w), w_clock w}.
       NUL \<notin> set v \<and> length v \<le> 100"
    and "firebase_set_dispositivo_info w = Some w'"
  shows "reported HTTP_PUT (w_disp_url w @ ''info.json'') (JObject
     [(''salaName'', JString ''Sala Piloto''), (''firmware'', JString (w_firmwareVersion w)),
      (''ssid'', JString (w_wifiSsid w)), (''status'', JTrue),
      (''connDBI'', JString (w_rssi_str (get_wifi_signal_strength w))),
      (''apMode'', if is_ap_mode w then JTrue else JFalse), (''ip'', JString (ip_string (wf_ip (w_wifi w)))),
      (''lastConnectionTime'', JString (w_clock w))]) w w'"
    (is "reported _ _ (JObject ?ms) _ _")
proof -
  have "flat ?ms"
    using assms(3) ip_string_length [of "wf_ip (w_wifi w)"] by (simp add: flat_def NUL_def ip_string_no_nul)
  moreover have "info_document (is_ap_mode w) (get_wifi_signal_strength w) = JObject ?ms"
    by (simp add: info_document_def json_build ip_string_fits)
  moreover have "is_ap_mode (get_wifi_signal_strength w) = is_ap_mode w" by (simp add: is_ap_mode_def)
  ultimately show ?thesis
    using flat_print [of ?ms True] assms(1,2,4) disp_url_kept [of w "''info.json''"]
    by (auto simp: firebase_set_dispositivo_info_def cJSON_Print_def
        perform_http_put_def url_printf_fits(2) reported_def dest!: perform_request)
qed

section \<open>Requests whose reply has no news\<close>

lemma perform_no_news:
  assumes "\<And>n. \<not> w_malloc_fails w n" "w_response w = None" "no_news u (w_replies w (length (w_requests w)))"
    and "length u < URL_MAX_LEN"
  shows "\<exists>w'. perform m (w_url (url_printf u w)) body (url_printf u w) = Some w' \<and> asked m u body w w'"
proof -
  let ?rp = "w_replies w (length (w_requests w))"
  obtain w' where "esp_http_client_perform \<lparr>rq_method = m, rq_url = u, rq_body = body\<rparr> (w\<lparr>w_url := u\<rparr>) =
      Some (rp_err ?rp, rp_status ?rp, w')" "asked m u body w w'"
    using perform_asked [OF assms(1,2) refl assms(3)] by blast
  then show ?thesis using assms(4) by (simp add: perform_def url_printf_def snprintf_s_fits)
qed

lemma status_asked:
  assumes "w_json_fault w = (\<lambda>_. False)" "length (w_disp_url w) < SERVER_URL_MAX_LEN" "int32 i"
    and "\<And>n. \<not> w_malloc_fails w n" "w_response w = None"
    and "no_news (w_disp_url w @ ''devices/'' @ dec_int i @ ''.json'') (w_replies w (length (w_requests w)))"
  shows "\<exists>body w'. firebase_update_dispositivo_device_status i on w = Some w' \<and>
     asked HTTP_PATCH (w_disp_url w @ ''devices/'' @ dec_int i @ ''.json'') (Some body) w w' \<and>
     cJSON_Parse body = Accept (JObject [(''status'', if on then JTrue else JFalse)])"
proof -
  let ?u = "w_disp_url w @ ''devices/'' @ dec_int i @ ''.json''"
  have "status_document on = JObject [(''status'', if on then JTrue else JFalse)]"
    by (simp add: status_document_def json_build)
  moreover have "flat [(''status'', if on then JTrue else JFalse)]" by (simp add: flat_def NUL_def)
  ultimately obtain body where b: "cJSON_Print (\<lambda>_. False) (status_document on) = Some body"
      "cJSON_Parse body = Accept (JObject [(''status'', if on then JTrue else JFalse)])"
    using flat_print unfolding cJSON_Print_def by metis
  have "length ?u < URL_MAX_LEN"
    using assms(2) dec_int_length [OF assms(3)] by (simp add: URL_MAX_LEN_def SERVER_URL_MAX_LEN_def)
  from perform_no_news [OF assms(4-6) this, of HTTP_PATCH "Some body"] b(1)
  obtain w' where "firebase_update_dispositivo_device_status i on w = Some w'" "asked HTTP_PATCH ?u (Some body) w w'"
    unfolding firebase_update_dispositivo_device_status_def perform_http_patch_def Let_def assms(1) by auto
  then show ?thesis using b(2) by blast
qed

lemma clear_asked:
  assumes "w_json_fault w = (\<lambda>_. False)" "length (w_events_url w) < SERVER_URL_MAX_LEN"
    and "\<And>n. \<not> w_malloc_fails w n" "w_response w = None"
    and "rp = w_replies w (length (w_requests w))" "no_news (w_events_url w @ ''newData.json'') rp"
  shows "\<exists>body w1. clear_new_data_section w =
       Some (if rp_err rp = ESP_OK \<and> rp_status rp = 200 then fold (\<lambda>f. wset f False) cleared_flags w1 else w1) \<and>
     asked HTTP_PUT (w_events_url w @ ''newData.json'') (Some body) w w1 \<and> cJSON_Parse body = Accept clear_document"
proof -
  have "clear_document = JObject [(''section'', JString []), (''status'', JFalse)]"
    by (simp add: clear_document_def json_build)
  moreover have "flat [(''section'', JString []), (''status'', JFalse)]" by (simp add: flat_def NUL_def)
  ultimately obtain body where b: "cJSON_PrintUnformatted (\<lambda>_. False) clear_document = Some body"
      "cJSON_Parse body = Accept clear_document"
    using flat_print unfolding cJSON_PrintUnformatted_def by metis
  let ?u = "w_events_url w @ ''newData.json''"
  have u: "snprintf_s URL_MAX_LEN ?u = ?u"
    using assms(2) by (simp add: snprintf_s_fits URL_MAX_LEN_def SERVER_URL_MAX_LEN_def)
  obtain w1 where w1: "esp_http_client_perform \<lparr>rq_method = HTTP_PUT, rq_url = ?u, rq_body = Some body\<rparr> (w\<lparr>w_url := ?u\<rparr>) =
      Some (rp_err rp, rp_status rp, w1)" "asked HTTP_PUT ?u (Some body) w w1"
    using perform_asked [OF assms(3-6)] by blast
  then have "clear_new_data_section w =
      Some (if rp_err rp = ESP_OK \<and> rp_status rp = 200 then fold (\<lambda>f. wset f False) cleared_flags w1 else w1)"
    using b(1) unfolding clear_new_data_section_def url_printf_def u Let_def by (simp add: assms(1))
  then show ?thesis using w1(2) b(2) by blast
qed

lemma fold_wset:
  "wget f (fold (\<lambda>g. wset g False) fs w) \<longleftrightarrow> f \<notin> set fs \<and> wget f w"
  "w_requests (fold (\<lambda>g. wset g False) fs w) = w_requests w" "w_urlSection (fold (\<lambda>g. wset g False) fs w) = w_urlSection w"
  "w_gpio (fold (\<lambda>g. wset g False) fs w) = w_gpio w" "w_tasks (fold (\<lambda>g. wset g False) fs w) = w_tasks w"
  "w_devices (fold (\<lambda>g. wset g False) fs w) = w_devices w" "w_deviceCount (fold (\<lambda>g. wset g False) fs w) = w_deviceCount w"
  "w_menu (fold (\<lambda>g. wset g False) fs w) = w_menu w" "w_malloc_fails (fold (\<lambda>g. wset g False) fs w) = w_malloc_fails w"
  "w_dev_gen (fold (\<lambda>g. wset g False) fs w) = w_dev_gen w" "w_response (fold (\<lambda>g. wset g False) fs w) = w_response w"
  by (induction fs arbitrary: w) (auto simp: wset_def [of _ _ _] wget_def bt_set_def)

lemma info_asked:
  assumes "w_json_fault w = (\<lambda>_. False)" "length (w_disp_url w) < SERVER_URL_MAX_LEN"
    and "\<forall>v\<in>{w_firmwareVersion w, w_wifiSsid w, w_rssi_str (get_wifi_signal_strength w), w_clock w}.
       NUL \<notin> set v \<and> length v \<le> 100"
    and "\<And>n. \<not> w_malloc_fails w n" "w_response w = None"
    and "no_news (w_disp_url w @ ''info.json'') (w_replies w (length (w_requests w)))"
  shows "\<exists>body w'. firebase_set_dispositivo_info w = Some w' \<and>
     asked HTTP_PUT (w_disp_url w @ ''info.json'') (Some body) (get_wifi_signal_strength w) w'"
proof -
  let ?w = "get_wifi_signal_strength w"
  have f: "w_json_fault ?w = w_json_fault w" "w_disp_url ?w = w_disp_url w" "w_requests ?w = w_requests w"
      "w_replies ?w = w_replies w" "w_malloc_fails ?w = w_malloc_fails w" "w_response ?w = w_response w"
    by (simp_all add: get_wifi_signal_strength_def split: option.split)
  obtain ms where ms: "info_document (is_ap_mode ?w) ?w = JObject ms" "flat ms"
    using assms(3) ip_string_length [of "wf_ip (w_wifi w)"]
    by (simp add: info_document_def json_build ip_string_fits flat_def NUL_def ip_string_no_nul)
  obtain body where b: "cJSON_Print (\<lambda>_. False) (info_document (is_ap_mode ?w) ?w) = Some body"
    using flat_print [OF ms(2), of True] by (auto simp: ms(1) cJSON_Print_def)
  have "length (w_disp_url ?w @ ''info.json'') < URL_MAX_LEN"
    using assms(2) by (simp add: URL_MAX_LEN_def SERVER_URL_MAX_LEN_def)
  moreover have "\<not> w_malloc_fails ?w n" "w_response ?w = None"
      "no_news (w_disp_url ?w @ ''info.json'') (w_replies ?w (length (w_requests ?w)))" for n using assms(4-6) f by simp_all
  ultimately obtain w' where "perform HTTP_PUT (w_url (url_printf (w_disp_url ?w @ ''info.json'') ?w)) (Some body)
      (url_printf (w_disp_url ?w @ ''info.json'') ?w) = Some w'" "asked HTTP_PUT (w_disp_url ?w @ ''info.json'') (Some body) ?w w'"
    using perform_no_news [of ?w "w_disp_url ?w @ ''info.json''" HTTP_PUT "Some body"] by blast
  then show ?thesis
    unfolding firebase_set_dispositivo_info_def perform_http_put_def Let_def using b assms(1) f by auto
qed

section \<open>A reply with news\<close>

text \<open>What is left alone when \<open>newData.json\<close> arrives, besides the frame of every request.\<close>

definition news_frame :: "world \<Rightarrow> world \<Rightarrow> bool" where
  "news_frame w w' \<longleftrightarrow> w_gpio w' = w_gpio w \<and> w_nvs w' = w_nvs w \<and> w_devices w' = w_devices w \<and>
     w_deviceCount w' = w_deviceCount w \<and> w_junk w' = w_junk w"

lemma new_data_keeps:
  assumes "\<And>n. \<not> w_malloc_fails w n" "w_response w = None" "ds \<noteq> []"
    and "strstr (snprintf_s URL_MAX_LEN u) ''/newData.json'' \<noteq> None"
    and "handle_events (answer u ds) w = Some w'"
  shows "news_frame w w'"
proof -
  have "news_frame v (new_data r v)" for r v
    by (auto simp: news_frame_def new_data_def dispatch_section_flag Let_def wset_def show_lines_def on_lcd_def
        simp del: section_flag.simps split: option.split)
  moreover have "news_frame v (on_finish_tail v)" for v by (simp add: news_frame_def on_finish_tail_posted posted_def wset_def)
  ultimately show ?thesis
    using assms(4,5) unfolding handle_answer [OF assms(1-3)] by (auto simp: on_finish_def set_url_def news_frame_def)
qed

lemma read_status_echo:
  assumes "w_json_fault w = (\<lambda>_. False)" "length (w_events_url w) < SERVER_URL_MAX_LEN" "suffix ''/'' (w_events_url w)"
    and "\<And>n. \<not> w_malloc_fails w n" "w_response w = None"
    and "relevant (rp_events (w_replies w (length (w_requests w)))) = answer (w_events_url w @ ''newData.json'') ds"
    and "ds \<noteq> []" "parsed (concat ds) = Some read_status_document"
  shows "\<exists>w'. firebase_read_device_status w = Some w' \<and>
     reported HTTP_PUT (w_events_url w @ ''newData.json'') read_status_document w w' \<and>
     wget FETCHNEWDEVICESDATA w' \<and> wget POSTNONEWDATA w' \<and> w_urlSection w' = ''get/devices'' \<and>
     (\<forall>f. f \<notin> {FETCHNEWDEVICESDATA, POSTNONEWDATA} \<longrightarrow> wget f w' = wget f w) \<and> w_response w' = None \<and>
     news_frame w w' \<and> client_frame w (w'\<lparr>w_requests := w_requests w\<rparr>)"
proof -
  let ?u = "w_events_url w @ ''newData.json''" and ?rp = "w_replies w (length (w_requests w))"
  let ?ms = "[(''section'', JString ''get/devices''), (''status'', JTrue)]"
  have rd: "read_status_document = JObject ?ms" by (simp add: read_status_document_def json_build)
  then obtain s where s: "cJSON_Print (\<lambda>_. False) read_status_document = Some s" "cJSON_Parse s = Accept read_status_document"
    using flat_print [of ?ms True] by (auto simp: flat_def NUL_def cJSON_Print_def)
  let ?w2 = "(url_printf ?u w)\<lparr>w_requests := w_requests w @ [\<lparr>rq_method = HTTP_PUT, rq_url = ?u, rq_body = Some s\<rparr>]\<rparr>"
  have m: "cJSON_GetObjectItem (Some read_status_document) ''status'' = Some JTrue"
      "cJSON_GetObjectItem (Some read_status_document) ''section'' = Some (JString ''get/devices'')"
    by (simp_all add: rd same_name_def tolower_def)
  have q: "\<not> w_malloc_fails ?w2 n" "w_response ?w2 = None" for n using assms(4,5) by (simp_all add: url_printf_def)
  have g: "wget f ?w2 = wget f w" for f by (simp add: url_printf_def)
  note url = newData_url(1) [OF assms(3,2)]
  obtain w' where w': "handle_events (answer ?u ds) ?w2 = Some w'" "w_urlSection w' = take 79 ''get/devices''" "w_response w' = None"
      "\<forall>f. wget f w' \<longleftrightarrow> wget f w \<or> section_flag ''get/devices'' = Some f \<or>
        f = POSTNONEWDATA \<and> (\<exists>g\<in>set pending_flags. wget g w \<or> section_flag ''get/devices'' = Some g)"
    using new_data_answer [OF q assms(7,8) url m] unfolding g by blast
  have h: "handle_events (rp_events ?rp) ?w2 = Some w'"
    using w'(1) handle_relevant [of "rp_events ?rp"] by (simp only: assms(6))
  have "firebase_read_device_status w = Some w'"
    using assms(1) s(1) h newData_url(2) [OF assms(3,2)]
    by (simp add: firebase_read_device_status_def Let_def perform_http_put_def perform_def esp_http_client_perform_def
        url_printf_def)
  moreover have "w_requests w' = w_requests ?w2" "client_frame w (w'\<lparr>w_requests := w_requests w\<rparr>)"
    using handle_events_frame [OF h] by (simp_all add: client_frame_def url_printf_def)
  moreover have "news_frame w w'"
    using new_data_keeps [OF q assms(7) url w'(1)] by (simp add: news_frame_def url_printf_def)
  ultimately show ?thesis
    using w'(2,3,4) s(2) by (auto simp: reported_def pending_flags_def)
qed

section \<open>Properties\<close>

lemma reports_read_back_parts:
  assumes "w_json_fault w = (\<lambda>_. False)" "length (w_disp_url w) < SERVER_URL_MAX_LEN"
    and "\<forall>v\<in>{w_firmwareVersion w, w_wifiSsid w, w_rssi_str (get_wifi_signal_strength w), w_clock w}.
       NUL \<notin> set v \<and> length v \<le> 100"
  shows "firebase_set_dispositivo_info w = Some w' \<Longrightarrow>
     reported HTTP_PUT (w_disp_url w @ ''info.json'') (JObject
     [(''salaName'', JString ''Sala Piloto''), (''firmware'', JString (w_firmwareVersion w)),
      (''ssid'', JString (w_wifiSsid w)), (''status'', JTrue),
      (''connDBI'', JString (w_rssi_str (get_wifi_signal_strength w))),
      (''apMode'', if is_ap_mode w then JTrue else JFalse), (''ip'', JString (ip_string (wf_ip (w_wifi w)))),
      (''lastConnectionTime'', JString (w_clock w))]) w w'"
    and "send_alive_package w = Some w' \<Longrightarrow>
     reported HTTP_PATCH (w_disp_url w @ ''info.json'') (JObject
     [(''status'', JTrue), (''lastConnectionTime'', JString (w_clock w)),
      (''connDBI'', JString (w_rssi_str (get_wifi_signal_strength w)))]) w w'"
    and "firebase_update_dispositivo_device_status i on w = Some w' \<Longrightarrow> int32 i \<Longrightarrow>
     reported HTTP_PATCH (w_disp_url w @ ''devices/'' @ dec_int i @ ''.json'')
       (JObject [(''status'', if on then JTrue else JFalse)]) w w'"
  using info_report [OF assms] alive_report [OF assms(1,2)] status_report [OF assms(1,2)] assms(3)
  by simp_all

text \<open>
  C15. The reports to the database are sent to the full URL (never cut off, as the base URL is shorter
  than its buffer) with a body that reads back as the intended document: the information about the device,
  the alive package, and the status of a device.
\<close>

theorem reports_read_back:
  assumes "w_json_fault w = (\<lambda>_. False)" "length (w_disp_url w) < SERVER_URL_MAX_LEN"
    and "\<forall>v\<in>{w_firmwareVersion w, w_wifiSsid w, w_rssi_str (get_wifi_signal_strength w), w_clock w}.
       NUL \<notin> set v \<and> length v \<le> 100"
  shows "(\<forall>w'. firebase_set_dispositivo_info w = Some w' \<longrightarrow>
       reported HTTP_PUT (w_disp_url w @ ''info.json'') (JObject
         [(''salaName'', JString ''Sala Piloto''), (''firmware'', JString (w_firmwareVersion w)),
          (''ssid'', JString (w_wifiSsid w)), (''status'', JTrue),
          (''connDBI'', JString (w_rssi_str (get_wifi_signal_strength w))),
          (''apMode'', if is_ap_mode w then JTrue else JFalse), (''ip'', JString (ip_string (wf_ip (w_wifi w)))),
          (''lastConnectionTime'', JString (w_clock w))]) w w') \<and>
     (\<forall>w'. send_alive_package w = Some w' \<longrightarrow>
       reported HTTP_PATCH (w_disp_url w @ ''info.json'') (JObject
         [(''status'', JTrue), (''lastConnectionTime'', JString (w_clock w)),
          (''connDBI'', JString (w_rssi_str (get_wifi_signal_strength w)))]) w w') \<and>
     (\<forall>w' i on. firebase_update_dispositivo_device_status i on w = Some w' \<and> int32 i \<longrightarrow>
       reported HTTP_PATCH (w_disp_url w @ ''devices/'' @ dec_int i @ ''.json'')
         (JObject [(''status'', if on then JTrue else JFalse)]) w w')"
  using reports_read_back_parts [OF assms] by blast

theorem reports_read_back_witness:
  "\<exists>w'. firebase_update_dispositivo_device_status 7 True boot_world = Some w' \<and>
     reported HTTP_PATCH ''devices/7.json'' (JObject [(''status'', JTrue)]) boot_world w'"
proof -
  obtain s where "cJSON_Print (\<lambda>_. False) (status_document True) = Some s"
    using flat_print [of "[(''status'', JTrue)]" True]
    by (auto simp: flat_def NUL_def cJSON_Print_def status_document_def json_build)
  then have "\<exists>w'. firebase_update_dispositivo_device_status 7 True boot_world = Some w'"
    by (simp add: firebase_update_dispositivo_device_status_def boot_world_def perform_http_patch_def
        perform_no_events no_reply_def url_printf_def)
  then obtain w' where w': "firebase_update_dispositivo_device_status 7 True boot_world = Some w'" ..
  have "reported HTTP_PATCH (w_disp_url boot_world @ ''devices/'' @ dec_int 7 @ ''.json'')
       (JObject [(''status'', if True then JTrue else JFalse)]) boot_world w'"
    by (rule reports_read_back [THEN conjunct2, THEN conjunct2, rule_format, OF _ _ _ conjI [OF w']])
      (simp_all add: boot_world_def get_wifi_signal_strength_def SERVER_URL_MAX_LEN_def int32_def INT_MIN_def INT_MAX_def)
  moreover have "dec_int 7 = ''7''"
    by (simp add: dec_int_def dec_nat.simps [of 7] digit_char_def char_of_def bit_0)
  ultimately show ?thesis using w' by (auto simp: boot_world_def)
qed

text \<open>
  C14. Clearing, for every reply without news of its own: the request fails, or the server answers, with the cleared
  document or any other body that announces nothing, in any fragments and with any status. The request
  carries the cleared document and the stored section is kept. When it succeeds with status 200 the six flags
  are off and every other flag is as before. Otherwise no flag changes, except that a body that came
  back raises \<open>POSTNONEWDATA\<close> when work is pending.
\<close>

theorem clear_new_data:
  assumes "w_json_fault w = (\<lambda>_. False)" "length (w_events_url w) < SERVER_URL_MAX_LEN"
    and "\<And>n. \<not> w_malloc_fails w n" "w_response w = None"
    and "rp = w_replies w (length (w_requests w))" "no_news (w_events_url w @ ''newData.json'') rp"
  shows "\<exists>w'. clear_new_data_section w = Some w' \<and> w_urlSection w' = w_urlSection w \<and>
     reported HTTP_PUT (w_events_url w @ ''newData.json'') clear_document w w' \<and>
     (\<forall>f. wget f w' \<longleftrightarrow>
        (if rp_err rp = ESP_OK \<and> rp_status rp = 200 then f \<notin> set cleared_flags \<and> wget f w
         else wget f w \<or> f = POSTNONEWDATA \<and> has_body rp \<and> (\<exists>g\<in>set pending_flags. wget g w)))"
proof -
  obtain body w1 where c: "clear_new_data_section w =
       Some (if rp_err rp = ESP_OK \<and> rp_status rp = 200 then fold (\<lambda>f. wset f False) cleared_flags w1 else w1)"
      and a: "asked HTTP_PUT (w_events_url w @ ''newData.json'') (Some body) w w1" and b: "cJSON_Parse body = Accept clear_document"
    using clear_asked [OF assms] by blast
  have f: "wget f w1 \<longleftrightarrow> wget f w \<or> f = POSTNONEWDATA \<and> has_body rp \<and> (\<exists>g\<in>set pending_flags. wget g w)" for f
    using asked_flags [OF a] by (simp add: assms(5) work_pending_def)
  show ?thesis
    using b asked_frame(1,11) [OF a] by (auto simp: c f fold_wset reported_def cleared_flags_def)
qed

text \<open>The echo of a request, with the events around it; and an error page with status 401.\<close>

definition echo :: "string \<Rightarrow> string \<Rightarrow> int \<Rightarrow> reply" where
  "echo u body status = \<lparr>rp_events = HTTP_EVENT_OTHER # answer u [body], rp_err = ESP_OK, rp_status = status\<rparr>"

lemma echo_facts [simp]:
  "has_body (echo u body s)" "rp_err (echo u body s) = ESP_OK" "rp_status (echo u body s) = s"
  "relevant (rp_events (echo u body s)) = answer u [body]"
  "no_news u (echo u body s) = nothing_new u body"
  using answer_facts [of u "[body]"] by (auto simp: echo_def has_body_def relevant_def no_news_def answer_def)

theorem clear_new_data_witness:
  "(\<exists>w'. clear_new_data_section (wset FETCHNEWINFODATA True (boot_world
       \<lparr>w_events_url := ''https://x/'', w_replies := (\<lambda>_. echo ''https://x/newData.json'' (render False 0 clear_document) 200)\<rparr>)) = Some w' \<and>
     \<not> wget FETCHNEWINFODATA w' \<and> \<not> wget POSTNONEWDATA w') \<and>
   (\<exists>w'. clear_new_data_section (wset SETNEWINFODATA True (boot_world
       \<lparr>w_events_url := ''https://x/'', w_replies := (\<lambda>_. echo ''https://x/newData.json'' ''{}'' 401)\<rparr>)) = Some w' \<and>
     wget SETNEWINFODATA w' \<and> wget POSTNONEWDATA w')"
proof -
  have "plain clear_document \<and> nest clear_document \<le> CJSON_NESTING_LIMIT"
    "cJSON_GetObjectItem (Some clear_document) ''status'' = Some JFalse"
    by (simp_all add: clear_document_def json_build CJSON_NESTING_LIMIT_def NUL_def same_name_def tolower_def)
  then have p: "nothing_new ''https://x/newData.json'' (render False 0 clear_document)"
    using parsed_render [of clear_document False] newData_url(1) [of "''https://x/''"]
    by (auto simp: nothing_new_def Let_def suffix_def SERVER_URL_MAX_LEN_def)
  have "parsed ''{}'' = Some (JObject [])"
    using parsed_render [of "JObject []" False] by (simp add: CJSON_NESTING_LIMIT_def)
  then have q: "nothing_new ''https://x/newData.json'' ''{}''"
    using newData_url(1) [of "''https://x/''"] by (auto simp: nothing_new_def Let_def suffix_def SERVER_URL_MAX_LEN_def)
  let ?w = "\<lambda>f body s. wset f True (boot_world\<lparr>w_events_url := ''https://x/'', w_replies := (\<lambda>_. echo ''https://x/newData.json'' body s)\<rparr>)"
  have w: "\<exists>w'. clear_new_data_section (?w f body s) = Some w' \<and> w_urlSection w' = w_urlSection (?w f body s) \<and>
     reported HTTP_PUT (w_events_url (?w f body s) @ ''newData.json'') clear_document (?w f body s) w' \<and>
     (\<forall>g. wget g w' \<longleftrightarrow>
        (if rp_err (echo ''https://x/newData.json'' body s) = ESP_OK \<and> rp_status (echo ''https://x/newData.json'' body s) = 200
         then g \<notin> set cleared_flags \<and> wget g (?w f body s)
         else wget g (?w f body s) \<or> g = POSTNONEWDATA \<and> has_body (echo ''https://x/newData.json'' body s) \<and>
           (\<exists>g\<in>set pending_flags. wget g (?w f body s))))"
    if "nothing_new ''https://x/newData.json'' body" for f body s
    by (rule clear_new_data) (use that in \<open>simp_all add: boot_world_def wset_def SERVER_URL_MAX_LEN_def\<close>)
  obtain w1 where 1: "clear_new_data_section (?w FETCHNEWINFODATA (render False 0 clear_document) 200) = Some w1"
      "\<forall>g. wget g w1 \<longrightarrow> g \<notin> set cleared_flags"
    using w [OF p, of FETCHNEWINFODATA 200] by auto
  obtain w2 where 2: "clear_new_data_section (?w SETNEWINFODATA ''{}'' 401) = Some w2"
      "\<forall>g. wget g w2 \<longleftrightarrow> wget g (?w SETNEWINFODATA ''{}'' 401) \<or>
         g = POSTNONEWDATA \<and> (\<exists>g\<in>set pending_flags. wget g (?w SETNEWINFODATA ''{}'' 401))"
    using w [OF q, of SETNEWINFODATA 401] by auto
  have "wget SETNEWINFODATA (?w SETNEWINFODATA ''{}'' 401)" by simp
  moreover have "SETNEWINFODATA \<in> set pending_flags" by (simp add: pending_flags_def)
  ultimately have "wget SETNEWINFODATA w2" "wget POSTNONEWDATA w2" using 2(2) by blast+
  moreover have "\<not> wget FETCHNEWINFODATA w1" "\<not> wget POSTNONEWDATA w1" using 1(2) by (auto simp: cleared_flags_def)
  ultimately show ?thesis using 1(1) 2(1) by blast
qed

end
