(* ===== verification/Httpd.thy ===== *)
theory Httpd
  imports HttpClient
begin

text \<open>
  The parts of \<open>components/esp_http_server/src\<close> that decide what the web server of the firmware answers:
  the table of handlers with its two ways to match a URI (\<open>httpd_uri.c\<close>) and the access to the query
  string (\<open>httpd_parse.c\<close>). The split of a URI into path and query is the job of \<open>http_parser\<close>, which is
  not modelled: a request carries both.
\<close>

section \<open>Handlers\<close>

type_synonym httpd_method = nat

abbreviation (input) METHOD_GET :: httpd_method where "METHOD_GET \<equiv> 1"
abbreviation (input) METHOD_POST :: httpd_method where "METHOD_POST \<equiv> 3"

record 'h httpd_uri =
  hu_uri :: string
  hu_method :: httpd_method
  hu_handler :: 'h

datatype httpd_err_code = HTTPD_OK | HTTPD_404_NOT_FOUND | HTTPD_405_METHOD_NOT_ALLOWED

abbreviation (input) ESP_ERR_HTTPD_HANDLERS_FULL :: esp_err where "ESP_ERR_HTTPD_HANDLERS_FULL \<equiv> 0xb001"
abbreviation (input) ESP_ERR_HTTPD_HANDLER_EXISTS :: esp_err where "ESP_ERR_HTTPD_HANDLER_EXISTS \<equiv> 0xb002"
abbreviation (input) ESP_ERR_HTTPD_RESULT_TRUNC :: esp_err where "ESP_ERR_HTTPD_RESULT_TRUNC \<equiv> 0xb004"
abbreviation (input) ESP_ERR_HTTPD_ALLOC_MEM :: esp_err where "ESP_ERR_HTTPD_ALLOC_MEM \<equiv> 0xb007"
abbreviation (input) ESP_ERR_NOT_FOUND :: esp_err where "ESP_ERR_NOT_FOUND \<equiv> 0x105"

section \<open>Matching\<close>

definition httpd_uri_match_simple :: "string \<Rightarrow> string \<Rightarrow> bool" where
  "httpd_uri_match_simple uri1 uri2 \<longleftrightarrow> length uri1 = length uri2 \<and> strncmp_eq uri1 uri2 (length uri2)"

text \<open>The local variables \<open>last\<close> and \<open>prevlast\<close>, \<open>asterisk\<close> and \<open>quest\<close>.\<close>

definition last_char :: "string \<Rightarrow> char" where
  "last_char tpl = (if length tpl > 0 then tpl ! (length tpl - 1) else CHR 0x00)"

definition prevlast_char :: "string \<Rightarrow> char" where
  "prevlast_char tpl = (if length tpl > 1 then tpl ! (length tpl - 2) else CHR 0x00)"

definition asterisk :: "string \<Rightarrow> bool" where
  "asterisk tpl \<longleftrightarrow> last_char tpl = CHR ''*'' \<or> prevlast_char tpl = CHR ''*'' \<and> last_char tpl = CHR ''?''"

definition quest :: "string \<Rightarrow> bool" where
  "quest tpl \<longleftrightarrow> last_char tpl = CHR ''?'' \<or> prevlast_char tpl = CHR ''?'' \<and> last_char tpl = CHR ''*''"

definition httpd_uri_match_wildcard :: "string \<Rightarrow> string \<Rightarrow> bool" where
  "httpd_uri_match_wildcard tpl uri =
     (let special = of_bool (asterisk tpl) + of_bool (quest tpl) * 2
      in if length tpl < special then False
         else
           let exact_match_chars = length tpl - special
           in if length uri < exact_match_chars then False
              else if \<not> quest tpl then
                if \<not> asterisk tpl \<and> length uri \<noteq> exact_match_chars then False
                else strncmp_eq tpl uri exact_match_chars
              else if length uri > exact_match_chars \<and> tpl ! exact_match_chars \<noteq> uri ! exact_match_chars then False
              else if \<not> strncmp_eq tpl uri exact_match_chars then False
              else asterisk tpl \<or> length uri \<le> exact_match_chars + 1)"

section \<open>The table of handlers\<close>

text \<open>
  \<open>hd_calls\<close> is the array of \<open>max_uri_handlers\<close> pointers; \<open>hd_match\<close> is \<open>config.uri_match_fn\<close>, where
  \<open>None\<close> is the null pointer.
\<close>

record 'h httpd_data =
  hd_match :: "(string \<Rightarrow> string \<Rightarrow> bool) option"
  hd_calls :: "'h httpd_uri option list"

definition uri_matches :: "'h httpd_data \<Rightarrow> string \<Rightarrow> string \<Rightarrow> bool" where
  "uri_matches hs tpl uri =
     (case hd_match hs of Some f \<Rightarrow> f tpl uri | None \<Rightarrow> httpd_uri_match_simple tpl uri)"

fun find_loop :: "'h httpd_data \<Rightarrow> string \<Rightarrow> httpd_method \<Rightarrow> httpd_err_code \<Rightarrow> 'h httpd_uri option list \<Rightarrow>
    'h httpd_uri option \<times> httpd_err_code" where
  "find_loop hs uri m err [] = (None, err)"
| "find_loop hs uri m err (None # cs) = (None, err)"
| "find_loop hs uri m err (Some c # cs) =
     (if uri_matches hs (hu_uri c) uri
      then if hu_method c = m then (Some c, HTTPD_OK)
           else find_loop hs uri m HTTPD_405_METHOD_NOT_ALLOWED cs
      else find_loop hs uri m err cs)"

definition httpd_find_uri_handler :: "'h httpd_data \<Rightarrow> string \<Rightarrow> httpd_method \<Rightarrow>
    'h httpd_uri option \<times> httpd_err_code" where
  "httpd_find_uri_handler hs uri m = find_loop hs uri m HTTPD_404_NOT_FOUND (hd_calls hs)"

text \<open>The first free slot is used; \<open>mem\<close> tells whether the allocation of the entry succeeds (its \<open>strdup\<close> does).\<close>

fun install :: "bool \<Rightarrow> 'h httpd_uri \<Rightarrow> 'h httpd_uri option list \<Rightarrow> esp_err \<times> 'h httpd_uri option list" where
  "install mem u [] = (ESP_ERR_HTTPD_HANDLERS_FULL, [])"
| "install mem u (None # cs) = (if mem then (ESP_OK, Some u # cs) else (ESP_ERR_HTTPD_ALLOC_MEM, None # cs))"
| "install mem u (Some c # cs) = (case install mem u cs of (e, cs') \<Rightarrow> (e, Some c # cs'))"

definition httpd_register_uri_handler :: "bool \<Rightarrow> 'h httpd_uri \<Rightarrow> 'h httpd_data \<Rightarrow> esp_err \<times> 'h httpd_data" where
  "httpd_register_uri_handler mem u hs =
     (if fst (httpd_find_uri_handler hs (hu_uri u) (hu_method u)) \<noteq> None then (ESP_ERR_HTTPD_HANDLER_EXISTS, hs)
      else (case install mem u (hd_calls hs) of (e, cs) \<Rightarrow> (e, hs\<lparr>hd_calls := cs\<rparr>)))"

section \<open>The query string\<close>

text \<open>
  The result holds the error code and what is written to the buffer, \<open>None\<close> when nothing is. The
  loop goes on with a shorter string each time.
\<close>

definition strncasecmp_eq :: "string \<Rightarrow> string \<Rightarrow> nat \<Rightarrow> bool" where
  "strncasecmp_eq a b n \<longleftrightarrow> map tolower (take n a) = map tolower (take n b)"

lemma strchr_length: "strchr s c = Some t \<Longrightarrow> t \<noteq> [] \<and> length t \<le> length s"
  by (induction s) (auto split: if_splits)

function httpd_query_key_value :: "string \<Rightarrow> string \<Rightarrow> nat \<Rightarrow> esp_err \<times> string option" where
  "httpd_query_key_value qry key buf_len =
     (if qry = [] then (ESP_ERR_NOT_FOUND, None)
      else (case strchr qry (CHR ''='') of
              None \<Rightarrow> (ESP_ERR_NOT_FOUND, None)
            | Some val_ptr \<Rightarrow>
                let offset = length qry - length val_ptr
                in if offset \<noteq> length key \<or> \<not> strncasecmp_eq qry key offset then
                     (case strchr val_ptr (CHR ''&'') of
                        None \<Rightarrow> (ESP_ERR_NOT_FOUND, None)
                      | Some rest \<Rightarrow> httpd_query_key_value (tl rest) key buf_len)
                   else
                     let val = tl val_ptr;
                         next = (case strchr val (CHR ''&'') of None \<Rightarrow> [] | Some r \<Rightarrow> r);
                         val_size = length val - length next + 1
                     in (if buf_len < val_size then ESP_ERR_HTTPD_RESULT_TRUNC else ESP_OK,
                         Some (strlcpy_s (min val_size buf_len) val))))"
  by pat_completeness auto

termination
proof (relation "measure (\<lambda>(q, _, _). length q)", goal_cases)
  case (2 qry key buf_len val_ptr offset rest)
  then have "length rest \<le> length qry" "rest \<noteq> []"
    using strchr_length [of qry "CHR ''=''" val_ptr] strchr_length [of val_ptr "CHR ''&''" rest] by auto
  then show ?case by (cases rest) simp_all
qed simp

declare httpd_query_key_value.simps [simp del]

definition httpd_req_get_url_query_str :: "string option \<Rightarrow> nat \<Rightarrow> esp_err \<times> string option" where
  "httpd_req_get_url_query_str query buf_len =
     (case query of
        None \<Rightarrow> (ESP_ERR_NOT_FOUND, None)
      | Some q \<Rightarrow>
          let min_buf_len = length q + 1
          in (if buf_len < min_buf_len then ESP_ERR_HTTPD_RESULT_TRUNC else ESP_OK,
              Some (strlcpy_s (min buf_len min_buf_len) q)))"

section \<open>Matching, as a specification\<close>

lemma strncmp_eq_append: "strncmp_eq (p @ q) uri (length p) = prefix p uri"
proof -
  have "strncmp_eq (p @ q) uri (length p) \<longleftrightarrow> strncmp_eq uri p (length p)"
    by (auto simp: strncmp_eq_def)
  then show ?thesis by (simp add: strncmp_eq_prefix)
qed

lemma prefix_length_eq: "prefix p uri \<Longrightarrow> length uri = length p \<Longrightarrow> uri = p"
  by (auto simp: prefix_def)

lemma prefix_iff_take: "prefix p s \<longleftrightarrow> take (length p) s = p"
proof
  assume "take (length p) s = p"
  then have "s = p @ drop (length p) s" using append_take_drop_id [of "length p" s] by simp
  then show "prefix p s" by (rule prefixI)
qed (auto simp: prefix_def)

lemma prefix_next: "length p < length uri \<Longrightarrow> prefix (p @ [c]) uri \<longleftrightarrow> prefix p uri \<and> uri ! length p = c"
  by (auto simp: prefix_iff_take take_Suc_conv_app_nth)

lemma wildcard_core:
  assumes "length s = of_bool (asterisk (p @ s)) + of_bool (quest (p @ s)) * 2"
  shows "httpd_uri_match_wildcard (p @ s) uri \<longleftrightarrow>
     (if \<not> quest (p @ s) then if asterisk (p @ s) then prefix p uri else uri = p
      else (length p < length uri \<longrightarrow> uri ! length p = hd s) \<and> prefix p uri \<and>
        (asterisk (p @ s) \<or> length uri \<le> length p + 1))"
proof -
  have e: "length (p @ s) - (of_bool (asterisk (p @ s)) + of_bool (quest (p @ s)) * 2) = length p"
    using assms by simp
  have h: "(p @ s) ! length p = hd s" if "quest (p @ s)"
    using assms that by (cases s) (simp_all add: nth_append)
  have le: "prefix p uri \<Longrightarrow> length p \<le> length uri" by (rule prefix_length_le)
  have eq: "uri = p \<longleftrightarrow> prefix p uri \<and> length uri = length p" using prefix_length_eq by auto
  show ?thesis
    unfolding httpd_uri_match_wildcard_def Let_def e strncmp_eq_append
    using assms h le by (cases "quest (p @ s)"; cases "asterisk (p @ s)") (auto simp: eq)
qed

lemma special_chars:
  "last_char (p @ [c]) = c" "last_char [] = CHR 0x00"
  "prevlast_char (p @ [c, d]) = c" "prevlast_char [d] = CHR 0x00"
  by (simp_all add: last_char_def prevlast_char_def nth_append)

lemma special_of_append:
  "asterisk (p @ ''*'')" "quest (p @ ''*'') \<longleftrightarrow> p \<noteq> [] \<and> last p = CHR ''?''"
  "asterisk (p @ [c] @ ''?'') \<longleftrightarrow> c = CHR ''*''" "quest (p @ [c] @ ''?'')"
  "asterisk (p @ [c] @ ''?*'')" "quest (p @ [c] @ ''?*'')"
  using special_chars(1) [of p "CHR ''*''"] special_chars(1) [of "p @ [c]" "CHR ''?''"]
    special_chars(1) [of "p @ [c, CHR ''?'']" "CHR ''*''"] special_chars(3) [of p c "CHR ''?''"]
    special_chars(3) [of "p @ [c]" "CHR ''?''" "CHR ''*''"]
  by (cases p rule: rev_cases; simp add: asterisk_def quest_def special_chars prevlast_char_def last_char_def nth_append)+

lemma special_of_literal:
  "p = [] \<or> last p \<notin> {CHR ''*'', CHR ''?''} \<Longrightarrow> \<not> asterisk p \<and> \<not> quest p"
  by (cases p rule: rev_cases) (auto simp: asterisk_def quest_def special_chars)

lemma wildcard_literal:
  "p = [] \<or> last p \<notin> {CHR ''*'', CHR ''?''} \<Longrightarrow> httpd_uri_match_wildcard p uri \<longleftrightarrow> uri = p"
  using wildcard_core [of "[]" p] special_of_literal [of p] by simp

lemma wildcard_prefix:
  "p = [] \<or> last p \<noteq> CHR ''?'' \<Longrightarrow> httpd_uri_match_wildcard (p @ ''*'') uri \<longleftrightarrow> prefix p uri"
  using wildcard_core [of "''*''" p] special_of_append(1,2) [of p] by auto

lemma optional_char:
  "(length p < length uri \<longrightarrow> uri ! length p = c) \<and> prefix p uri \<longleftrightarrow> uri = p \<or> prefix (p @ [c]) uri"
  using prefix_next [of p uri c] prefix_length_eq [of p uri] prefix_length_le [of p uri]
  by (cases "length p < length uri") (auto dest: prefix_length_le)

lemma wildcard_optional:
  assumes "c \<noteq> CHR ''*''"
  shows "httpd_uri_match_wildcard (p @ [c] @ ''?'') uri \<longleftrightarrow> uri = p \<or> uri = p @ [c]"
proof -
  have "httpd_uri_match_wildcard (p @ [c] @ ''?'') uri \<longleftrightarrow>
      ((length p < length uri \<longrightarrow> uri ! length p = c) \<and> prefix p uri) \<and> length uri \<le> length p + 1"
    using wildcard_core [of "[c] @ ''?''" p] special_of_append(3,4) [of p c] assms by auto
  then show ?thesis
    unfolding optional_char using prefix_length_eq [of "p @ [c]" uri] prefix_length_le [of "p @ [c]" uri] by auto
qed

lemma wildcard_both: "httpd_uri_match_wildcard (p @ [c] @ ''?*'') uri \<longleftrightarrow> uri = p \<or> prefix (p @ [c]) uri"
  using wildcard_core [of "[c] @ ''?*''" p] special_of_append(5,6) [of p c] optional_char [of p uri c] by auto

section \<open>The query string, as a specification\<close>

fun query_of :: "(string \<times> string) list \<Rightarrow> string" where
  "query_of [] = []"
| "query_of [(k, v)] = k @ ''='' @ v"
| "query_of ((k, v) # kv # kvs) = k @ ''='' @ v @ ''&'' @ query_of (kv # kvs)"

definition query_ok :: "(string \<times> string) list \<Rightarrow> bool" where
  "query_ok kvs \<longleftrightarrow> (\<forall>(k, v)\<in>set kvs. CHR ''='' \<notin> set k \<and> CHR ''&'' \<notin> set v)"

definition query_lookup :: "(string \<times> string) list \<Rightarrow> string \<Rightarrow> string option" where
  "query_lookup kvs key = map_option snd (find (\<lambda>(k, v). same_name k key) kvs)"

lemma query_step:
  assumes "CHR ''='' \<notin> set k" "CHR ''&'' \<notin> set v" "rest = [] \<or> (\<exists>q. rest = CHR ''&'' # q)"
  shows "httpd_query_key_value (k @ ''='' @ v @ rest) key n =
     (if same_name k key then
        (if n < length v + 1 then ESP_ERR_HTTPD_RESULT_TRUNC else ESP_OK, Some (strlcpy_s (min (length v + 1) n) (v @ rest)))
      else if rest = [] then (ESP_ERR_NOT_FOUND, None) else httpd_query_key_value (tl rest) key n)"
proof -
  let ?q = "k @ ''='' @ v @ rest"
  have eq: "strchr ?q (CHR ''='') = Some (''='' @ v @ rest)" using assms(1) by (simp add: strchr_append)
  have amp: "strchr (v @ rest) (CHR ''&'') = (if rest = [] then None else Some rest)"
      "strchr (CHR ''='' # v @ rest) (CHR ''&'') = (if rest = [] then None else Some rest)"
    using assms(2,3) strchr_None_iff [of v "CHR ''&''"] strchr_append [of "CHR ''&''" v] by auto
  have name: "(length k \<noteq> length key \<or> \<not> strncasecmp_eq ?q key (length k)) = (\<not> same_name k key)"
  proof -
    have "same_name k key \<Longrightarrow> length k = length key"
      by (auto simp: same_name_def dest: map_eq_imp_length_eq)
    then show ?thesis by (auto simp: strncasecmp_eq_def same_name_def)
  qed
  have len: "length ?q - length (''='' @ v @ rest) = length k" by simp
  have ne: "?q \<noteq> []" by simp
  show ?thesis
    unfolding httpd_query_key_value.simps [of ?q key n] eq option.case Let_def len name if_not_P [OF ne]
    using amp by (cases "rest = []"; cases "same_name k key") simp_all
qed

lemma query_lookup_correct:
  assumes "query_ok kvs"
  shows "httpd_query_key_value (query_of kvs) key n =
     (case query_lookup kvs key of
        None \<Rightarrow> (ESP_ERR_NOT_FOUND, None)
      | Some v \<Rightarrow> (if n \<le> length v then ESP_ERR_HTTPD_RESULT_TRUNC else ESP_OK, Some (take (n - 1) v)))"
  using assms
proof (induction kvs rule: query_of.induct)
  case 1
  then show ?case by (subst httpd_query_key_value.simps) (simp add: query_lookup_def)
next
  case (2 k v)
  then show ?case
    using query_step [of k v "[]" key n] by (auto simp: query_ok_def query_lookup_def strlcpy_s_def min_def)
next
  case (3 k v kv kvs)
  then have kv: "CHR ''='' \<notin> set k" "CHR ''&'' \<notin> set v" "query_ok (kv # kvs)" by (auto simp: query_ok_def)
  show ?case
  proof (cases "same_name k key")
    case True
    then show ?thesis
      using query_step [of k v "''&'' @ query_of (kv # kvs)" key n] kv
      by (auto simp: query_lookup_def strlcpy_s_def min_def)
  next
    case False
    then show ?thesis
      using query_step [of k v "''&'' @ query_of (kv # kvs)" key n] kv 3(1) by (simp add: query_lookup_def)
  qed
qed

section \<open>Properties\<close>

text \<open>
  C34. \<open>httpd_uri_match_wildcard\<close> implements the documented templates: a literal matches itself, a final
  \<open>*\<close> any continuation, a final \<open>?\<close> makes the character before it optional, and both together any
  continuation behind an optional character.
\<close>

theorem wildcard_templates:
  "(p = [] \<or> last p \<notin> {CHR ''*'', CHR ''?''} \<longrightarrow> (httpd_uri_match_wildcard p uri \<longleftrightarrow> uri = p)) \<and>
   (p = [] \<or> last p \<noteq> CHR ''?'' \<longrightarrow> (httpd_uri_match_wildcard (p @ ''*'') uri \<longleftrightarrow> prefix p uri)) \<and>
   (c \<noteq> CHR ''*'' \<longrightarrow> (httpd_uri_match_wildcard (p @ [c] @ ''?'') uri \<longleftrightarrow> uri = p \<or> uri = p @ [c])) \<and>
   (httpd_uri_match_wildcard (p @ [c] @ ''?*'') uri \<longleftrightarrow> uri = p \<or> prefix (p @ [c]) uri)"
  using wildcard_literal [of p uri] wildcard_prefix [of p uri] wildcard_optional [of c p uri] wildcard_both [of p c uri]
  by blast

theorem wildcard_templates_witness:
  "httpd_uri_match_wildcard ''/api'' ''/api'' \<and> httpd_uri_match_wildcard ''/api/*'' ''/api/x'' \<and>
   httpd_uri_match_wildcard ''/api/?'' ''/api'' \<and> \<not> httpd_uri_match_wildcard ''/api/?'' ''/api/x''"
  using wildcard_templates [of "''/api''" "''/api''" "CHR ''/''"] wildcard_templates [of "''/api/''" "''/api/x''" "CHR ''/''"]
    wildcard_templates [of "''/api''" "''/api/x''" "CHR ''/''"]
  by simp

text \<open>
  On a query string built from name and value pairs \<open>httpd_query_key_value\<close> returns the value of the
  first pair with the name, without regard to case; a value that does not fit is cut and reported.
\<close>

theorem query_key_value:
  assumes "query_ok kvs"
  shows "httpd_query_key_value (query_of kvs) key n =
     (case query_lookup kvs key of
        None \<Rightarrow> (ESP_ERR_NOT_FOUND, None)
      | Some v \<Rightarrow> (if n \<le> length v then ESP_ERR_HTTPD_RESULT_TRUNC else ESP_OK, Some (take (n - 1) v)))"
  using assms by (rule query_lookup_correct)

theorem query_key_value_witness:
  "httpd_query_key_value ''x=1&FILE=a.js'' ''file'' 256 = (ESP_OK, Some ''a.js'')"
  using query_key_value [of "[(''x'', ''1''), (''FILE'', ''a.js'')]" "''file''" 256]
  by (simp add: query_ok_def query_lookup_def same_name_def tolower_def char_of_def bit_0)

end
