(* ===== verification/Webserver.thy ===== *)
theory Webserver
  imports Httpd
begin

text \<open>
  The web server of \<open>main/webserver.c\<close>: the four handlers, their registration in \<open>start_webserver\<close>,
  and the dispatch of a request. A handler leaves a list of response operations. The file system is
  a parameter, a map from paths to contents (\<open>fopen\<close> fails outside of its domain); \<open>None\<close> is undefined
  behaviour.
\<close>

section \<open>Requests and responses\<close>

datatype resp_op =
    Set_type string
  | Set_hdr string string
  | Resp_send string
  | Send_chunk string
  | Send_err int string
  | Send_408

text \<open>
  \<open>hr_recv\<close> is the result of \<open>httpd_req_recv\<close> with the bytes it stored, \<open>hr_junk\<close> the bytes that the stack
  buffer of the POST handler held before.
\<close>

record httpd_req =
  hr_uri :: string
  hr_path :: string
  hr_query :: "string option"
  hr_method :: httpd_method
  hr_recv :: "int \<times> string"
  hr_junk :: string

type_synonym fs = "string \<rightharpoonup> string"

definition FULL_PATH_MAX :: nat where "FULL_PATH_MAX = 264"
definition FILE_PATH_MAX :: nat where "FILE_PATH_MAX = 256"

section \<open>Handlers\<close>

text \<open>
  \<open>printf\<close> of the buffer needs a terminator in it, whatever \<open>httpd_req_recv\<close> stored;
  \<open>HTTPD_SOCK_ERR_TIMEOUT\<close> is \<open>-3\<close>.
\<close>

definition server_post_handler :: "httpd_req \<Rightarrow> world \<Rightarrow> (esp_err \<times> resp_op list \<times> world) option" where
  "server_post_handler req w =
     (case hr_recv req of (ret, data) \<Rightarrow>
        let content = data @ drop (length data) (hr_junk req)
        in if CHR 0x00 \<notin> set content then None
           else if ret \<le> 0 then Some (ESP_FAIL, if ret = -3 then [Send_408] else [], w)
           else Some (ESP_OK, [Set_type ''text/html'', Set_hdr ''Access-Control-Allow-Origin'' ''*'',
                  Resp_send ''Server POST Response .................''], w))"

text \<open>The loop that reads 1024 bytes at a time.\<close>

function chunks :: "string \<Rightarrow> resp_op list" where
  "chunks content = (if content = [] then [] else Send_chunk (take 1024 content) # chunks (drop 1024 content))"
  by pat_completeness auto

termination by (relation "measure length") auto

declare chunks.simps [simp del]

definition mime_type :: "string \<Rightarrow> string" where
  "mime_type filepath =
     (case strrchr filepath (CHR ''.'') of
        Some ext \<Rightarrow>
          if ext = ''.html'' then ''text/html''
          else if ext = ''.js'' then ''application/javascript''
          else if ext = ''.css'' then ''text/css''
          else if ext = ''.png'' then ''image/png''
          else if ext = ''.jpg'' then ''image/jpeg''
          else if ext = ''.ico'' then ''image/x-icon''
          else ''text/plain''
      | None \<Rightarrow> ''text/plain'')"

definition send_file :: "string \<Rightarrow> string \<Rightarrow> world \<Rightarrow> (esp_err \<times> resp_op list \<times> world) option" where
  "send_file mime content w =
     (case malloc w of (ok, w1) \<Rightarrow>
        if \<not> ok then None
        else Some (ESP_OK, Set_type mime # chunks content @ [Send_chunk []], w1))"

definition file_get_handler :: "fs \<Rightarrow> httpd_req \<Rightarrow> world \<Rightarrow> (esp_err \<times> resp_op list \<times> world) option" where
  "file_get_handler fs req w =
     (case httpd_req_get_url_query_str (hr_query req) 128 of (qerr, query) \<Rightarrow>
        if qerr = ESP_OK then
          (case httpd_query_key_value (the query) ''file'' FILE_PATH_MAX of (ferr, f) \<Rightarrow>
             if ferr = ESP_OK then
               let file = the f
               in if FULL_PATH_MAX < length file + length ''/spiffs/'' + 1 then
                    Some (ESP_FAIL, [Send_err 500 ''File path too long''], w)
                  else
                    let linea = strlcat_s 16 (strlcpy_s 16 ''FILE: '') file;
                        w1 = (show_lines ''ACCESO WEB'' linea w)\<lparr>w_linea := linea\<rparr>;
                        filepath = strlcat_s FULL_PATH_MAX (strlcpy_s FULL_PATH_MAX ''/spiffs/'') file
                    in (case fs filepath of
                          None \<Rightarrow> Some (ESP_FAIL, [Send_err 404 ''File not found''], w1)
                        | Some content \<Rightarrow> send_file (mime_type filepath) content w1)
             else Some (ESP_FAIL, [Send_err 400 ''File query parameter not found''], w))
        else Some (ESP_FAIL, [Send_err 400 ''No query found''], w))"

definition api_get_handler :: "httpd_req \<Rightarrow> world \<Rightarrow> (esp_err \<times> resp_op list \<times> world) option" where
  "api_get_handler req w =
     (let w1 = show_lines ''ACCESO WEB'' ''API: CONN INFO'' w
      in if hr_uri req = ''/connectionInfo'' then
           Some (ESP_OK, [Set_type ''application/json'',
             Resp_send (''{'' @ [CHR 0x22] @ ''status'' @ [CHR 0x22] @ '': '' @ [CHR 0x22] @ ''connected'' @ [CHR 0x22] @ ''}'')], w1)
         else Some (ESP_FAIL, [Send_err 404 ''API endpoint not found''], w1))"

definition index_get_handler :: "fs \<Rightarrow> world \<Rightarrow> (esp_err \<times> resp_op list \<times> world) option" where
  "index_get_handler fs w =
     (let w1 = show_lines ''ACCESO WEB'' ''CARGANDO UI'' w
      in case fs ''/spiffs/index.html'' of
           None \<Rightarrow> Some (ESP_FAIL, [Send_err 404 ''File not found''], w1)
         | Some content \<Rightarrow> send_file ''text/html'' content w1)"

section \<open>The server\<close>

datatype web_handler = Index_get | File_get | Api_get | Server_post

definition web_uris :: "web_handler httpd_uri list" where
  "web_uris =
     [\<lparr>hu_uri = ''/'', hu_method = METHOD_GET, hu_handler = Index_get\<rparr>,
      \<lparr>hu_uri = ''/file'', hu_method = METHOD_GET, hu_handler = File_get\<rparr>,
      \<lparr>hu_uri = ''/*'', hu_method = METHOD_GET, hu_handler = Api_get\<rparr>,
      \<lparr>hu_uri = ''/'', hu_method = METHOD_POST, hu_handler = Server_post\<rparr>]"

text \<open>
  The results of \<open>httpd_register_uri_handler\<close> are ignored. Both default configurations have eight slots;
  that of HTTPS keeps the null matcher.
\<close>

definition start_webserver :: "bool \<Rightarrow> bool \<Rightarrow> bool \<Rightarrow> web_handler httpd_data option" where
  "start_webserver use_ssl started mem =
     (if \<not> started then None
      else Some (fold (\<lambda>u hs. snd (httpd_register_uri_handler mem u hs)) web_uris
             \<lparr>hd_match = if use_ssl then None else Some httpd_uri_match_wildcard, hd_calls = replicate 8 None\<rparr>))"

fun run_handler :: "fs \<Rightarrow> web_handler \<Rightarrow> httpd_req \<Rightarrow> world \<Rightarrow> (esp_err \<times> resp_op list \<times> world) option" where
  "run_handler fs Index_get req w = index_get_handler fs w"
| "run_handler fs File_get req w = file_get_handler fs req w"
| "run_handler fs Api_get req w = api_get_handler req w"
| "run_handler fs Server_post req w = server_post_handler req w"

text \<open>\<open>httpd_uri\<close>: the handler of the request, or the error response.\<close>

definition httpd_uri :: "fs \<Rightarrow> web_handler httpd_data \<Rightarrow> httpd_req \<Rightarrow> world \<Rightarrow> (esp_err \<times> resp_op list \<times> world) option" where
  "httpd_uri fs hs req w =
     (case httpd_find_uri_handler hs (hr_path req) (hr_method req) of
        (Some u, _) \<Rightarrow> run_handler fs (hu_handler u) req w
      | (None, HTTPD_404_NOT_FOUND) \<Rightarrow> Some (ESP_FAIL, [Send_err 404 ''Nothing matches the given URI''], w)
      | (None, HTTPD_405_METHOD_NOT_ALLOWED) \<Rightarrow>
          Some (ESP_FAIL, [Send_err 405 ''Specified method is invalid for this resource''], w)
      | (None, HTTPD_OK) \<Rightarrow> Some (ESP_FAIL, [], w))"

section \<open>The interface of the matchers\<close>

text \<open>
  What the dispatch of literal URIs needs from \<open>uri_match_fn\<close>: a template without a special character at
  its end matches itself only. Both matchers provide it.
\<close>

locale uri_matcher =
  fixes matches :: "string \<Rightarrow> string \<Rightarrow> bool"
  assumes literal: "p = [] \<or> last p \<notin> {CHR ''*'', CHR ''?''} \<Longrightarrow> matches p uri \<longleftrightarrow> uri = p"
begin

lemma root_or_file: "matches ''/'' uri \<longleftrightarrow> uri = ''/''" "matches ''/file'' uri \<longleftrightarrow> uri = ''/file''"
  by (rule literal; simp)+

lemma route_literals:
  assumes "\<And>t. uri_matches hs t = matches t"
  shows "find_loop hs ''/'' METHOD_GET err (map Some web_uris @ cs) =
      (Some \<lparr>hu_uri = ''/'', hu_method = METHOD_GET, hu_handler = Index_get\<rparr>, HTTPD_OK)"
    and "find_loop hs ''/file'' METHOD_GET err (map Some web_uris @ cs) =
      (Some \<lparr>hu_uri = ''/file'', hu_method = METHOD_GET, hu_handler = File_get\<rparr>, HTTPD_OK)"
    and "find_loop hs ''/'' METHOD_POST err (map Some web_uris @ cs) =
      (Some \<lparr>hu_uri = ''/'', hu_method = METHOD_POST, hu_handler = Server_post\<rparr>, HTTPD_OK)"
  by (simp_all add: web_uris_def assms root_or_file)

end

interpretation wild: uri_matcher httpd_uri_match_wildcard
  by unfold_locales (rule wildcard_literal)

lemma match_simple_eq: "httpd_uri_match_simple t uri \<longleftrightarrow> uri = t"
  by (auto simp: httpd_uri_match_simple_def strncmp_eq_def)

interpretation plain_match: uri_matcher httpd_uri_match_simple
  by unfold_locales (rule match_simple_eq)

definition web_data :: "bool \<Rightarrow> web_handler httpd_data" where
  "web_data use_ssl = \<lparr>hd_match = if use_ssl then None else Some httpd_uri_match_wildcard,
     hd_calls = map Some web_uris @ replicate 4 None\<rparr>"

lemma register_match [simp]: "hd_match (snd (httpd_register_uri_handler mem u hs)) = hd_match hs"
  by (simp add: httpd_register_uri_handler_def split: prod.split)

lemma fold_register_match: "hd_match (fold (\<lambda>u hs. snd (httpd_register_uri_handler mem u hs)) us hs) = hd_match hs"
  by (induction us arbitrary: hs) simp_all

lemma start_webserver_data: "start_webserver use_ssl True True = Some (web_data use_ssl)"
proof -
  let ?start = "fold (\<lambda>u hs. snd (httpd_register_uri_handler True u hs)) web_uris
     \<lparr>hd_match = if use_ssl then None else Some httpd_uri_match_wildcard, hd_calls = replicate 8 None\<rparr>"
  have "hd_calls (fold (\<lambda>u hs. snd (httpd_register_uri_handler True u hs)) web_uris
      \<lparr>hd_match = None, hd_calls = replicate 8 None\<rparr>) = map Some web_uris @ replicate 4 None"
    and "hd_calls (fold (\<lambda>u hs. snd (httpd_register_uri_handler True u hs)) web_uris
      \<lparr>hd_match = Some httpd_uri_match_wildcard, hd_calls = replicate 8 None\<rparr>) = map Some web_uris @ replicate 4 None"
    by code_simp+
  then have "hd_calls ?start = hd_calls (web_data use_ssl)" by (simp add: web_data_def)
  moreover have "hd_match ?start = hd_match (web_data use_ssl)" by (simp add: fold_register_match web_data_def)
  ultimately show ?thesis by (simp add: start_webserver_def)
qed

lemma web_matches: "uri_matches (web_data use_ssl) = (if use_ssl then httpd_uri_match_simple else httpd_uri_match_wildcard)"
  by (simp add: fun_eq_iff uri_matches_def web_data_def)

text \<open>The handler of each request.\<close>

definition route :: "bool \<Rightarrow> string \<Rightarrow> httpd_method \<Rightarrow> web_handler option \<times> httpd_err_code" where
  "route use_ssl path m =
     (case httpd_find_uri_handler (web_data use_ssl) path m of (u, err) \<Rightarrow> (map_option hu_handler u, err))"

lemma find_loop_free [simp]: "find_loop hs uri m err (replicate n None) = (None, err)"
  by (cases n) simp_all

lemma web_route_literals:
  "route use_ssl ''/'' METHOD_GET = (Some Index_get, HTTPD_OK)"
  "route use_ssl ''/file'' METHOD_GET = (Some File_get, HTTPD_OK)"
  "route use_ssl ''/'' METHOD_POST = (Some Server_post, HTTPD_OK)"
  using wild.route_literals [of "web_data use_ssl" HTTPD_404_NOT_FOUND "replicate 4 None"]
    plain_match.route_literals [of "web_data use_ssl" HTTPD_404_NOT_FOUND "replicate 4 None"] web_matches [of use_ssl]
  by (cases use_ssl; simp add: route_def httpd_find_uri_handler_def web_data_def)+

lemma web_find:
  "route use_ssl path m = (case find_loop (web_data use_ssl) path m HTTPD_404_NOT_FOUND (map Some web_uris @ replicate 4 None) of
     (u, err) \<Rightarrow> (map_option hu_handler u, err))"
  by (simp add: route_def httpd_find_uri_handler_def web_data_def)

lemma route_other_wildcard:
  assumes "path \<noteq> ''/''" "path \<noteq> ''/file''"
  shows "route False path m =
     (if prefix ''/'' path then if m = METHOD_GET then (Some Api_get, HTTPD_OK) else (None, HTTPD_405_METHOD_NOT_ALLOWED)
      else (None, HTTPD_404_NOT_FOUND))"
  using assms wildcard_prefix [of "''/''" path]
  by (simp add: web_find web_uris_def web_matches wild.root_or_file)

lemma route_other_simple:
  assumes "path \<notin> {''/'', ''/file'', ''/*''}"
  shows "route True path m = (None, HTTPD_404_NOT_FOUND)"
  using assms by (simp add: web_find web_uris_def web_matches match_simple_eq)

lemma httpd_uri_route:
  "httpd_uri fs (web_data use_ssl) req w =
     (case route use_ssl (hr_path req) (hr_method req) of
        (Some h, _) \<Rightarrow> run_handler fs h req w
      | (None, HTTPD_404_NOT_FOUND) \<Rightarrow> Some (ESP_FAIL, [Send_err 404 ''Nothing matches the given URI''], w)
      | (None, HTTPD_405_METHOD_NOT_ALLOWED) \<Rightarrow>
          Some (ESP_FAIL, [Send_err 405 ''Specified method is invalid for this resource''], w)
      | (None, HTTPD_OK) \<Rightarrow> Some (ESP_FAIL, [], w))"
  by (cases "httpd_find_uri_handler (web_data use_ssl) (hr_path req) (hr_method req)")
    (simp add: httpd_uri_def route_def split: option.split httpd_err_code.split)

section \<open>Files\<close>

lemma chunks_spec:
  "\<exists>pieces. chunks content = map Send_chunk pieces \<and> concat pieces = content \<and>
     (\<forall>c\<in>set pieces. c \<noteq> [] \<and> length c \<le> 1024)"
proof (induction content rule: chunks.induct)
  case (1 content)
  show ?case
  proof (cases "content = []")
    case True
    then show ?thesis by (intro exI [of _ "[]"]) (simp add: chunks.simps)
  next
    case False
    then obtain pieces where "chunks (drop 1024 content) = map Send_chunk pieces" "concat pieces = drop 1024 content"
        "\<forall>c\<in>set pieces. c \<noteq> [] \<and> length c \<le> 1024"
      using 1 by blast
    then show ?thesis
      using False by (intro exI [of _ "take 1024 content # pieces"]) (simp add: chunks.simps [of content])
  qed
qed

lemma file_path_fits:
  assumes "length file < FILE_PATH_MAX"
  shows "strlcat_s FULL_PATH_MAX (strlcpy_s FULL_PATH_MAX ''/spiffs/'') file = ''/spiffs/'' @ file"
    and "\<not> FULL_PATH_MAX < length file + length ''/spiffs/'' + 1"
  using assms by (simp_all add: strlcat_s_fits strlcpy_s_fits FULL_PATH_MAX_def FILE_PATH_MAX_def)

definition body_of :: "resp_op list \<Rightarrow> string" where
  "body_of ops = concat (map (\<lambda>op. case op of Send_chunk c \<Rightarrow> c | _ \<Rightarrow> []) ops)"

lemma query_file:
  assumes "query_ok kvs" "length (query_of kvs) < 128" "query_lookup kvs ''file'' = Some file"
  shows "httpd_req_get_url_query_str (Some (query_of kvs)) 128 = (ESP_OK, Some (query_of kvs))"
    and "httpd_query_key_value (query_of kvs) ''file'' FILE_PATH_MAX = (ESP_OK, Some file)"
    and "length file < FILE_PATH_MAX"
proof -
  have "length v \<le> length (query_of kvs)" if "(k, v) \<in> set kvs" for k v
    using that by (induction kvs rule: query_of.induct) auto
  moreover obtain k where "(k, file) \<in> set kvs"
    using assms(3) by (auto simp: query_lookup_def find_Some_iff) (metis nth_mem)
  ultimately show l: "length file < FILE_PATH_MAX" using assms(2) by (force simp: FILE_PATH_MAX_def)
  show "httpd_req_get_url_query_str (Some (query_of kvs)) 128 = (ESP_OK, Some (query_of kvs))"
    using assms(2) by (simp add: httpd_req_get_url_query_str_def strlcpy_s_def)
  show "httpd_query_key_value (query_of kvs) ''file'' FILE_PATH_MAX = (ESP_OK, Some file)"
    using query_lookup_correct [OF assms(1), of "''file''" FILE_PATH_MAX] assms(3) l by simp
qed

section \<open>Properties\<close>

lemma web_dispatch_parts:
  assumes "start_webserver use_ssl True True = Some hs"
  shows "hr_path req = ''/'' \<Longrightarrow> hr_method req = METHOD_GET \<Longrightarrow> httpd_uri fs hs req w = index_get_handler fs w"
    and "hr_path req = ''/file'' \<Longrightarrow> hr_method req = METHOD_GET \<Longrightarrow> httpd_uri fs hs req w = file_get_handler fs req w"
    and "hr_path req = ''/'' \<Longrightarrow> hr_method req = METHOD_POST \<Longrightarrow> httpd_uri fs hs req w = server_post_handler req w"
    and "\<not> use_ssl \<Longrightarrow> hr_path req = ''/'' @ p \<Longrightarrow> p \<notin> {[], ''file''} \<Longrightarrow> hr_method req = METHOD_GET \<Longrightarrow>
       httpd_uri fs hs req w = api_get_handler req w"
    and "\<not> use_ssl \<Longrightarrow> hr_path req = ''/'' @ p \<Longrightarrow> p \<notin> {[], ''file''} \<Longrightarrow> hr_method req \<noteq> METHOD_GET \<Longrightarrow>
       httpd_uri fs hs req w = Some (ESP_FAIL, [Send_err 405 ''Specified method is invalid for this resource''], w)"
    and "use_ssl \<Longrightarrow> hr_path req \<notin> {''/'', ''/file'', ''/*''} \<Longrightarrow>
       httpd_uri fs hs req w = Some (ESP_FAIL, [Send_err 404 ''Nothing matches the given URI''], w)"
proof -
  have "hs = web_data use_ssl" using assms by (simp add: start_webserver_data)
  then show "hr_path req = ''/'' \<Longrightarrow> hr_method req = METHOD_GET \<Longrightarrow> httpd_uri fs hs req w = index_get_handler fs w"
    and "hr_path req = ''/file'' \<Longrightarrow> hr_method req = METHOD_GET \<Longrightarrow> httpd_uri fs hs req w = file_get_handler fs req w"
    and "hr_path req = ''/'' \<Longrightarrow> hr_method req = METHOD_POST \<Longrightarrow> httpd_uri fs hs req w = server_post_handler req w"
    and "\<not> use_ssl \<Longrightarrow> hr_path req = ''/'' @ p \<Longrightarrow> p \<notin> {[], ''file''} \<Longrightarrow> hr_method req = METHOD_GET \<Longrightarrow>
       httpd_uri fs hs req w = api_get_handler req w"
    and "\<not> use_ssl \<Longrightarrow> hr_path req = ''/'' @ p \<Longrightarrow> p \<notin> {[], ''file''} \<Longrightarrow> hr_method req \<noteq> METHOD_GET \<Longrightarrow>
       httpd_uri fs hs req w = Some (ESP_FAIL, [Send_err 405 ''Specified method is invalid for this resource''], w)"
    and "use_ssl \<Longrightarrow> hr_path req \<notin> {''/'', ''/file'', ''/*''} \<Longrightarrow>
       httpd_uri fs hs req w = Some (ESP_FAIL, [Send_err 404 ''Nothing matches the given URI''], w)"
    by (simp_all add: httpd_uri_route web_route_literals [simplified] route_other_wildcard route_other_simple)
qed

text \<open>
  C23. What the started server runs for each request. The literal URIs reach their handlers over HTTP and
  HTTPS; every other path goes to \<open>api_get_handler\<close> over HTTP (another method is refused with 405), but
  over HTTPS, where no wildcard matcher is configured, it is not found, so the API is out of reach.
\<close>

theorem web_dispatch:
  assumes "start_webserver use_ssl True True = Some hs"
  shows "(hr_path req = ''/'' \<and> hr_method req = METHOD_GET \<longrightarrow> httpd_uri fs hs req w = index_get_handler fs w) \<and>
     (hr_path req = ''/file'' \<and> hr_method req = METHOD_GET \<longrightarrow> httpd_uri fs hs req w = file_get_handler fs req w) \<and>
     (hr_path req = ''/'' \<and> hr_method req = METHOD_POST \<longrightarrow> httpd_uri fs hs req w = server_post_handler req w) \<and>
     (\<not> use_ssl \<and> hr_path req = ''/'' @ p \<and> p \<notin> {[], ''file''} \<and> hr_method req = METHOD_GET \<longrightarrow>
       httpd_uri fs hs req w = api_get_handler req w) \<and>
     (\<not> use_ssl \<and> hr_path req = ''/'' @ p \<and> p \<notin> {[], ''file''} \<and> hr_method req \<noteq> METHOD_GET \<longrightarrow>
       httpd_uri fs hs req w = Some (ESP_FAIL, [Send_err 405 ''Specified method is invalid for this resource''], w)) \<and>
     (use_ssl \<and> hr_path req \<notin> {''/'', ''/file'', ''/*''} \<longrightarrow>
       httpd_uri fs hs req w = Some (ESP_FAIL, [Send_err 404 ''Nothing matches the given URI''], w))"
  using web_dispatch_parts [OF assms] by blast

definition get_req :: "string \<Rightarrow> string option \<Rightarrow> httpd_req" where
  "get_req path query = \<lparr>hr_uri = path @ (case query of None \<Rightarrow> [] | Some q \<Rightarrow> ''?'' @ q), hr_path = path, hr_query = query,
     hr_method = METHOD_GET, hr_recv = (0, []), hr_junk = []\<rparr>"

theorem web_dispatch_witness:
  "httpd_uri Map.empty (web_data False) (get_req ''/connectionInfo'' None) boot_world =
     api_get_handler (get_req ''/connectionInfo'' None) boot_world \<and>
   httpd_uri Map.empty (web_data True) (get_req ''/connectionInfo'' None) boot_world =
     Some (ESP_FAIL, [Send_err 404 ''Nothing matches the given URI''], boot_world)"
  using web_dispatch [OF start_webserver_data [of False], where req = "get_req ''/connectionInfo'' None" and p = "''connectionInfo''"]
    web_dispatch [OF start_webserver_data [of True], where req = "get_req ''/connectionInfo'' None"]
  by (simp add: get_req_def)

definition shown_file :: "string \<Rightarrow> world \<Rightarrow> world" where
  "shown_file file w = (show_lines ''ACCESO WEB'' (take 15 (''FILE: '' @ file)) w)\<lparr>w_linea := take 15 (''FILE: '' @ file)\<rparr>"

lemma file_request:
  assumes "start_webserver use_ssl True True = Some hs" "hr_path req = ''/file''" "hr_method req = METHOD_GET"
    and "hr_query req = Some (query_of kvs)" "query_ok kvs" "length (query_of kvs) < 128"
    and "query_lookup kvs ''file'' = Some file" "\<not> w_malloc_fails w (w_mallocs w)"
  shows "httpd_uri fs hs req w = (case fs (''/spiffs/'' @ file) of
      None \<Rightarrow> Some (ESP_FAIL, [Send_err 404 ''File not found''], shown_file file w)
    | Some content \<Rightarrow> Some (ESP_OK, Set_type (mime_type (''/spiffs/'' @ file)) # chunks content @ [Send_chunk []],
        (shown_file file w)\<lparr>w_mallocs := Suc (w_mallocs w)\<rparr>))"
proof -
  note q = query_file [OF assms(5,6,7)]
  have h: "httpd_uri fs hs req w = file_get_handler fs req w"
    using assms(1,2,3) by (auto simp: start_webserver_data httpd_uri_route web_route_literals [simplified])
  have linea: "strlcat_s 16 (strlcpy_s 16 ''FILE: '') file = take 15 (''FILE: '' @ file)"
    by (simp add: strlcat_s_def strlcpy_s_def take_Cons')
  have m: "malloc (shown_file file w) = (True, (shown_file file w)\<lparr>w_mallocs := Suc (w_mallocs w)\<rparr>)"
    using assms(8) by (simp add: malloc_def shown_file_def show_lines_def on_lcd_def)
  show ?thesis
    unfolding h file_get_handler_def assms(4) q(1,2) prod.case option.sel Let_def linea
      file_path_fits(1) [OF q(3)] if_not_P [OF file_path_fits(2) [OF q(3)]] shown_file_def [symmetric]
    by (simp add: send_file_def m split: option.split)
qed

text \<open>
  \<open>GET /file?...\<close> with a \<open>file\<close> parameter sends the file of that name from \<open>/spiffs\<close>, with the type its
  extension names, in non-empty pieces of at most 1024 bytes that add up to the content and are followed by the
  empty piece that ends the response; a missing file is answered with 404. The path is never cut off, and
  the display shows the first characters of the name.
\<close>

theorem file_served:
  assumes "start_webserver use_ssl True True = Some hs" "hr_path req = ''/file''" "hr_method req = METHOD_GET"
    and "hr_query req = Some (query_of kvs)" "query_ok kvs" "length (query_of kvs) < 128"
    and "query_lookup kvs ''file'' = Some file" "\<not> w_malloc_fails w (w_mallocs w)"
  shows "\<exists>err ops w'. httpd_uri fs hs req w = Some (err, ops, w') \<and> w_linea w' = take 15 (''FILE: '' @ file) \<and>
     (case fs (''/spiffs/'' @ file) of
        None \<Rightarrow> err = ESP_FAIL \<and> ops = [Send_err 404 ''File not found'']
      | Some content \<Rightarrow> err = ESP_OK \<and> body_of ops = content \<and>
          (\<exists>pieces. ops = Set_type (mime_type (''/spiffs/'' @ file)) # map Send_chunk pieces @ [Send_chunk []] \<and>
             (\<forall>c\<in>set pieces. c \<noteq> [] \<and> length c \<le> 1024)))"
proof -
  have p: "\<exists>pieces. chunks content = map Send_chunk pieces \<and> (\<forall>c\<in>set pieces. c \<noteq> [] \<and> length c \<le> 1024)"
    "body_of (Set_type t # chunks content @ [Send_chunk []]) = content" for content t
    using chunks_spec [of content] by (auto simp: body_of_def comp_def)
  show ?thesis
    unfolding file_request [OF assms] using p by (auto simp: shown_file_def split: option.split)
qed

theorem file_served_witness:
  "\<exists>err ops w'. httpd_uri [''/spiffs/a.js'' \<mapsto> ''x=1;''] (web_data False) (get_req ''/file'' (Some ''file=a.js'')) boot_world
     = Some (err, ops, w') \<and> body_of ops = ''x=1;''"
proof -
  have "\<exists>err ops w'. httpd_uri [''/spiffs/a.js'' \<mapsto> ''x=1;''] (web_data False) (get_req ''/file'' (Some ''file=a.js'')) boot_world
       = Some (err, ops, w') \<and> w_linea w' = take 15 (''FILE: '' @ ''a.js'') \<and>
     (case [''/spiffs/a.js'' \<mapsto> ''x=1;''] (''/spiffs/'' @ ''a.js'') of
        None \<Rightarrow> err = ESP_FAIL \<and> ops = [Send_err 404 ''File not found'']
      | Some content \<Rightarrow> err = ESP_OK \<and> body_of ops = content \<and>
          (\<exists>pieces. ops = Set_type (mime_type (''/spiffs/'' @ ''a.js'')) # map Send_chunk pieces @ [Send_chunk []] \<and>
             (\<forall>c\<in>set pieces. c \<noteq> [] \<and> length c \<le> 1024)))"
    by (rule file_served [OF start_webserver_data, where kvs = "[(''file'', ''a.js'')]"])
      (simp_all add: get_req_def query_ok_def query_lookup_def boot_world_def)
  then show ?thesis by auto
qed

end
