(* ===== verification/Tasks.thy ===== *)
theory Tasks
  imports Firebase Webserver
begin

text \<open>
  The tasks of \<open>main/main.cpp\<close>, one round of each loop at a time, \<open>obtain_time\<close> of \<open>main/ntp.c\<close>, and
  \<open>app_main\<close>. The calls to the scheduler are recorded in \<open>w_tasks\<close>; delays are not modelled. The handles
  of the tasks that are suspended and resumed are valid then (they belong to tasks created earlier that nothing
  deletes); the one handle that may not be valid is that of the processing task, see
  \<open>delete_process_task\<close>. Floating point values are exact rationals. \<open>None\<close> is undefined behaviour or an abort.
\<close>

section \<open>Buttons and polling\<close>

definition button_task_round :: "levels \<Rightarrow> u32 \<Rightarrow> u32 \<Rightarrow> world \<Rightarrow> world option" where
  "button_task_round lvl tick_period ticks w =
     (let w1 = w\<lparr>w_btn := check_buttons lvl tick_period ticks (w_btn w)\<rparr>
      in if wget BTN_UP_RELEASED w1 \<or> wget BTN_DOWN_RELEASED w1 \<or> wget BTN_ENTER_RELEASED w1
         then navigate_menu w1 else Some w1)"

text \<open>
  \<open>vTaskDelete (dataProcessHandler)\<close> by the polling task. The handle is null until the processing task is
  created, and a null handle deletes the caller; it is never reset, so a second call passes the handle of a
  deleted task, which is undefined.
\<close>

definition delete_process_task :: "world \<Rightarrow> world option" where
  "delete_process_task w =
     (if Create DataProcessTask \<notin> set (w_tasks w) then Some (task_do (DeleteTask DataFetchTask) w)
      else if DeleteTask DataProcessTask \<in> set (w_tasks w) then None
      else Some (task_do (DeleteTask DataProcessTask) w))"

text \<open>The task waits until the connected bit is set, so the round starts with the bit set.\<close>

definition check_new_data_round :: "world \<Rightarrow> world option" where
  "check_new_data_round w =
     (if wf_connected_bit (w_wifi w) \<and> \<not> (wget FETCHNEWINFODATA w \<or> wget FETCHNEWDEVICESDATA w)
      then firebase_get_new_data w
      else delete_process_task w)"

definition alive_package_round :: "world \<Rightarrow> world option" where
  "alive_package_round w = send_alive_package w"

text \<open>The task that \<open>deviceAction\<close> starts; it ends after one pass.\<close>

definition firebase_update_task :: "world \<Rightarrow> world option" where
  "firebase_update_task w =
     Option.bind (device_at (w_currentDevice w) w) (\<lambda>dev.
       firebase_update_dispositivo_device_status (w_currentDevice w) (\<not> d_state dev) w)"

section \<open>Processing\<close>

definition put_text :: "int \<Rightarrow> string \<Rightarrow> world \<Rightarrow> world" where
  "put_text row s w = on_lcd (lcd_row row s) w"

definition process_info :: "world \<Rightarrow> world option" where
  "process_info w =
     (if wget FETCHNEWINFODATA w then
        let w1 = wset FETCHNEWINFODATA False w;
            w2 = put_text 1 ''OBTENIENDO INFO'' (put_text 0 ''ACTUALIZANDO'' w1)
        in firebase_get_dispositivo_info (task_do (Suspend DataFetchTask) w2)
      else Some w)"

definition process_devices :: "world \<Rightarrow> world option" where
  "process_devices w =
     (if wget FETCHNEWDEVICESDATA w then
        Option.bind (free_devices_array (wset FETCHNEWDEVICESDATA False w)) (\<lambda>w1.
          let w2 = put_text 1 ''OBTENIENDO DISP'' (put_text 0 ''ACTUALIZANDO'' w1)
          in firebase_get_dispositivo_devices (task_do (Suspend DataFetchTask) w2))
      else Some w)"

definition process_current :: "world \<Rightarrow> world option" where
  "process_current w =
     (if wget SETCONSUMEDCURRENT w then
        let w1 = task_do (Suspend ACSReadTask) (wset SETCONSUMEDCURRENT False w)
        in Option.bind (at_index (w_currents w1) (w_currentDevice w1)) (\<lambda>current.
           map_option (task_do (Resume ACSReadTask))
             (firebase_update_device_current (w_currentDevice w1) current w1))
      else Some w)"

text \<open>
  \<open>junk\<close> is the initial value of the local variable \<open>gpio_pin\<close>. The terminator that the code writes at
  \<open>/status/\<close> cuts the global \<open>urlSection\<close> itself.
\<close>

definition set_device :: "u8 \<Rightarrow> world \<Rightarrow> world option" where
  "set_device junk w =
     (let s = w_urlSection w
      in if strncmp_eq s ''set/devices/'' 12 then
           let device_str = drop 12 s
           in (case strstr device_str ''/status/'' of
                 Some status_ptr \<Rightarrow>
                   let number_str = take (length device_str - length status_ptr) device_str;
                       status_str = drop 8 status_ptr;
                       w1 = w\<lparr>w_urlSection := take 12 s @ number_str\<rparr>;
                       device_number = atoi number_str;
                       desired_status = (status_str = ''true'')
                   in (case read_device_pin_from_nvs device_number junk (w_nvs w1) of (err, gpio_pin, n1) \<Rightarrow>
                         firebase_update_dispositivo_device_status device_number desired_status
                           (w1\<lparr>w_nvs := n1, w_gpio := setPower desired_status gpio_pin (w_gpio w1)\<rparr>))
               | None \<Rightarrow> Some w)
         else Some w)"

definition process_set_device :: "u8 \<Rightarrow> world \<Rightarrow> world option" where
  "process_set_device junk w =
     (if wget SETNEWDEVICEDATA w
      then map_option (wset POSTNONEWDATA True) (set_device junk (wset SETNEWDEVICEDATA False w))
      else Some w)"

definition process_clear :: "world \<Rightarrow> world option" where
  "process_clear w =
     (if wget POSTNONEWDATA w then
        Option.bind (clear_new_data_section (wset POSTNONEWDATA False w)) (\<lambda>w1.
          let w2 = task_do (Resume DataFetchTask) w1
          in if wget POPULATEDEVICES w2 then populate_device_menu (wset POPULATEDEVICES False w2) else Some w2)
      else Some w)"

definition data_processing_round :: "u8 \<Rightarrow> world \<Rightarrow> world option" where
  "data_processing_round junk w =
     Option.bind (process_info w) (\<lambda>w1.
     Option.bind (process_devices w1) (\<lambda>w2.
     Option.bind (process_current w2) (\<lambda>w3.
     Option.bind (process_set_device junk w3) process_clear)))"

section \<open>The current sensor\<close>

definition ADC_MAX :: int where "ADC_MAX = 4095"
definition Vref :: rat where "Vref = 33 / 10"

definition calibrate_acs712 :: "(nat \<Rightarrow> int) \<Rightarrow> rat" where
  "calibrate_acs712 adc =
     (let adcSum = sum_list (map adc [0..<100]);
          adcAverage = (if adcSum < 0 then - (- adcSum div 100) else adcSum div 100 :: int)
      in of_int adcAverage / of_int ADC_MAX * Vref)"

definition measured_current :: "rat \<Rightarrow> int list \<Rightarrow> rat" where
  "measured_current zeroOffset readings =
     sum_list (map (\<lambda>r. (of_int r / of_int ADC_MAX * Vref - zeroOffset) / (66 / 1000)) readings) / 1000"

text \<open>
  One device of the round: \<open>readings i\<close> are the thousand samples for device \<open>i\<close>. The array
  \<open>device_currents\<close> has four entries.
\<close>

definition read_device_current :: "rat \<Rightarrow> (nat \<Rightarrow> int list) \<Rightarrow> nat \<Rightarrow> world \<Rightarrow> world option" where
  "read_device_current zeroOffset readings i w =
     Option.bind (device_at (int i) w) (\<lambda>dev.
       if d_type dev \<noteq> ''relay'' then Some w
       else Option.bind (get_gpio_output_gpio_level (d_pin dev) (w_gpio w)) (\<lambda>gpio_level.
         if gpio_level \<noteq> 0 then Some w
         else if i < length (w_currents w) then
           Some (wset SETCONSUMEDCURRENT True (w\<lparr>w_currents := (w_currents w)[i := measured_current zeroOffset (readings i)],
             w_currentDevice := int i\<rparr>))
         else None))"

fun read_currents :: "rat \<Rightarrow> (nat \<Rightarrow> int list) \<Rightarrow> nat list \<Rightarrow> world \<Rightarrow> world option" where
  "read_currents zeroOffset readings [] w = Some w"
| "read_currents zeroOffset readings (i # is) w =
     Option.bind (read_device_current zeroOffset readings i w) (read_currents zeroOffset readings is)"

definition read_acs712_round :: "rat \<Rightarrow> (nat \<Rightarrow> int list) \<Rightarrow> world \<Rightarrow> world option" where
  "read_acs712_round zeroOffset readings w = read_currents zeroOffset readings [0..<nat (w_deviceCount w)] w"

section \<open>Start-up\<close>

text \<open>\<open>gpio_config\<close> of the output pin 23; the input pins are all above 31.\<close>

definition init_gpio :: "gpio_dev \<Rightarrow> gpio_dev" where
  "init_gpio g = g\<lparr>g_enable := g_enable g OR push_bit 23 1\<rparr>"

text \<open>
  \<open>obtain_time\<close>: \<open>years k\<close> is \<open>tm_year\<close> at the \<open>k\<close>-th test; the result tells how often the loop waited and
  whether the time counts as set.
\<close>

function wait_for_time :: "(nat \<Rightarrow> int) \<Rightarrow> nat \<Rightarrow> nat \<Rightarrow> nat \<times> nat" where
  "wait_for_time years retry waits =
     (if years waits < 116 then
        if Suc retry < 10 then wait_for_time years (Suc retry) (Suc waits) else (Suc retry, waits)
      else (retry, waits))"
  by pat_completeness auto

termination by (relation "measure (\<lambda>(_, retry, _). 10 - retry)") auto

declare wait_for_time.simps [simp del]

definition obtain_time :: "(nat \<Rightarrow> int) \<Rightarrow> nat \<times> bool" where
  "obtain_time years = (case wait_for_time years 0 0 of (retry, waits) \<Rightarrow> (waits, retry \<noteq> 10))"

definition mac_string :: "u8 list \<Rightarrow> string" where
  "mac_string mac = snprintf_s 18 (concat (map hex2 (take 6 mac)))"

text \<open>
  Up to the credentials; the calibration, SPIFFS and Arduino set-up touch nothing of the state. \<open>i2c_master_init\<close> is
  taken to succeed (\<open>ESP_ERROR_CHECK\<close> aborts otherwise).
\<close>

definition app_main_prepare :: "u8 list \<Rightarrow> world \<Rightarrow> world option" where
  "app_main_prepare mac w =
     (case nvs_init (w_nvs w) of
        None \<Rightarrow> None
      | Some n1 \<Rightarrow>
          let w1 = wset INITIALIZING True (w\<lparr>w_nvs := n1, w_device_id := mac_string mac\<rparr>)
          in case initialize_nvs_with_default_data (w_device_id w1) (w_url w1) (w_nvs w1) of (u, n2) \<Rightarrow>
             case read_firmware (w_firmwareVersion w1) n2 of (fw, n3) \<Rightarrow>
             let w2 = w1\<lparr>w_url := u, w_nvs := n3, w_firmwareVersion := fw,
                   w_gpio := snd (gpio_set_level 23 1 (init_gpio (w_gpio w1)))\<rparr>;
                 w3 = put_text 1 ''FILESYSTEM'' (put_text 0 ''INICIANDO'' (on_lcd lcd_init w2));
                 w4 = on_lcd (lcd_send_string ''IR RX'') w3;
                 w5 = put_text 1 ''WIFI'' (on_lcd (lcd_clear_line 1) w4);
                 w6 = show_lines ''OBTENIENDO'' ''CRED. WIFI'' w5
             in case read_wifi_credentials (w_wifiSsid w6) WIFI_SSID_MAX_LEN (w_wifiPassword w6) WIFI_PASS_MAX_LEN (w_nvs w6) of
                  (ssid, pass, n4) \<Rightarrow>
                    Some (show_lines ''INICIANDO'' ''WIFI''
                      (w6\<lparr>w_wifiSsid := ssid, w_wifiPassword := pass, w_nvs := n4\<rparr>)))"

text \<open>The part that runs when the station is connected; \<open>start_webserver\<close> does not touch the state.\<close>

definition app_main_connected :: "world \<Rightarrow> world option" where
  "app_main_connected w =
     (if wget INITIALIZING w then
        let w1 = show_lines ''LOGUEANDO EN'' ''FIREBASE'' (show_lines ''OBTENIENDO'' ''TIEMPO NTP'' w)
        in case read_server_credentials (w_disp_url w1) SERVER_URL_MAX_LEN (w_events_url w1) SERVER_URL_MAX_LEN (w_nvs w1) of
             (d, e, n1) \<Rightarrow>
               map_option (\<lambda>w2. task_do (Create DataProcessTask) (task_do (Create AliveTask) (task_do (Create DataFetchTask) w2)))
                 (firebase_set_dispositivo_info (w1\<lparr>w_disp_url := d, w_events_url := e, w_nvs := n1\<rparr>))
      else Some w)"

definition set_parents :: "world \<Rightarrow> world" where
  "set_parents w = fold (\<lambda>m. set_menu m (\<lambda>sm. sm\<lparr>sm_parent := Some MainMenu\<rparr>)) [Submenu1, Submenu2, Submenu3] w"

definition app_main_menus :: "world \<Rightarrow> world option" where
  "app_main_menus w =
     (if wget INITIALIZING w then
        Option.bind (firebase_read_device_status (wset INITIALIZING False w)) (\<lambda>w1.
        Option.bind (firebase_get_dispositivo_devices (initMenuSystem (set_parents w1))) (\<lambda>w2.
        map_option (task_do (Create ACSReadTask)) (printCurrentIP (task_do (Create ButtonTask) w2))))
      else Some w)"

fun of_option :: "world option \<Rightarrow> world wait" where
  "of_option None = Crashed"
| "of_option (Some w) = Done w"

definition app_main :: "u8 list \<Rightarrow> wifi_event list \<Rightarrow> world \<Rightarrow> world wait" where
  "app_main mac evs w =
     (case app_main_prepare mac w of
        None \<Rightarrow> Crashed
      | Some w1 \<Rightarrow>
          (case wifi_init_sta evs w1 of
             Done w2 \<Rightarrow>
               of_option (Option.bind
                 (if wf_connected_bit (w_wifi w2) then app_main_connected w2
                  else if wf_fail_bit (w_wifi w2) then wifi_init_softap (put_text 0 ''CREANDO AP'' w2)
                  else Some w2) app_main_menus)
           | r \<Rightarrow> r))"

section \<open>A command to switch a device\<close>

lemma set_section_split:
  assumes "n \<le> 2147483647" "w_urlSection w = ''set/devices/'' @ dec_nat n @ ''/status/'' @ st"
  shows "set_device junk w =
     (case read_device_pin_from_nvs (int n) junk (w_nvs w) of (err, p, n1) \<Rightarrow>
        firebase_update_dispositivo_device_status (int n) (st = ''true'')
          (w\<lparr>w_urlSection := ''set/devices/'' @ dec_nat n, w_nvs := n1, w_gpio := setPower (st = ''true'') p (w_gpio w)\<rparr>))"
proof -
  have "CHR ''/'' \<notin> set (dec_nat n)" using dec_nat_digits [of "CHR ''/''" n] by (auto simp: is_digit_def)
  then have s: "strstr (dec_nat n @ ''/status/'' @ st) ''/status/'' = Some (''/status/'' @ st)"
    by (rule strstr_after)
  have p: "strncmp_eq (w_urlSection w) ''set/devices/'' 12" by (simp add: assms(2) strncmp_eq_def)
  have d: "drop 12 (w_urlSection w) = dec_nat n @ ''/status/'' @ st" "take 12 (w_urlSection w) = ''set/devices/''"
    by (simp_all add: assms(2))
  have a: "atoi (dec_nat n) = int n" using atoi_dec_nat [OF assms(1), of "[]"] by simp
  show ?thesis
    unfolding set_device_def Let_def if_P [OF p] d s option.case by (simp add: a)
qed

text \<open>
  The clearing request of \<open>process_clear\<close>, which is sent with \<open>POSTNONEWDATA\<close> off: its reply may raise the flag
  again.
\<close>

definition cleared :: "world \<Rightarrow> bool" where
  "cleared w \<longleftrightarrow> (let rp = w_replies w (length (w_requests w)) in rp_err rp = ESP_OK \<and> rp_status rp = 200)"

definition raised_again :: "world \<Rightarrow> bool" where
  "raised_again w \<longleftrightarrow> \<not> cleared w \<and> has_body (w_replies w (length (w_requests w))) \<and> work_pending w"

lemma pending_not_posted: "POSTNONEWDATA \<notin> set pending_flags" "POPULATEDEVICES \<notin> set pending_flags"
  by (simp_all add: pending_flags_def)

lemma pending_wset [simp]: "f \<notin> set pending_flags \<Longrightarrow> work_pending (wset f b w) = work_pending w"
  unfolding work_pending_def by (metis wget_wset)

lemma clear_request:
  assumes "w_json_fault w = (\<lambda>_. False)" "length (w_events_url w) < SERVER_URL_MAX_LEN"
    and "\<And>n. \<not> w_malloc_fails w n" "w_response w = None"
    and "no_news (w_events_url w @ ''newData.json'') (w_replies w (length (w_requests w)))"
  shows "\<exists>w1 body. clear_new_data_section (wset POSTNONEWDATA False w) = Some w1 \<and>
     w_requests w1 = w_requests w @ [\<lparr>rq_method = HTTP_PUT, rq_url = w_events_url w @ ''newData.json'', rq_body = Some body\<rparr>] \<and>
     cJSON_Parse body = Accept clear_document \<and> w_gpio w1 = w_gpio w \<and> w_tasks w1 = w_tasks w \<and> w_devices w1 = w_devices w \<and>
     w_deviceCount w1 = w_deviceCount w \<and> w_menu w1 = w_menu w \<and> w_malloc_fails w1 = w_malloc_fails w \<and>
     w_dev_gen w1 = w_dev_gen w \<and> w_response w1 = None \<and> (wget POSTNONEWDATA w1 \<longleftrightarrow> raised_again w) \<and>
     (\<forall>f. f \<notin> set cleared_flags \<longrightarrow> wget f w1 = wget f w) \<and> (\<forall>f. f \<noteq> POSTNONEWDATA \<and> wget f w1 \<longrightarrow> wget f w)"
proof -
  let ?w = "wset POSTNONEWDATA False w" and ?rp = "w_replies w (length (w_requests w))"
  have q: "w_json_fault ?w = w_json_fault w" "w_events_url ?w = w_events_url w" "w_malloc_fails ?w = w_malloc_fails w"
      "w_response ?w = w_response w" "w_replies ?w = w_replies w" "w_requests ?w = w_requests w"
      "w_gpio ?w = w_gpio w" "w_tasks ?w = w_tasks w" "w_devices ?w = w_devices w" "w_deviceCount ?w = w_deviceCount w"
      "w_menu ?w = w_menu w" "w_dev_gen ?w = w_dev_gen w"
    by (simp_all add: wset_def)
  obtain body w1 where c: "clear_new_data_section ?w =
       Some (if rp_err ?rp = ESP_OK \<and> rp_status ?rp = 200 then fold (\<lambda>f. wset f False) cleared_flags w1 else w1)"
      and a: "asked HTTP_PUT (w_events_url w @ ''newData.json'') (Some body) ?w w1" and b: "cJSON_Parse body = Accept clear_document"
    using clear_asked [of ?w ?rp, unfolded q] assms by blast
  let ?w1 = "if rp_err ?rp = ESP_OK \<and> rp_status ?rp = 200 then fold (\<lambda>f. wset f False) cleared_flags w1 else w1"
  have f: "wget f w1 \<longleftrightarrow> (f \<noteq> POSTNONEWDATA \<and> wget f w) \<or> f = POSTNONEWDATA \<and> has_body ?rp \<and> work_pending w" for f
    using asked_flags [OF a, of f] pending_not_posted by (auto simp: q)
  have s: "w_requests ?w1 = w_requests w1" "w_gpio ?w1 = w_gpio w1" "w_tasks ?w1 = w_tasks w1" "w_devices ?w1 = w_devices w1"
      "w_deviceCount ?w1 = w_deviceCount w1" "w_menu ?w1 = w_menu w1" "w_malloc_fails ?w1 = w_malloc_fails w1"
      "w_dev_gen ?w1 = w_dev_gen w1" "w_response ?w1 = w_response w1"
    by (simp_all add: fold_wset)
  show ?thesis
  proof (rule exI [of _ ?w1], rule exI [of _ body], intro conjI allI impI)
    show "wget POSTNONEWDATA ?w1 \<longleftrightarrow> raised_again w"
      by (auto simp: fold_wset f raised_again_def cleared_def Let_def cleared_flags_def)
    show "wget g ?w1 = wget g w" if "g \<notin> set cleared_flags" for g
      using that by (auto simp: fold_wset f cleared_flags_def)
    show "wget g w" if "g \<noteq> POSTNONEWDATA \<and> wget g ?w1" for g
      using that by (auto simp: fold_wset f split: if_splits)
  qed (unfold s, insert c b assms(4), simp_all add: asked_frame [OF a] q)
qed

lemma clear_answered:
  assumes "w_json_fault w = (\<lambda>_. False)" "length (w_events_url w) < SERVER_URL_MAX_LEN"
    and "\<And>n. \<not> w_malloc_fails w n" "w_response w = None"
    and "no_news (w_events_url w @ ''newData.json'') (w_replies w (length (w_requests w)))"
    and "wget POSTNONEWDATA w" "\<not> wget POPULATEDEVICES w"
  shows "\<exists>w' body. process_clear w = Some w' \<and> w_gpio w' = w_gpio w \<and>
     w_requests w' = w_requests w @ [\<lparr>rq_method = HTTP_PUT, rq_url = w_events_url w @ ''newData.json'', rq_body = Some body\<rparr>] \<and>
     cJSON_Parse body = Accept clear_document \<and> w_tasks w' = w_tasks w @ [Resume DataFetchTask] \<and>
     (wget POSTNONEWDATA w' \<longleftrightarrow> raised_again w) \<and> (\<forall>f. f \<notin> set cleared_flags \<longrightarrow> wget f w' = wget f w)"
proof -
  obtain w1 body where c: "clear_new_data_section (wset POSTNONEWDATA False w) = Some w1"
     "w_requests w1 = w_requests w @ [\<lparr>rq_method = HTTP_PUT, rq_url = w_events_url w @ ''newData.json'', rq_body = Some body\<rparr>]"
     "cJSON_Parse body = Accept clear_document" "w_gpio w1 = w_gpio w" "w_tasks w1 = w_tasks w"
     "wget POSTNONEWDATA w1 \<longleftrightarrow> raised_again w" "\<forall>f. f \<notin> set cleared_flags \<longrightarrow> wget f w1 = wget f w"
    using clear_request [OF assms(1-5)] by blast
  have pop: "\<not> wget POPULATEDEVICES w1" using c(7) assms(7) by (simp add: cleared_flags_def)
  have "process_clear w = Some (task_do (Resume DataFetchTask) w1)"
    unfolding process_clear_def if_P [OF assms(6)] c(1) bind.bind_lunit Let_def wget_task_do if_not_P [OF pop] ..
  then show ?thesis
    using c(2-7) by (intro exI [of _ "task_do (Resume DataFetchTask) w1"] exI [of _ body]) (simp, simp add: task_do_def)
qed

section \<open>Properties\<close>

lemma set_device_round:
  assumes "wget SETNEWDEVICEDATA w" "\<not> wget FETCHNEWINFODATA w" "\<not> wget FETCHNEWDEVICESDATA w"
    and "\<not> wget SETCONSUMEDCURRENT w" "\<not> wget POPULATEDEVICES w"
    and "w_urlSection w = ''set/devices/'' @ dec_nat n @ ''/status/'' @ st" "n < 100000000"
    and "nv_healthy (w_nvs w)" "nv_ns (w_nvs w)" "nv_u8 (w_nvs w) (device_key (int n)) = Some p"
    and "w_json_fault w = (\<lambda>_. False)" "length (w_disp_url w) < SERVER_URL_MAX_LEN" "length (w_events_url w) < SERVER_URL_MAX_LEN"
    and "\<And>n. \<not> w_malloc_fails w n" "w_response w = None"
    and "no_news (w_disp_url w @ ''devices/'' @ dec_nat n @ ''.json'') (w_replies w (length (w_requests w)))"
    and "rp = w_replies w (Suc (length (w_requests w)))" "no_news (w_events_url w @ ''newData.json'') rp"
  shows "\<exists>w' b1 b2. data_processing_round junk w = Some w' \<and>
     w_gpio w' = setPower (st = ''true'') p (w_gpio w) \<and>
     w_requests w' = w_requests w @
       [\<lparr>rq_method = HTTP_PATCH, rq_url = w_disp_url w @ ''devices/'' @ dec_nat n @ ''.json'', rq_body = Some b1\<rparr>,
        \<lparr>rq_method = HTTP_PUT, rq_url = w_events_url w @ ''newData.json'', rq_body = Some b2\<rparr>] \<and>
     cJSON_Parse b1 = Accept (JObject [(''status'', if st = ''true'' then JTrue else JFalse)]) \<and>
     cJSON_Parse b2 = Accept clear_document \<and> w_tasks w' = w_tasks w @ [Resume DataFetchTask] \<and>
     \<not> wget SETNEWDEVICEDATA w' \<and>
     (wget POSTNONEWDATA w' \<longleftrightarrow> \<not> (rp_err rp = ESP_OK \<and> rp_status rp = 200) \<and> has_body rp \<and>
        (\<exists>f\<in>set pending_flags - {SETNEWDEVICEDATA}. wget f w))"
proof -
  let ?w1 = "wset SETNEWDEVICEDATA False w"
  let ?w2 = "?w1\<lparr>w_urlSection := ''set/devices/'' @ dec_nat n,
      w_nvs := (w_nvs w)\<lparr>nv_calls := nv_calls (w_nvs w) + 2\<rparr>, w_gpio := setPower (st = ''true'') p (w_gpio w)\<rparr>"
  let ?u = "w_disp_url w @ ''devices/'' @ dec_nat n @ ''.json''"
  have 0: "process_info w = Some w" "process_devices w = Some w" "process_current w = Some w"
    using assms(2-4) by (simp_all add: process_info_def process_devices_def process_current_def)
  have set: "set_device junk ?w1 = firebase_update_dispositivo_device_status (int n) (st = ''true'') ?w2"
    using set_section_split [of n ?w1 st junk] assms(6-10) by (simp add: read_device_pin_healthy)
  have i: "int32 (int n)" using assms(7) by (simp add: int32_def INT_MIN_def INT_MAX_def)
  have u: "w_disp_url w @ ''devices/'' @ dec_int (int n) @ ''.json'' = ?u" by (simp add: dec_int_def)
  have q: "w_json_fault ?w2 = (\<lambda>_. False)" "w_disp_url ?w2 = w_disp_url w" "w_replies ?w2 = w_replies w"
      "w_requests ?w2 = w_requests w" "w_malloc_fails ?w2 = w_malloc_fails w" "w_response ?w2 = w_response w"
      "w_events_url ?w2 = w_events_url w" "w_tasks ?w2 = w_tasks w" "w_gpio ?w2 = setPower (st = ''true'') p (w_gpio w)"
    using assms(11) by (simp_all add: wset_def)
  obtain b1 w3 where b1: "firebase_update_dispositivo_device_status (int n) (st = ''true'') ?w2 = Some w3"
      "asked HTTP_PATCH ?u (Some b1) ?w2 w3"
      "cJSON_Parse b1 = Accept (JObject [(''status'', if st = ''true'' then JTrue else JFalse)])"
    using status_asked [OF q(1) _ i, of "st = ''true''"] assms(12,14-16) unfolding q u by blast
  let ?w3 = "wset POSTNONEWDATA True w3"
  have 1: "process_set_device junk w = Some ?w3"
    using assms(1) b1(1) set by (simp add: process_set_device_def)
  note fr = asked_frame [OF b1(2), unfolded q]
  have g: "wget f ?w2 \<longleftrightarrow> f \<noteq> SETNEWDEVICEDATA \<and> wget f w" for f by (auto simp: wget_def wset_def)
  have fl: "wget f ?w3 \<longleftrightarrow> f = POSTNONEWDATA \<or> f \<noteq> SETNEWDEVICEDATA \<and> wget f w" for f
    using asked_flags [OF b1(2), of f] g by auto
  have wr: "w_json_fault ?w3 = (\<lambda>_. False)" "w_events_url ?w3 = w_events_url w" "w_malloc_fails ?w3 = w_malloc_fails w"
      "w_response ?w3 = None" "w_replies ?w3 (length (w_requests ?w3)) = rp" "w_gpio ?w3 = setPower (st = ''true'') p (w_gpio w)"
      "w_tasks ?w3 = w_tasks w"
      "w_requests ?w3 = w_requests w @ [\<lparr>rq_method = HTTP_PATCH, rq_url = ?u, rq_body = Some b1\<rparr>]"
    using fr assms(11,15,17) by (simp_all add: wset_def)
  have p: "wget POSTNONEWDATA ?w3" "\<not> wget POPULATEDEVICES ?w3" using assms(5) fl [of POPULATEDEVICES] by simp_all
  obtain w' b2 where c: "process_clear ?w3 = Some w'" "w_gpio w' = w_gpio ?w3"
      "w_requests w' = w_requests ?w3 @ [\<lparr>rq_method = HTTP_PUT, rq_url = w_events_url w @ ''newData.json'', rq_body = Some b2\<rparr>]"
      "cJSON_Parse b2 = Accept clear_document" "w_tasks w' = w_tasks ?w3 @ [Resume DataFetchTask]"
      "wget POSTNONEWDATA w' \<longleftrightarrow> raised_again ?w3" "\<forall>f. f \<notin> set cleared_flags \<longrightarrow> wget f w' = wget f ?w3"
    using clear_answered [OF wr(1) _ _ wr(4) _ p] assms(13,14,18) unfolding wr(2,3,5) by blast
  have "\<not> wget SETNEWDEVICEDATA w'" using c(7) fl [of SETNEWDEVICEDATA] by (simp add: cleared_flags_def)
  moreover have "work_pending ?w3 \<longleftrightarrow> (\<exists>f\<in>set pending_flags - {SETNEWDEVICEDATA}. wget f w)"
    unfolding work_pending_def fl using pending_not_posted(1) by blast
  then have "wget POSTNONEWDATA w' \<longleftrightarrow> \<not> (rp_err rp = ESP_OK \<and> rp_status rp = 200) \<and> has_body rp \<and>
        (\<exists>f\<in>set pending_flags - {SETNEWDEVICEDATA}. wget f w)"
    unfolding c(6) raised_again_def cleared_def wr(5) Let_def by simp
  moreover have "data_processing_round junk w = Some w'"
    unfolding data_processing_round_def 0 bind.bind_lunit 1 c(1) ..
  ultimately show ?thesis using c(2-5) b1(3) wr(6-8) by (intro exI [of _ w'] exI [of _ b1] exI [of _ b2]) simp
qed

text \<open>
  C2. The command \<open>set/devices/N/status/S\<close>: one round of the processing task drives the pin stored for
  device \<open>N\<close> (active low), reports the new status to \<open>devices/N.json\<close>, clears \<open>newData.json\<close> and lets the
  polling task go on, and the flag of the command is off afterwards, whether the two requests fail or are
  answered, with any status and any body that has no news of its own. \<open>POSTNONEWDATA\<close> is off as well, unless the
  clearing does not succeed with status 200, comes back with a body and other work is pending: then the flag,
  which the round had reset before the request, is up again.
\<close>

theorem set_device_command:
  assumes "wget SETNEWDEVICEDATA w" "\<not> wget FETCHNEWINFODATA w" "\<not> wget FETCHNEWDEVICESDATA w"
    and "\<not> wget SETCONSUMEDCURRENT w" "\<not> wget POPULATEDEVICES w"
    and "w_urlSection w = ''set/devices/'' @ dec_nat n @ ''/status/'' @ st" "n < 100000000"
    and "nv_healthy (w_nvs w)" "nv_ns (w_nvs w)" "nv_u8 (w_nvs w) (device_key (int n)) = Some p"
    and "w_json_fault w = (\<lambda>_. False)" "length (w_disp_url w) < SERVER_URL_MAX_LEN" "length (w_events_url w) < SERVER_URL_MAX_LEN"
    and "\<And>n. \<not> w_malloc_fails w n" "w_response w = None"
    and "no_news (w_disp_url w @ ''devices/'' @ dec_nat n @ ''.json'') (w_replies w (length (w_requests w)))"
    and "rp = w_replies w (Suc (length (w_requests w)))" "no_news (w_events_url w @ ''newData.json'') rp"
  shows "\<exists>w' b1 b2. data_processing_round junk w = Some w' \<and>
     w_gpio w' = setPower (st = ''true'') p (w_gpio w) \<and>
     w_requests w' = w_requests w @
       [\<lparr>rq_method = HTTP_PATCH, rq_url = w_disp_url w @ ''devices/'' @ dec_nat n @ ''.json'', rq_body = Some b1\<rparr>,
        \<lparr>rq_method = HTTP_PUT, rq_url = w_events_url w @ ''newData.json'', rq_body = Some b2\<rparr>] \<and>
     cJSON_Parse b1 = Accept (JObject [(''status'', if st = ''true'' then JTrue else JFalse)]) \<and>
     cJSON_Parse b2 = Accept clear_document \<and> w_tasks w' = w_tasks w @ [Resume DataFetchTask] \<and>
     \<not> wget SETNEWDEVICEDATA w' \<and>
     (wget POSTNONEWDATA w' \<longleftrightarrow> \<not> (rp_err rp = ESP_OK \<and> rp_status rp = 200) \<and> has_body rp \<and>
        (\<exists>f\<in>set pending_flags - {SETNEWDEVICEDATA}. wget f w))"
  using assms by (rule set_device_round)

lemma silent_world: "rp_events (w_replies boot_world k) = []"
  by (simp add: boot_world_def no_reply_def)

text \<open>A command with two echoed requests, and with a clearing that is refused while other work is pending.\<close>

definition command_world :: "int \<Rightarrow> world" where
  "command_world status = wset SETNEWINFODATA True (wset SETNEWDEVICEDATA True (boot_world
     \<lparr>w_urlSection := ''set/devices/0/status/true'', w_disp_url := ''https://x/'', w_events_url := ''https://x/'',
      w_nvs := (w_nvs boot_world)\<lparr>nv_ns := True, nv_u8 := [''device-0'' \<mapsto> 23]\<rparr>,
      w_replies := (\<lambda>k. if k = 0 then echo ''https://x/devices/0.json'' ''{}'' 200 else echo ''https://x/newData.json'' ''{}'' status)\<rparr>))"

lemma nothing_new_object:
  "nothing_new ''https://x/newData.json'' ''{}''" "nothing_new ''https://x/devices/0.json'' ''{}''"
proof -
  have "parsed ''{}'' = Some (JObject [])"
    using parsed_render [of "JObject []" False] by (simp add: CJSON_NESTING_LIMIT_def)
  then show "nothing_new ''https://x/newData.json'' ''{}''"
    using newData_url(1) [of "''https://x/''"] by (auto simp: nothing_new_def Let_def suffix_def SERVER_URL_MAX_LEN_def)
  have "strstr (snprintf_s URL_MAX_LEN ''https://x/devices/0.json'') ''/newData.json'' = None"
      "strstr (snprintf_s URL_MAX_LEN ''https://x/devices/0.json'') ''/devices.json'' = None" by code_simp+
  then show "nothing_new ''https://x/devices/0.json'' ''{}''" by (simp add: nothing_new_def Let_def)
qed

theorem set_device_command_witness:
  "\<forall>s. \<exists>w'. data_processing_round 0 (command_world s) = Some w' \<and>
     w_gpio w' = setPower True 23 (w_gpio boot_world) \<and> w_tasks w' = [Resume DataFetchTask] \<and> (wget POSTNONEWDATA w' \<longleftrightarrow> s \<noteq> 200)"
proof
  fix s
  let ?w = "command_world s"
  have d: "dec_nat 0 = ''0''" by (simp add: dec_nat.simps [of 0] digit_char_def char_of_def bit_0)
  have k: "device_key 0 = ''device-0''" using device_key_fits(1) [of 0] d by simp
  have e: "w_disp_url ?w = ''https://x/''" "w_events_url ?w = ''https://x/''" "w_requests ?w = []" "w_tasks ?w = []"
      "w_replies ?w 0 = echo ''https://x/devices/0.json'' ''{}'' 200" "w_replies ?w (Suc 0) = echo ''https://x/newData.json'' ''{}'' s"
      "w_gpio ?w = w_gpio boot_world" "w_nvs ?w = (w_nvs boot_world)\<lparr>nv_ns := True, nv_u8 := [''device-0'' \<mapsto> 23]\<rparr>"
      "w_urlSection ?w = ''set/devices/0/status/true''" "w_json_fault ?w = (\<lambda>_. False)" "w_malloc_fails ?w = (\<lambda>_. False)"
      "w_response ?w = None"
    by (simp_all add: command_world_def wset_def boot_world_def)
  have f: "wget f ?w \<longleftrightarrow> f \<in> {SETNEWINFODATA, SETNEWDEVICEDATA}" for f
    by (auto simp: command_world_def) (simp_all add: boot_world_def wget_def)
  have "\<exists>w' b1 b2. data_processing_round 0 ?w = Some w' \<and>
     w_gpio w' = setPower (''true'' = ''true'') 23 (w_gpio ?w) \<and>
     w_requests w' = w_requests ?w @
       [\<lparr>rq_method = HTTP_PATCH, rq_url = w_disp_url ?w @ ''devices/'' @ dec_nat 0 @ ''.json'', rq_body = Some b1\<rparr>,
        \<lparr>rq_method = HTTP_PUT, rq_url = w_events_url ?w @ ''newData.json'', rq_body = Some b2\<rparr>] \<and>
     cJSON_Parse b1 = Accept (JObject [(''status'', if ''true'' = ''true'' then JTrue else JFalse)]) \<and>
     cJSON_Parse b2 = Accept clear_document \<and> w_tasks w' = w_tasks ?w @ [Resume DataFetchTask] \<and>
     \<not> wget SETNEWDEVICEDATA w' \<and>
     (wget POSTNONEWDATA w' \<longleftrightarrow>
        \<not> (rp_err (echo ''https://x/newData.json'' ''{}'' s) = ESP_OK \<and> rp_status (echo ''https://x/newData.json'' ''{}'' s) = 200) \<and>
        has_body (echo ''https://x/newData.json'' ''{}'' s) \<and> (\<exists>f\<in>set pending_flags - {SETNEWDEVICEDATA}. wget f ?w))"
    by (rule set_device_command)
      (use e f nothing_new_object in \<open>simp_all add: d k nv_healthy_def boot_world_def SERVER_URL_MAX_LEN_def\<close>)
  moreover have "\<exists>f\<in>set pending_flags - {SETNEWDEVICEDATA}. wget f ?w" by (simp add: f pending_flags_def)
  ultimately show "\<exists>w'. data_processing_round 0 ?w = Some w' \<and>
     w_gpio w' = setPower True 23 (w_gpio boot_world) \<and> w_tasks w' = [Resume DataFetchTask] \<and> (wget POSTNONEWDATA w' \<longleftrightarrow> s \<noteq> 200)"
    by (auto simp: e)
qed

section \<open>The sensor task\<close>

definition relay_on :: "gpio_dev \<Rightarrow> device \<Rightarrow> bool" where
  "relay_on g d \<longleftrightarrow> d_type d = ''relay'' \<and> get_gpio_output_gpio_level (d_pin d) g = Some 0"

lemma read_device_current_cases:
  assumes "w_devices w = Some (map Some ds)" "i < length ds" "0 \<le> d_pin (ds ! i)" "d_pin (ds ! i) < 64"
  shows "read_device_current z readings i w =
     (if \<not> relay_on (w_gpio w) (ds ! i) then Some w
      else if i < length (w_currents w) then
        Some (wset SETCONSUMEDCURRENT True (w\<lparr>w_currents := (w_currents w)[i := measured_current z (readings i)], w_currentDevice := int i\<rparr>))
      else None)"
proof -
  have "get_gpio_output_gpio_level (d_pin (ds ! i)) (w_gpio w) \<noteq> None"
    using assms(3,4) by (simp add: get_gpio_output_gpio_level_def)
  then obtain l where l: "get_gpio_output_gpio_level (d_pin (ds ! i)) (w_gpio w) = Some l" by blast
  have "device_at (int i) w = Some (ds ! i)" using assms(1,2) by (simp add: device_at_def at_index_def)
  then show ?thesis by (simp add: read_device_current_def relay_on_def l)
qed

lemma read_currents_defined:
  assumes "w_devices w = Some (map Some ds)" "\<forall>d\<in>set ds. 0 \<le> d_pin d \<and> d_pin d < 64" "\<forall>i\<in>set is. i < length ds"
  shows "read_currents z readings is w \<noteq> None \<longleftrightarrow>
     (\<forall>i\<in>set is. relay_on (w_gpio w) (ds ! i) \<longrightarrow> i < length (w_currents w))"
  using assms
proof (induction "is" arbitrary: w)
  case Nil
  then show ?case by simp
next
  case (Cons i "is")
  have c: "read_device_current z readings i w =
     (if \<not> relay_on (w_gpio w) (ds ! i) then Some w
      else if i < length (w_currents w) then
        Some (wset SETCONSUMEDCURRENT True (w\<lparr>w_currents := (w_currents w)[i := measured_current z (readings i)], w_currentDevice := int i\<rparr>))
      else None)"
    using Cons.prems by (intro read_device_current_cases) auto
  let ?w = "wset SETCONSUMEDCURRENT True (w\<lparr>w_currents := (w_currents w)[i := measured_current z (readings i)], w_currentDevice := int i\<rparr>)"
  have f: "w_devices ?w = w_devices w" "w_gpio ?w = w_gpio w" "length (w_currents ?w) = length (w_currents w)"
    by (simp_all add: wset_def)
  show ?case
    using Cons.IH [of w] Cons.IH [of ?w] Cons.prems f by (auto simp: c)
qed

text \<open>
  C30. A round of the current sensor is defined exactly as long as no relay behind the fourth device is
  switched on: for one that is, the measurement is stored behind the array \<open>device_currents\<close>.
\<close>

theorem current_sensor_bounds:
  assumes "w_devices w = Some (map Some ds)" "w_deviceCount w = int (length ds)" "length (w_currents w) = 4"
    and "\<forall>d\<in>set ds. 0 \<le> d_pin d \<and> d_pin d < 64"
  shows "read_acs712_round z readings w \<noteq> None \<longleftrightarrow> (\<forall>i. 4 \<le> i \<and> i < length ds \<longrightarrow> \<not> relay_on (w_gpio w) (ds ! i))"
proof -
  have "read_acs712_round z readings w \<noteq> None \<longleftrightarrow>
      (\<forall>i\<in>set [0..<length ds]. relay_on (w_gpio w) (ds ! i) \<longrightarrow> i < length (w_currents w))"
    unfolding read_acs712_round_def assms(2) nat_int
    by (rule read_currents_defined) (use assms in auto)
  then show ?thesis using assms(3) by auto
qed

theorem current_sensor_bounds_witness:
  "read_acs712_round 0 (\<lambda>_. []) (boot_world\<lparr>w_devices := Some (map Some (replicate 5 relay0)), w_deviceCount := 5,
     w_gpio := setPower True 23 (init_gpio (w_gpio boot_world))\<rparr>) = None"
proof -
  let ?g = "setPower True 23 (init_gpio (w_gpio boot_world))"
  let ?w = "boot_world\<lparr>w_devices := Some (map Some (replicate 5 relay0)), w_deviceCount := 5, w_gpio := ?g\<rparr>"
  have b: "bit (g_enable (init_gpio g)) 23" for g by (simp add: init_gpio_def bit_simps)
  have "get_gpio_output_gpio_level 23 ?g = Some 0"
    using b by (simp add: get_level_enabled setPower_eq gpio_set_level_out valid_output_gpio_def)
  then have "relay_on ?g (replicate 5 relay0 ! 4)" by (simp add: relay_on_def relay0_def)
  moreover have "read_acs712_round 0 (\<lambda>_. []) ?w \<noteq> None \<longleftrightarrow>
      (\<forall>i. 4 \<le> i \<and> i < length (replicate 5 relay0) \<longrightarrow> \<not> relay_on (w_gpio ?w) (replicate 5 relay0 ! i))"
    by (rule current_sensor_bounds) (simp_all add: boot_world_def relay0_def)
  moreover have "w_gpio ?w = ?g" by simp
  ultimately show ?thesis by (auto dest: spec [of _ 4])
qed

section \<open>The start\<close>

lemma nvs_init_healthy: "nv_healthy n \<Longrightarrow> nvs_init n = Some (n\<lparr>nv_calls := Suc (nv_calls n)\<rparr>)"
  by (simp add: nvs_init_def nvs_flash_init_def)

lemma nvs_open_ro_keeps: "nv_healthy n \<Longrightarrow> nv_ns n \<Longrightarrow> snd (nvs_open NVS_READONLY n) = n\<lparr>nv_calls := Suc (nv_calls n)\<rparr>"
  by simp

lemma mac_string_length: "length mac = 6 \<Longrightarrow> length (mac_string mac) = 12"
  by (simp add: mac_string_def snprintf_s_def length_concat comp_def sum_list_triv)

abbreviation boot_url :: "u8 list \<Rightarrow> string" where "boot_url mac \<equiv> disp_url_of (mac_string mac)"
abbreviation boot_events :: "u8 list \<Rightarrow> string" where "boot_events mac \<equiv> events_url_of (mac_string mac)"

definition first_pins :: "(string \<rightharpoonup> u8) \<Rightarrow> (string \<rightharpoonup> u8)" where
  "first_pins pins = pins(''device-0'' \<mapsto> 23, ''initialized'' \<mapsto> 1)"

definition prepared :: "u8 list \<Rightarrow> world \<Rightarrow> world \<Rightarrow> bool" where
  "prepared mac w w' \<longleftrightarrow> nv_healthy (w_nvs w') \<and> nv_ns (w_nvs w') \<and> nv_u8 (w_nvs w') = first_pins (nv_u8 (w_nvs w)) \<and>
     nv_str (w_nvs w') ''disp_url'' = Some (boot_url mac) \<and> nv_str (w_nvs w') ''events_url'' = Some (boot_events mac) \<and>
     w_firmwareVersion w' = FIRMWARE \<and> w_wifiSsid w' = ''Koba S21'' \<and> wget INITIALIZING w' \<and>
     w_gpio w' = snd (gpio_set_level 23 1 (init_gpio (w_gpio w))) \<and>
     w_wifi w' = w_wifi w \<and> w_menu w' = w_menu w \<and> w_requests w' = w_requests w \<and> w_tasks w' = w_tasks w \<and>
     w_replies w' = w_replies w \<and> w_json_fault w' = w_json_fault w \<and> w_clock w' = w_clock w \<and> w_rssi_str w' = w_rssi_str w \<and>
     w_malloc_fails w' = w_malloc_fails w \<and> w_response w' = w_response w \<and> w_junk w' = w_junk w"

lemma first_start_items:
  assumes "nv_healthy n" "nv_u8 n ''initialized'' = None" "length dev = 12"
  shows "\<exists>u2 n2. initialize_nvs_with_default_data dev u n = (u2, n2) \<and> nv_healthy n2 \<and> nv_ns n2 \<and>
     nv_u8 n2 = first_pins (nv_u8 n) \<and> nv_str n2 ''firmware'' = Some FIRMWARE \<and> nv_str n2 ''wifi_ssid'' = Some ''Koba S21'' \<and>
     nv_str n2 ''wifi_password'' = Some ''koba1254'' \<and> nv_str n2 ''disp_url'' = Some (disp_url_of dev) \<and>
     nv_str n2 ''events_url'' = Some (events_url_of dev)"
proof -
  obtain u2 n2 where i: "initialize_nvs_with_default_data dev u n = (u2, n2)" by (cases "initialize_nvs_with_default_data dev u n")
  have "n2 = n\<lparr>nv_calls := nv_calls n + 11, nv_ns := True, nv_str := nv_str n ++ map_of (rev (default_items dev)),
      nv_u8 := (nv_u8 n)(''device-0'' \<mapsto> 23, ''initialized'' \<mapsto> 1)\<rparr>"
    using initialize_nvs_fresh [OF assms(1,2), of dev u] i by simp
  then show ?thesis
    using i assms by (simp add: default_items_def disp_url_fits events_url_fits first_pins_def)
qed

lemma prepare_first_start:
  assumes "nv_healthy (w_nvs w)" "nv_u8 (w_nvs w) ''initialized'' = None" "length mac = 6"
  shows "\<exists>w'. app_main_prepare mac w = Some w' \<and> prepared mac w w'"
proof -
  let ?n1 = "(w_nvs w)\<lparr>nv_calls := Suc (nv_calls (w_nvs w))\<rparr>"
  obtain u2 n2 where init: "initialize_nvs_with_default_data (mac_string mac) (w_url w) ?n1 = (u2, n2)"
    and h: "nv_healthy n2" "nv_ns n2" "nv_u8 n2 = first_pins (nv_u8 (w_nvs w))" and s: "nv_str n2 ''firmware'' = Some FIRMWARE" "nv_str n2 ''wifi_ssid'' = Some ''Koba S21''"
      "nv_str n2 ''wifi_password'' = Some ''koba1254''" "nv_str n2 ''disp_url'' = Some (boot_url mac)"
      "nv_str n2 ''events_url'' = Some (boot_events mac)"
    using first_start_items [of ?n1 "mac_string mac" "w_url w"] assms mac_string_length [OF assms(3)] by auto
  have fw: "read_firmware b n2 = (FIRMWARE, n2\<lparr>nv_calls := nv_calls n2 + 2\<rparr>)" for b
    using h s(1) by (simp add: read_firmware_def nvs_close_def FIRMWARE_def)
  have wc: "read_wifi_credentials a WIFI_SSID_MAX_LEN b WIFI_PASS_MAX_LEN (n2\<lparr>nv_calls := c\<rparr>) =
      (''Koba S21'', ''koba1254'', n2\<lparr>nv_calls := c + 3\<rparr>)" for a b c
    using h s(2,3) by (simp add: read_wifi_credentials_def nvs_close_def WIFI_SSID_MAX_LEN_def WIFI_PASS_MAX_LEN_def)
  show ?thesis
    using h s
    unfolding app_main_prepare_def nvs_init_healthy [OF assms(1)] option.case Let_def
    by (simp add: init fw wc prepared_def wset_def put_text_def show_lines_def on_lcd_def wget_def)
qed

lemma station_connects:
  "\<exists>w'. wifi_init_sta (WIFI_EVENT_STA_START # IP_EVENT_STA_GOT_IP ip # evs) w = Done w' \<and>
     wf_connected_bit (w_wifi w') \<and> wf_mode (w_wifi w') = Some WIFI_MODE_STA \<and> wf_ip (w_wifi w') = ip \<and>
     wf_ap_rssi (w_wifi w') = wf_ap_rssi (w_wifi w) \<and> w' = w\<lparr>w_wifi := w_wifi w', w_lcd := w_lcd w'\<rparr>"
proof -
  define w1 where "w1 = on_wifi (\<lambda>s. s\<lparr>wf_connected_bit := False, wf_fail_bit := False,
      wf_sta_ssid := take 32 (w_wifiSsid w), wf_sta_password := take 64 (w_wifiPassword w), wf_mode := Some WIFI_MODE_STA\<rparr>) w"
  let ?w2 = "on_wifi (\<lambda>s. s\<lparr>wf_ip := ip\<rparr>) (on_wifi esp_wifi_connect w1)"
  let ?w3 = "on_wifi (\<lambda>s. s\<lparr>wf_retry_num := 0, wf_connected_bit := True\<rparr>) (show_lines ''WIFI CONECTADO'' (ip_string ip) ?w2)"
  have m: "wf_mode (w_wifi ?w2) = Some WIFI_MODE_STA" "wf_ip (w_wifi ?w2) = ip"
    by (simp_all add: w1_def esp_wifi_connect_def)
  have "wait_bits (WIFI_EVENT_STA_START # IP_EVENT_STA_GOT_IP ip # evs) w1 = Done ?w3"
    using printCurrentIP_lines(1) [OF m(1)] m(2)
    by (simp add: wait_bits.simps event_handler_def) (simp add: w1_def esp_wifi_connect_def)
  then have "wifi_init_sta (WIFI_EVENT_STA_START # IP_EVENT_STA_GOT_IP ip # evs) w = Done ?w3"
    by (simp add: wifi_init_sta_def flip: w1_def)
  then show ?thesis
    by (intro exI [of _ ?w3]) (simp add: w1_def on_wifi_def esp_wifi_connect_def show_lines_def on_lcd_def)
qed

lemma boot_urls_length: "length mac = 6 \<Longrightarrow> length (boot_url mac) < SERVER_URL_MAX_LEN"
  "length mac = 6 \<Longrightarrow> length (boot_events mac) < SERVER_URL_MAX_LEN"
  by (simp_all add: disp_url_of_def events_url_of_def mac_string_length SERVER_URL_MAX_LEN_def)

lemma read_server_first:
  assumes "length mac = 6" "nv_healthy n" "nv_ns n" "nv_str n ''disp_url'' = Some (boot_url mac)"
    "nv_str n ''events_url'' = Some (boot_events mac)"
  shows "\<exists>n1. read_server_credentials d SERVER_URL_MAX_LEN e SERVER_URL_MAX_LEN n = (boot_url mac, boot_events mac, n1) \<and>
     nv_healthy n1 \<and> nv_ns n1 \<and> nv_u8 n1 = nv_u8 n"
  using assms(2-) boot_urls_length [OF assms(1)] by (simp add: read_server_credentials_def nvs_close_def)

lemma connected_start:
  assumes "length mac = 6" "nv_healthy (w_nvs w)" "nv_ns (w_nvs w)" "nv_str (w_nvs w) ''disp_url'' = Some (boot_url mac)"
    "nv_str (w_nvs w) ''events_url'' = Some (boot_events mac)" "wget INITIALIZING w" "w_json_fault w = (\<lambda>_. False)"
    "\<And>n. \<not> w_malloc_fails w n" "w_response w = None" "wf_ap_rssi (w_wifi w) = Some r"
    "\<forall>v\<in>{w_firmwareVersion w, w_wifiSsid w, dec_int r, w_clock w}. NUL \<notin> set v \<and> length v \<le> 100"
    "no_news (boot_url mac @ ''info.json'') (w_replies w (length (w_requests w)))"
  shows "\<exists>w' body. app_main_connected w = Some w' \<and> w_disp_url w' = boot_url mac \<and> w_events_url w' = boot_events mac \<and>
     w_requests w' = w_requests w @ [\<lparr>rq_method = HTTP_PUT, rq_url = boot_url mac @ ''info.json'', rq_body = Some body\<rparr>] \<and>
     w_tasks w' = w_tasks w @ [Create DataFetchTask, Create AliveTask, Create DataProcessTask] \<and>
     w_gpio w' = w_gpio w \<and> w_wifi w' = w_wifi w \<and> w_menu w' = w_menu w \<and> w_junk w' = w_junk w \<and>
     w_json_fault w' = w_json_fault w \<and> w_replies w' = w_replies w \<and> w_malloc_fails w' = w_malloc_fails w \<and>
     w_response w' = None \<and> nv_healthy (w_nvs w') \<and> nv_ns (w_nvs w') \<and> nv_u8 (w_nvs w') = nv_u8 (w_nvs w) \<and> wget INITIALIZING w'"
proof -
  let ?w1 = "show_lines ''LOGUEANDO EN'' ''FIREBASE'' (show_lines ''OBTENIENDO'' ''TIEMPO NTP'' w)"
  have n: "w_nvs ?w1 = w_nvs w" by (simp add: show_lines_def)
  obtain n1 where r: "read_server_credentials (w_disp_url ?w1) SERVER_URL_MAX_LEN (w_events_url ?w1) SERVER_URL_MAX_LEN (w_nvs ?w1) =
      (boot_url mac, boot_events mac, n1)" "nv_healthy n1" "nv_ns n1" "nv_u8 n1 = nv_u8 (w_nvs w)"
    using read_server_first assms(1-5) unfolding n by blast
  let ?w2 = "?w1\<lparr>w_disp_url := boot_url mac, w_events_url := boot_events mac, w_nvs := n1\<rparr>"
  have g: "get_wifi_signal_strength ?w2 = ?w2\<lparr>w_rssi_str := dec_int r\<rparr>"
    using assms(10) by (simp add: get_wifi_signal_strength_def show_lines_def on_lcd_def)
  have q: "w_json_fault ?w2 = w_json_fault w" "w_disp_url ?w2 = boot_url mac" "w_malloc_fails ?w2 = w_malloc_fails w"
      "w_response ?w2 = w_response w" "w_replies ?w2 = w_replies w" "w_requests ?w2 = w_requests w"
      "w_firmwareVersion ?w2 = w_firmwareVersion w" "w_wifiSsid ?w2 = w_wifiSsid w" "w_clock ?w2 = w_clock w"
      "w_rssi_str (?w2\<lparr>w_rssi_str := dec_int r\<rparr>) = dec_int r"
    by (simp_all add: show_lines_def on_lcd_def)
  obtain body w3 where b: "firebase_set_dispositivo_info ?w2 = Some w3"
      "asked HTTP_PUT (boot_url mac @ ''info.json'') (Some body) (?w2\<lparr>w_rssi_str := dec_int r\<rparr>) w3"
    using info_asked [of ?w2, unfolded g q] assms(7-9,11,12) boot_urls_length [OF assms(1)] by blast
  have f: "w_events_url (?w2\<lparr>w_rssi_str := dec_int r\<rparr>) = boot_events mac" "w_gpio (?w2\<lparr>w_rssi_str := dec_int r\<rparr>) = w_gpio w"
      "w_tasks (?w2\<lparr>w_rssi_str := dec_int r\<rparr>) = w_tasks w" "w_wifi (?w2\<lparr>w_rssi_str := dec_int r\<rparr>) = w_wifi w"
      "w_menu (?w2\<lparr>w_rssi_str := dec_int r\<rparr>) = w_menu w" "w_junk (?w2\<lparr>w_rssi_str := dec_int r\<rparr>) = w_junk w"
      "w_nvs (?w2\<lparr>w_rssi_str := dec_int r\<rparr>) = n1" "w_disp_url (?w2\<lparr>w_rssi_str := dec_int r\<rparr>) = boot_url mac"
      "w_requests (?w2\<lparr>w_rssi_str := dec_int r\<rparr>) = w_requests w" "w_replies (?w2\<lparr>w_rssi_str := dec_int r\<rparr>) = w_replies w"
      "w_malloc_fails (?w2\<lparr>w_rssi_str := dec_int r\<rparr>) = w_malloc_fails w" "w_response (?w2\<lparr>w_rssi_str := dec_int r\<rparr>) = w_response w"
      "w_json_fault (?w2\<lparr>w_rssi_str := dec_int r\<rparr>) = w_json_fault w"
    by (simp_all add: show_lines_def on_lcd_def)
  have i: "wget INITIALIZING w3"
    using assms(6) asked_flags [OF b(2), of INITIALIZING] by (simp add: show_lines_def on_lcd_def wget_def)
  note fr = asked_frame [OF b(2), unfolded f]
  show ?thesis
    unfolding app_main_connected_def if_P [OF assms(6)] Let_def r(1) prod.case b(1) option.map
    using r(2-4) i fr assms(9) by (simp add: task_do_def) (simp add: wget_def)
qed

text \<open>The addresses of the first start; the MAC address is in digits and capital letters.\<close>

lemma byte_less: "unat (b :: u8) < 256"
  by (rule order_less_le_trans [OF unsigned_less]) simp

lemma mac_chars: "c \<in> set (mac_string mac) \<Longrightarrow> c \<noteq> CHR ''/''"
proof -
  assume "c \<in> set (mac_string mac)"
  then have "c \<in> set (concat (map hex2 (take 6 mac)))" by (auto simp: mac_string_def snprintf_s_def dest: in_set_takeD)
  then obtain b where "c \<in> set (hex2 b)" by auto
  moreover have "hex_char d \<noteq> CHR ''/''" if "d < 16" for d
  proof -
    have "of_char (hex_char d) \<noteq> (of_char (CHR ''/'') :: nat)" using that by (simp add: hex_char_def)
    then show ?thesis by metis
  qed
  moreover have "unat b div 16 < 16" "unat b mod 16 < 16" using byte_less [of b] by simp_all
  ultimately show "c \<noteq> CHR ''/''" by (simp only: hex2_def list.set) (metis insertE emptyE)
qed

text \<open>In an address that ends in \<open>/data/\<close> behind the MAC address, no slash is followed by an \<open>n\<close>.\<close>

lemma sublist_two:
  "sublist [a, b] (x # xs) \<longleftrightarrow> a = x \<and> (\<exists>ys. xs = b # ys) \<or> sublist [a, b] xs"
  by (cases xs) (auto simp: sublist_Cons_right)

lemma sublist_two_skip: "\<forall>x\<in>set xs. x \<noteq> a \<Longrightarrow> sublist [a, b] (xs @ ys) \<longleftrightarrow> sublist [a, b] ys"
  by (induction xs) (auto simp: sublist_two)

lemma boot_devices_url:
  assumes "length mac = 6"
  shows "strstr (boot_url mac @ ''devices.json'') ''/newData.json'' = None" "suffix ''/'' (boot_url mac)" "suffix ''/'' (boot_events mac)"
proof -
  obtain c m where m: "mac_string mac = c # m" using mac_string_length [OF assms] by (cases "mac_string mac") auto
  have hd: "c \<noteq> CHR ''n''"
  proof -
    obtain b bs where b: "mac = b # bs" using assms by (cases mac) auto
    have "c = hex_char (unat b div 16)" using m by (simp add: mac_string_def snprintf_s_def b hex2_def)
    moreover have "hex_char d \<noteq> CHR ''n''" if "d < 16" for d
    proof -
      have "of_char (hex_char d) \<noteq> (of_char (CHR ''n'') :: nat)" using that by (simp add: hex_char_def)
      then show ?thesis by metis
    qed
    moreover have "unat b div 16 < 16" using byte_less [of b] by simp
    ultimately show ?thesis by simp
  qed
  have "\<not> sublist ''/n'' (boot_url mac @ ''devices.json'')"
    using hd mac_chars [of _ mac] sublist_two_skip [of "mac_string mac" "CHR ''/''" "CHR ''n''"]
    by (simp add: disp_url_of_def sublist_two m)
  then have "\<not> sublist ''/newData.json'' (boot_url mac @ ''devices.json'')"
  proof (rule contrapos_nn)
    have "sublist ''/n'' ''/newData.json''" by (simp add: sublist_two)
    then show "sublist ''/newData.json'' xs \<Longrightarrow> sublist ''/n'' xs" for xs
      by (rule sublist_order.order.trans)
  qed
  then show "strstr (boot_url mac @ ''devices.json'') ''/newData.json'' = None" using strstr_Some_iff by blast
  show "suffix ''/'' (boot_url mac)" "suffix ''/'' (boot_events mac)"
    by (simp_all add: disp_url_of_def events_url_of_def suffix_def)
qed

lemma devices_url:
  assumes "suffix ''/'' base" "length base < SERVER_URL_MAX_LEN"
  shows "strstr (snprintf_s URL_MAX_LEN (base @ ''devices.json'')) ''/devices.json'' \<noteq> None"
    and "snprintf_s URL_MAX_LEN (base @ ''devices.json'') = base @ ''devices.json''"
proof -
  show f: "snprintf_s URL_MAX_LEN (base @ ''devices.json'') = base @ ''devices.json''"
    using assms(2) by (simp add: snprintf_s_fits URL_MAX_LEN_def SERVER_URL_MAX_LEN_def)
  obtain p where "base = p @ ''/''" using assms(1) by (auto simp: suffix_def)
  then show "strstr (snprintf_s URL_MAX_LEN (base @ ''devices.json'')) ''/devices.json'' \<noteq> None"
    using f by (simp only: strstr_Some_iff) (simp add: sublist_def, metis append_Nil2)
qed

lemma devices_requested:
  assumes "\<And>n. \<not> w_malloc_fails w n" "w_response w = None" "ds \<noteq> []"
    and "concat ds = render fmt 0 (JArray js)" "plain (JArray js)" "nest (JArray js) \<le> CJSON_NESTING_LIMIT" "js \<noteq> []"
    and "\<forall>j\<in>set js. valid_device j" "nv_healthy (w_nvs w)" "nv_ns (w_nvs w)"
    and "L = loaded_from (w_junk w) (nv_u8 (w_nvs w)) 0 js"
    and "suffix ''/'' (w_disp_url w)" "length (w_disp_url w) < SERVER_URL_MAX_LEN"
    and "strstr (w_disp_url w @ ''devices.json'') ''/newData.json'' = None"
    and "relevant (rp_events (w_replies w (length (w_requests w)))) = answer (w_disp_url w @ ''devices.json'') ds"
  shows "\<exists>w'. firebase_get_dispositivo_devices w = Some w' \<and> w_devices w' = Some (map Some L) \<and>
     w_deviceCount w' = int (length L) \<and> w_gpio w' = switch_relays L (w_gpio w) \<and> w_response w' = None \<and>
     w_requests w' = w_requests w @ [\<lparr>rq_method = HTTP_GET, rq_url = w_disp_url w @ ''devices.json'', rq_body = None\<rparr>] \<and>
     client_frame w (w'\<lparr>w_requests := w_requests w\<rparr>) \<and> wget POPULATEDEVICES w' \<and>
     (wget POSTNONEWDATA w \<longrightarrow> wget POSTNONEWDATA w') \<and>
     (\<forall>f. f \<notin> {POPULATEDEVICES, POSTNONEWDATA} \<longrightarrow> wget f w' = wget f w)"
proof -
  let ?u = "w_disp_url w @ ''devices.json''" and ?rp = "w_replies w (length (w_requests w))"
  define w2 where "w2 = w\<lparr>w_url := ?u, w_requests := w_requests w @ [\<lparr>rq_method = HTTP_GET, rq_url = ?u, rq_body = None\<rparr>]\<rparr>"
  have m: "\<And>n. \<not> w_malloc_fails w2 n" "w_response w2 = None" "nv_healthy (w_nvs w2)" "nv_ns (w_nvs w2)"
      "L = loaded_from (w_junk w2) (nv_u8 (w_nvs w2)) 0 js" "w_gpio w2 = w_gpio w"
    using assms(1,2,9-11) by (simp_all add: w2_def)
  have len: "length L = length js" using assms(8,11) by (simp add: loaded_from_length)
  have n: "strstr (snprintf_s URL_MAX_LEN ?u) ''/newData.json'' = None"
    using assms(14) devices_url(2) [OF assms(12,13)] by simp
  obtain w' where h: "handle_events (answer ?u ds) w2 = Some w'" "w_devices w' = Some (map Some L)" "w_deviceCount w' = int (length L)"
      "w_gpio w' = switch_relays L (w_gpio w)" "w_response w' = None" "wget POPULATEDEVICES w'"
      "\<forall>f. f \<notin> {POPULATEDEVICES, POSTNONEWDATA} \<longrightarrow> wget f w' = wget f w2" "wget POSTNONEWDATA w2 \<longrightarrow> wget POSTNONEWDATA w'"
    using devices_answer [OF m(1,2) assms(3-7) n devices_url(1) [OF assms(12,13)] m(3-5)] len by (auto simp: m(6))
  have h': "handle_events (rp_events ?rp) w2 = Some w'"
    using h(1) handle_relevant [of "rp_events ?rp"] by (simp only: assms(15))
  have run: "firebase_get_dispositivo_devices w = Some w'"
    using h' devices_url(2) [OF assms(12,13)] unfolding w2_def
    by (simp add: firebase_get_dispositivo_devices_def url_printf_def perform_http_get_def perform_def
        esp_http_client_perform_def Let_def option.map_comp comp_def option.map_ident)
  have "w_requests w' = w_requests w2" "client_frame w (w'\<lparr>w_requests := w_requests w\<rparr>)"
    using handle_events_frame [OF h'] by (simp_all add: client_frame_def w2_def)
  moreover have "wget f w2 = wget f w" for f by (simp add: w2_def)
  ultimately show ?thesis using run h(2-8) by (intro exI [of _ w'] conjI) (simp_all add: w2_def)
qed

text \<open>The menus are opened after the status request has been echoed and while the list arrives.\<close>

lemma menus_start:
  assumes "wget INITIALIZING w" "w_json_fault w = (\<lambda>_. False)" "length (w_events_url w) < SERVER_URL_MAX_LEN"
    and "length (w_disp_url w) < SERVER_URL_MAX_LEN" "suffix ''/'' (w_events_url w)" "suffix ''/'' (w_disp_url w)"
    and "strstr (w_disp_url w @ ''devices.json'') ''/newData.json'' = None" "wf_mode (w_wifi w) = Some WIFI_MODE_STA"
    and "\<And>n. \<not> w_malloc_fails w n" "w_response w = None" "nv_healthy (w_nvs w)" "nv_ns (w_nvs w)"
    and "relevant (rp_events (w_replies w (length (w_requests w)))) = answer (w_events_url w @ ''newData.json'') ds1"
    and "ds1 \<noteq> []" "parsed (concat ds1) = Some read_status_document"
    and "relevant (rp_events (w_replies w (Suc (length (w_requests w))))) = answer (w_disp_url w @ ''devices.json'') ds2"
    and "ds2 \<noteq> []" "concat ds2 = render fmt 0 (JArray js)" "plain (JArray js)" "nest (JArray js) \<le> CJSON_NESTING_LIMIT" "js \<noteq> []"
    and "\<forall>j\<in>set js. valid_device j" "L = loaded_from (w_junk w) (nv_u8 (w_nvs w)) 0 js"
  shows "\<exists>w' body. app_main_menus w = Some w' \<and> \<not> wget INITIALIZING w' \<and>
     w_requests w' = w_requests w @
       [\<lparr>rq_method = HTTP_PUT, rq_url = w_events_url w @ ''newData.json'', rq_body = Some body\<rparr>,
        \<lparr>rq_method = HTTP_GET, rq_url = w_disp_url w @ ''devices.json'', rq_body = None\<rparr>] \<and>
     w_tasks w' = w_tasks w @ [Create ButtonTask, Create ACSReadTask] \<and>
     ms_current (w_menu w') = MainMenu \<and> ms_index (w_menu w') = ms_index (w_menu w) \<and>
     (\<forall>m\<in>{Submenu1, Submenu2, Submenu3}. sm_parent (ms_menus (w_menu w') m) = Some MainMenu) \<and>
     w_gpio w' = switch_relays L (w_gpio w) \<and> w_devices w' = Some (map Some L) \<and> w_wifi w' = w_wifi w \<and>
     wget FETCHNEWDEVICESDATA w' \<and> wget POSTNONEWDATA w' \<and> wget POPULATEDEVICES w' \<and>
     (\<exists>w0. w_lcd w' = w_lcd (show_lines ''WIFI CONECTADO'' (ip_string (wf_ip (w_wifi w))) w0))"
proof -
  let ?w1 = "wset INITIALIZING False w"
  have q: "w_json_fault ?w1 = w_json_fault w" "w_events_url ?w1 = w_events_url w" "w_malloc_fails ?w1 = w_malloc_fails w"
      "w_response ?w1 = w_response w" "w_replies ?w1 = w_replies w" "w_requests ?w1 = w_requests w"
    by (simp_all add: wset_def)
  obtain v where v: "firebase_read_device_status ?w1 = Some v"
      "reported HTTP_PUT (w_events_url w @ ''newData.json'') read_status_document ?w1 v"
      "wget FETCHNEWDEVICESDATA v" "wget POSTNONEWDATA v" "w_response v = None" "news_frame ?w1 v"
      "client_frame ?w1 (v\<lparr>w_requests := w_requests w\<rparr>)"
      "\<forall>f. f \<notin> {FETCHNEWDEVICESDATA, POSTNONEWDATA} \<longrightarrow> wget f v = wget f ?w1"
    using read_status_echo [of ?w1, unfolded q] assms(2,3,5,9,10,13-15) by blast
  define w2 where "w2 = initMenuSystem (set_parents v)"
  obtain body where b: "w_requests v = w_requests w @ [\<lparr>rq_method = HTTP_PUT, rq_url = w_events_url w @ ''newData.json'', rq_body = Some body\<rparr>]"
    using v(2) by (auto simp: reported_def q)
  have f: "w_disp_url w2 = w_disp_url w" "w_replies w2 = w_replies w" "w_wifi w2 = w_wifi w" "w_requests w2 = w_requests v"
      "w_malloc_fails w2 = w_malloc_fails w" "w_response w2 = None" "w_nvs w2 = w_nvs w" "w_junk w2 = w_junk w"
      "w_gpio w2 = w_gpio w" "w_tasks w2 = w_tasks w"
    using v(5-7) by (simp_all add: w2_def client_frame_def news_frame_def initMenuSystem_def set_parents_def set_current_def
        set_menu_def wset_def)
  have g: "wget f w2 = wget f v" for f
    by (simp add: w2_def initMenuSystem_def set_parents_def set_current_def set_menu_def wget_def)
  have mn: "ms_current (w_menu w2) = MainMenu" "ms_index (w_menu w2) = ms_index (w_menu w)"
      "\<forall>m\<in>{Submenu1, Submenu2, Submenu3}. sm_parent (ms_menus (w_menu w2) m) = Some MainMenu"
    using v(7) by (simp_all add: w2_def client_frame_def initMenuSystem_def set_parents_def set_current_def set_menu_def wset_def)
  have k: "length (w_requests v) = Suc (length (w_requests w))" using b by simp
  obtain w3 where d: "firebase_get_dispositivo_devices w2 = Some w3" "w_devices w3 = Some (map Some L)"
      "w_gpio w3 = switch_relays L (w_gpio w)"
      "w_requests w3 = w_requests v @ [\<lparr>rq_method = HTTP_GET, rq_url = w_disp_url w @ ''devices.json'', rq_body = None\<rparr>]"
      "client_frame w2 (w3\<lparr>w_requests := w_requests v\<rparr>)" "wget POPULATEDEVICES w3" "wget POSTNONEWDATA w2 \<longrightarrow> wget POSTNONEWDATA w3"
      "\<forall>f. f \<notin> {POPULATEDEVICES, POSTNONEWDATA} \<longrightarrow> wget f w3 = wget f w2"
    using devices_requested [of w2, unfolded f k] assms(4,6,7,9,11,12,16-23) by blast
  let ?w4 = "task_do (Create ButtonTask) w3"
  have e: "w_wifi w3 = w_wifi w" "w_menu w3 = w_menu w2" "w_tasks w3 = w_tasks w"
    using d(5) f by (simp_all add: client_frame_def)
  have p: "printCurrentIP ?w4 = Some (show_lines ''WIFI CONECTADO'' (ip_string (wf_ip (w_wifi ?w4))) ?w4)"
    by (rule printCurrentIP_lines(1)) (simp add: task_do_def e assms(8))
  have run: "app_main_menus w = Some (task_do (Create ACSReadTask) (show_lines ''WIFI CONECTADO'' (ip_string (wf_ip (w_wifi ?w4))) ?w4))"
    unfolding app_main_menus_def if_P [OF assms(1)] v(1) bind.bind_lunit w2_def [symmetric] d(1) p by simp
  have fl: "\<not> wget INITIALIZING w3" "wget FETCHNEWDEVICESDATA w3" "wget POSTNONEWDATA w3"
    using d(7,8) v(3,4,8) g by simp_all
  show ?thesis
    by (rule exI, rule exI [of _ body], intro conjI, rule run)
      (use fl d(2-4,6) b e mn in \<open>auto simp: task_do_def show_lines_def on_lcd_def wget_def\<close>)
qed

text \<open>
  C4. The first start with a network, \<open>app_main\<close> on its own (no round of the tasks it creates in between): with an
  empty, working flash, an access point that answers, and a server that answers as the database does. The
  report of the device information may fail or come back with any body; the status request is echoed; and
  \<open>devices.json\<close> holds valid devices. Then \<open>app_main\<close> returns; it has created the five tasks in order, sent the
  three requests to the addresses built from the MAC address, loaded the devices with the pins of the first start,
  opened the main menu and linked the submenus to it. Pin 23 was made an output and driven high, and then the relays
  of the list were switched as it says, so a first device that is on leaves the pin low. The flags that
  make the processing task fetch the list once more are set.
\<close>

theorem boot_reaches_menu:
  assumes "length mac = 6" "nv_healthy (w_nvs w)" "nv_u8 (w_nvs w) ''initialized'' = None"
    and "wf_ap_rssi (w_wifi w) = Some r" "int32 r" "NUL \<notin> set (w_clock w)" "length (w_clock w) \<le> 100"
    and "w_json_fault w = (\<lambda>_. False)" "\<And>n. \<not> w_malloc_fails w n" "w_response w = None"
    and "w_requests w = []" "w_tasks w = []"
    and "no_news (disp_url_of (mac_string mac) @ ''info.json'') (w_replies w 0)"
    and "relevant (rp_events (w_replies w 1)) = answer (events_url_of (mac_string mac) @ ''newData.json'') ds1"
    and "ds1 \<noteq> []" "parsed (concat ds1) = Some read_status_document"
    and "relevant (rp_events (w_replies w 2)) = answer (disp_url_of (mac_string mac) @ ''devices.json'') ds2"
    and "ds2 \<noteq> []" "concat ds2 = render fmt 0 (JArray js)" "plain (JArray js)" "nest (JArray js) \<le> CJSON_NESTING_LIMIT" "js \<noteq> []"
    and "\<forall>j\<in>set js. valid_device j" "L = loaded_from (w_junk w) (first_pins (nv_u8 (w_nvs w))) 0 js"
  shows "\<exists>w'. app_main mac (WIFI_EVENT_STA_START # IP_EVENT_STA_GOT_IP ip # evs) w = Done w' \<and>
     w_tasks w' = [Create DataFetchTask, Create AliveTask, Create DataProcessTask, Create ButtonTask, Create ACSReadTask] \<and>
     map (\<lambda>q. (rq_method q, rq_url q)) (w_requests w') =
       [(HTTP_PUT, disp_url_of (mac_string mac) @ ''info.json''), (HTTP_PUT, events_url_of (mac_string mac) @ ''newData.json''),
        (HTTP_GET, disp_url_of (mac_string mac) @ ''devices.json'')] \<and>
     ms_current (w_menu w') = MainMenu \<and> ms_index (w_menu w') = ms_index (w_menu w) \<and>
     (\<forall>m\<in>{Submenu1, Submenu2, Submenu3}. sm_parent (ms_menus (w_menu w') m) = Some MainMenu) \<and>
     \<not> wget INITIALIZING w' \<and> wf_connected_bit (w_wifi w') \<and> wf_ip (w_wifi w') = ip \<and>
     w_devices w' = Some (map Some L) \<and>
     w_gpio w' = switch_relays L (snd (gpio_set_level 23 1 (init_gpio (w_gpio w)))) \<and>
     wget FETCHNEWDEVICESDATA w' \<and> wget POSTNONEWDATA w' \<and> wget POPULATEDEVICES w'"
proof -
  obtain w1 where 1: "app_main_prepare mac w = Some w1" and p: "prepared mac w w1"
    using prepare_first_start [OF assms(2,3,1)] by blast
  obtain w2 where 2: "wifi_init_sta (WIFI_EVENT_STA_START # IP_EVENT_STA_GOT_IP ip # evs) w1 = Done w2"
      "wf_connected_bit (w_wifi w2)" "wf_mode (w_wifi w2) = Some WIFI_MODE_STA" "wf_ip (w_wifi w2) = ip"
      "wf_ap_rssi (w_wifi w2) = wf_ap_rssi (w_wifi w1)" "w2 = w1\<lparr>w_wifi := w_wifi w2, w_lcd := w_lcd w2\<rparr>"
    using station_connects by blast
  have f: "w_nvs w2 = w_nvs w1" "wget INITIALIZING w2 = wget INITIALIZING w1" "w_json_fault w2 = w_json_fault w1"
      "w_replies w2 = w_replies w1" "w_firmwareVersion w2 = w_firmwareVersion w1" "w_wifiSsid w2 = w_wifiSsid w1"
      "w_clock w2 = w_clock w1" "w_requests w2 = w_requests w1" "w_tasks w2 = w_tasks w1" "w_gpio w2 = w_gpio w1"
      "w_menu w2 = w_menu w1" "w_malloc_fails w2 = w_malloc_fails w1" "w_response w2 = w_response w1" "w_junk w2 = w_junk w1"
    by (subst 2(6), simp add: wget_def)+
  note p = p [unfolded prepared_def]
  have v: "\<forall>v\<in>{w_firmwareVersion w2, w_wifiSsid w2, dec_int r, w_clock w2}. NUL \<notin> set v \<and> length v \<le> 100"
    using p f assms(6,7) dec_int_length [OF assms(5)] by (auto simp: FIRMWARE_def NUL_def dec_int_no_nul)
  have m2: "\<And>n. \<not> w_malloc_fails w2 n" "w_response w2 = None" "w_json_fault w2 = (\<lambda>_. False)" "wf_ap_rssi (w_wifi w2) = Some r"
      "no_news (boot_url mac @ ''info.json'') (w_replies w2 (length (w_requests w2)))"
    using p f 2(5) assms(4,8-11,13) by simp_all
  obtain w3 body where 3: "app_main_connected w2 = Some w3" "w_disp_url w3 = boot_url mac" "w_events_url w3 = boot_events mac"
     "w_requests w3 = w_requests w2 @ [\<lparr>rq_method = HTTP_PUT, rq_url = boot_url mac @ ''info.json'', rq_body = Some body\<rparr>]"
     "w_tasks w3 = w_tasks w2 @ [Create DataFetchTask, Create AliveTask, Create DataProcessTask]"
     "w_gpio w3 = w_gpio w2" "w_wifi w3 = w_wifi w2" "w_menu w3 = w_menu w2" "w_junk w3 = w_junk w2"
     "w_json_fault w3 = w_json_fault w2" "w_replies w3 = w_replies w2" "w_malloc_fails w3 = w_malloc_fails w2" "w_response w3 = None"
     "nv_healthy (w_nvs w3)" "nv_ns (w_nvs w3)" "nv_u8 (w_nvs w3) = nv_u8 (w_nvs w2)" "wget INITIALIZING w3"
    using connected_start [OF assms(1) _ _ _ _ _ m2(3,1,2,4) v m2(5)] p f by auto
  have k: "w_requests w3 = [\<lparr>rq_method = HTTP_PUT, rq_url = boot_url mac @ ''info.json'', rq_body = Some body\<rparr>]"
      "length (w_requests w3) = 1" "w_replies w3 = w_replies w" "L = loaded_from (w_junk w3) (nv_u8 (w_nvs w3)) 0 js"
      "\<And>n. \<not> w_malloc_fails w3 n" "w_json_fault w3 = (\<lambda>_. False)" "wf_mode (w_wifi w3) = Some WIFI_MODE_STA"
    using 2(3) 3 f p assms(8,9,11,24) by simp_all
  note url = boot_devices_url [OF assms(1)] boot_urls_length [OF assms(1)]
  obtain w' b2 where 4: "app_main_menus w3 = Some w'" "\<not> wget INITIALIZING w'"
      "w_requests w' = w_requests w3 @
       [\<lparr>rq_method = HTTP_PUT, rq_url = boot_events mac @ ''newData.json'', rq_body = Some b2\<rparr>,
        \<lparr>rq_method = HTTP_GET, rq_url = boot_url mac @ ''devices.json'', rq_body = None\<rparr>]"
      "w_tasks w' = w_tasks w3 @ [Create ButtonTask, Create ACSReadTask]"
      "ms_current (w_menu w') = MainMenu" "ms_index (w_menu w') = ms_index (w_menu w3)"
      "\<forall>m\<in>{Submenu1, Submenu2, Submenu3}. sm_parent (ms_menus (w_menu w') m) = Some MainMenu"
      "w_gpio w' = switch_relays L (w_gpio w3)" "w_devices w' = Some (map Some L)" "w_wifi w' = w_wifi w3"
      "wget FETCHNEWDEVICESDATA w'" "wget POSTNONEWDATA w'" "wget POPULATEDEVICES w'"
    using menus_start [OF 3(17) k(6), unfolded 3(2,3) k(2,3), OF url(5,4,3,2,1) k(7,5) 3(13-15) _ assms(15,16) _ assms(18-23) k(4)]
      assms(14,17) by (auto simp: numeral_2_eq_2)
  have "app_main mac (WIFI_EVENT_STA_START # IP_EVENT_STA_GOT_IP ip # evs) w = Done w'"
    using 1 2(1,2) 3(1) 4(1) by (simp add: app_main_def)
  then show ?thesis
    using 2(2,4) 3(5-8) 4(2-13) f p k(1) assms(12) by (intro exI [of _ w']) simp
qed

text \<open>A board that starts in a network where its list holds one lamp that is on.\<close>

definition test_mac :: "u8 list" where "test_mac = [0xA0, 0xB1, 0xC2, 0xD3, 0xE4, 0xF5]"

definition first_board :: world where
  "first_board = on_wifi (\<lambda>s. s\<lparr>wf_ap_rssi := Some (- 60)\<rparr>) (boot_world\<lparr>w_replies := (\<lambda>k.
     if k = 0 then no_reply
     else if k = 1 then echo (boot_events test_mac @ ''newData.json'') (render False 0 read_status_document) 200
     else echo (boot_url test_mac @ ''devices.json'') (render True 0 (JArray [lamp])) 200)\<rparr>)"

theorem boot_reaches_menu_witness:
  "\<exists>w'. app_main test_mac [WIFI_EVENT_STA_START, IP_EVENT_STA_GOT_IP (192, 168, 4, 1)] first_board = Done w' \<and>
     w_tasks w' = [Create DataFetchTask, Create AliveTask, Create DataProcessTask, Create ButtonTask, Create ACSReadTask] \<and>
     wf_ip (w_wifi w') = (192, 168, 4, 1) \<and> g_log (w_gpio w') = [(23, 1), (23, 0)]"
proof -
  have pj: "parsed (render False 0 read_status_document) = Some read_status_document"
    by (rule parsed_render) (simp_all add: read_status_document_def json_build CJSON_NESTING_LIMIT_def NUL_def)
  have lj: "plain (JArray [lamp])" "nest (JArray [lamp]) \<le> CJSON_NESTING_LIMIT"
    by (simp_all add: lamp_def NUL_def INT_MIN_def INT_MAX_def CJSON_NESTING_LIMIT_def)
  have e: "w_replies first_board 0 = no_reply"
      "w_replies first_board 1 = echo (boot_events test_mac @ ''newData.json'') (render False 0 read_status_document) 200"
      "w_replies first_board 2 = echo (boot_url test_mac @ ''devices.json'') (render True 0 (JArray [lamp])) 200"
      "w_nvs first_board = w_nvs boot_world" "w_requests first_board = []" "w_tasks first_board = []" "w_response first_board = None"
      "w_malloc_fails first_board = (\<lambda>_. False)" "w_json_fault first_board = (\<lambda>_. False)" "w_clock first_board = []"
      "w_junk first_board = (\<lambda>_. 0)" "wf_ap_rssi (w_wifi first_board) = Some (- 60)" "w_gpio first_board = w_gpio boot_world"
    by (simp_all add: first_board_def on_wifi_def boot_world_def)
  let ?L = "[\<lparr>d_name = Some ''Luz'', d_id = 0, d_pin = 23, d_state = True, d_type = ''relay''\<rparr>]"
  have n: "no_news u no_reply" for u by (simp add: no_news_def no_reply_def relevant_def)
  have l: "loaded (\<lambda>_. 0) (first_pins (nv_u8 (w_nvs boot_world))) 0 lamp = hd ?L"
    by (simp add: first_pins_def boot_world_def loaded_def lamp_members device_key_def snprintf_s_def
        dec_int_def dec_nat.simps [of 0] digit_char_def char_of_def bit_0 stored_pin_def INT_MIN_def INT_MAX_def)
  have "\<exists>w'. app_main test_mac [WIFI_EVENT_STA_START, IP_EVENT_STA_GOT_IP (192, 168, 4, 1)] first_board = Done w' \<and>
     w_tasks w' = [Create DataFetchTask, Create AliveTask, Create DataProcessTask, Create ButtonTask, Create ACSReadTask] \<and>
     map (\<lambda>q. (rq_method q, rq_url q)) (w_requests w') =
       [(HTTP_PUT, disp_url_of (mac_string test_mac) @ ''info.json''), (HTTP_PUT, events_url_of (mac_string test_mac) @ ''newData.json''),
        (HTTP_GET, disp_url_of (mac_string test_mac) @ ''devices.json'')] \<and>
     ms_current (w_menu w') = MainMenu \<and> ms_index (w_menu w') = ms_index (w_menu first_board) \<and>
     (\<forall>m\<in>{Submenu1, Submenu2, Submenu3}. sm_parent (ms_menus (w_menu w') m) = Some MainMenu) \<and>
     \<not> wget INITIALIZING w' \<and> wf_connected_bit (w_wifi w') \<and> wf_ip (w_wifi w') = (192, 168, 4, 1) \<and>
     w_devices w' = Some (map Some ?L) \<and>
     w_gpio w' = switch_relays ?L (snd (gpio_set_level 23 1 (init_gpio (w_gpio first_board)))) \<and>
     wget FETCHNEWDEVICESDATA w' \<and> wget POSTNONEWDATA w' \<and> wget POPULATEDEVICES w'"
  proof (rule boot_reaches_menu)
    show "relevant (rp_events (w_replies first_board 1)) =
        answer (events_url_of (mac_string test_mac) @ ''newData.json'') [render False 0 read_status_document]"
      "relevant (rp_events (w_replies first_board 2)) =
        answer (disp_url_of (mac_string test_mac) @ ''devices.json'') [render True 0 (JArray [lamp])]"
      by (simp_all only: e echo_facts)
    show "concat [render True 0 (JArray [lamp])] = render True 0 (JArray [lamp])" by simp
    show "?L = loaded_from (w_junk first_board) (first_pins (nv_u8 (w_nvs first_board))) 0 [lamp]"
      using l by (simp add: e lamp_valid)
    show "length test_mac = 6" by (simp add: test_mac_def)
    show "wf_ap_rssi (w_wifi first_board) = Some (- 60)" by (simp add: e)
    show "int32 (- 60)" by (simp add: int32_def INT_MIN_def INT_MAX_def)
  qed (use pj lj n in \<open>simp_all add: e lamp_valid nv_healthy_def boot_world_def
         del: plain.simps nest.simps\<close>)
  moreover have "g_log (snd (gpio_set_level 23 1 (init_gpio (w_gpio boot_world)))) = [(23, 1)]"
    by (simp add: gpio_set_level_def gpio_ll_set_level_def Let_def init_gpio_def boot_world_def)
  ultimately show ?thesis by (auto simp: e(13) switch_relays_log relay_writes_def simp del: One_nat_def)
qed

text \<open>
  C17. Asking for the device list at start: the server answers the PUT with the document it stored, and the
  event handler takes this answer for news. So \<open>firebase_read_device_status\<close> itself leaves the flags that
  make the processing task fetch the devices; and when the polling task is scheduled before that task, it
  takes the pending flag for a lost network, deletes the processing task and sends nothing. Nothing resets the flag or
  the handle then, so that the poll after it deletes the task a second time, which is undefined.
\<close>

theorem startup_race:
  assumes "w_json_fault w = (\<lambda>_. False)" "length (w_events_url w) < SERVER_URL_MAX_LEN" "suffix ''/'' (w_events_url w)"
    and "\<And>n. \<not> w_malloc_fails w n" "w_response w = None"
    and "relevant (rp_events (w_replies w (length (w_requests w)))) = answer (w_events_url w @ ''newData.json'') ds"
    and "ds \<noteq> []" "parsed (concat ds) = Some read_status_document"
  shows "\<exists>w'. firebase_read_device_status w = Some w' \<and>
     reported HTTP_PUT (w_events_url w @ ''newData.json'') read_status_document w w' \<and>
     wget FETCHNEWDEVICESDATA w' \<and> wget POSTNONEWDATA w' \<and> w_urlSection w' = ''get/devices'' \<and>
     (\<forall>f. f \<notin> {FETCHNEWDEVICESDATA, POSTNONEWDATA} \<longrightarrow> wget f w' = wget f w) \<and>
     check_new_data_round w' = delete_process_task w' \<and>
     (Create DataProcessTask \<in> set (w_tasks w) \<and> DeleteTask DataProcessTask \<notin> set (w_tasks w) \<longrightarrow>
        check_new_data_round w' = Some (task_do (DeleteTask DataProcessTask) w') \<and>
        check_new_data_round (task_do (DeleteTask DataProcessTask) w') = None)"
proof -
  obtain w' where w': "firebase_read_device_status w = Some w'"
      "reported HTTP_PUT (w_events_url w @ ''newData.json'') read_status_document w w'"
      "wget FETCHNEWDEVICESDATA w'" "wget POSTNONEWDATA w'" "w_urlSection w' = ''get/devices''"
      "\<forall>f. f \<notin> {FETCHNEWDEVICESDATA, POSTNONEWDATA} \<longrightarrow> wget f w' = wget f w"
      "client_frame w (w'\<lparr>w_requests := w_requests w\<rparr>)"
    using read_status_echo [OF assms] by blast
  have "w_tasks w' = w_tasks w" using w'(7) by (simp add: client_frame_def)
  then show ?thesis using w' by (intro exI [of _ w']) (simp add: check_new_data_round_def delete_process_task_def task_do_def wget_def)
qed

theorem startup_race_witness:
  "\<exists>w'. firebase_read_device_status (boot_world
       \<lparr>w_tasks := [Create DataFetchTask, Create AliveTask, Create DataProcessTask], w_events_url := ''https://x/'',
        w_replies := (\<lambda>_. echo ''https://x/newData.json'' (render False 0 read_status_document) 200)\<rparr>) = Some w' \<and>
     check_new_data_round w' = Some (task_do (DeleteTask DataProcessTask) w') \<and>
     check_new_data_round (task_do (DeleteTask DataProcessTask) w') = None"
proof -
  let ?w = "boot_world
       \<lparr>w_tasks := [Create DataFetchTask, Create AliveTask, Create DataProcessTask], w_events_url := ''https://x/'',
        w_replies := (\<lambda>_. echo ''https://x/newData.json'' (render False 0 read_status_document) 200)\<rparr>"
  have "parsed (render False 0 read_status_document) = Some read_status_document"
    by (rule parsed_render) (simp_all add: read_status_document_def json_build CJSON_NESTING_LIMIT_def NUL_def)
  then show ?thesis
    using startup_race [of ?w "[render False 0 read_status_document]"]
    by (auto simp: SERVER_URL_MAX_LEN_def suffix_def boot_world_def simp del: render.simps)
qed

section \<open>The clock\<close>

lemma first_shift:
  assumes "\<not> P (0::nat)"
  shows "(\<exists>j<Suc n. P j) \<longleftrightarrow> (\<exists>j<n. P (Suc j))" and "\<exists>j<n. P (Suc j) \<Longrightarrow> (LEAST j. P j) = Suc (LEAST j. P (Suc j))"
  using assms by (auto simp: Ex_less_Suc2 intro: Least_Suc)

lemma wait_for_time_spec:
  assumes "retry + n = 9"
  shows "wait_for_time years retry waits =
     (if \<exists>j < Suc n. 116 \<le> years (waits + j)
      then (let j = LEAST j. 116 \<le> years (waits + j) in (retry + j, waits + j))
      else (10, waits + n))"
  using assms
proof (induction n arbitrary: retry waits)
  case 0
  then show ?case
    by (simp add: wait_for_time.simps [of years 9] Least_eq_0)
next
  case (Suc n)
  let ?P = "\<lambda>j. 116 \<le> years (waits + j)"
  show ?case
  proof (cases "?P 0")
    case True
    then have "\<exists>j<Suc (Suc n). ?P j" by blast
    with True Suc.prems show ?thesis by (simp add: wait_for_time.simps [of years retry] Least_eq_0)
  next
    case False
    then have "wait_for_time years retry waits = wait_for_time years (Suc retry) (Suc waits)"
      using Suc.prems by (simp add: wait_for_time.simps [of years retry])
    also have "\<dots> = (if \<exists>j<Suc n. ?P (Suc j) then (let j = LEAST j. ?P (Suc j) in (Suc retry + j, Suc waits + j))
        else (10, Suc waits + n))"
      using Suc.IH [of "Suc retry" "Suc waits"] Suc.prems by (auto simp: Let_def)
    finally show ?thesis
      using first_shift(1) [of ?P "Suc n"] first_shift(2) [of ?P "Suc n"] False
      by (cases "\<exists>j<Suc n. ?P (Suc j)") (simp_all only: add_0_right simp_thms if_True if_False Let_def add_Suc_right add_Suc)
  qed
qed

text \<open>
  Waiting for the clock: \<open>obtain_time\<close> always returns after at most nine waits of two seconds. The
  time counts as set exactly when one of its ten looks at the clock sees the year 2016 or a later one, and
  the waiting stops at the first such look.
\<close>

theorem obtain_time_bounded:
  "obtain_time years =
     (if \<exists>j < 10. 116 \<le> years j then (LEAST j. 116 \<le> years j, True) else (9, False)) \<and>
   fst (obtain_time years) \<le> 9"
proof (cases "\<exists>j < 10. 116 \<le> years j")
  case True
  then have "(LEAST j. 116 \<le> years j) < 10" by (meson Least_le le_less_trans)
  with True show ?thesis using wait_for_time_spec [of 0 9 years 0] by (simp add: obtain_time_def Let_def)
next
  case False
  then show ?thesis using wait_for_time_spec [of 0 9 years 0] by (auto simp: obtain_time_def)
qed

end
