(* ===== verification/System.thy ===== *)
theory System
  imports Tasks
begin

text \<open>
  The running firmware as one system: the rounds of the tasks of \<open>main/main.cpp\<close>, the WiFi events and the
  requests to the web server in any order, as a step relation on the state. A round is one step, so the
  tasks are interleaved between rounds but not inside of one; the events of a response may also come on their own,
  between any two steps. Each task runs when the calls to the
  scheduler recorded in \<open>w_tasks\<close> let it.
\<close>

section \<open>Frames\<close>

text \<open>
  What a step leaves alone is a relation between the states before and after. Relations that compose carry
  over from single calls to sequences of calls and to runs.
\<close>

locale step_frame =
  fixes frame :: "world \<Rightarrow> world \<Rightarrow> bool"
  assumes refl: "frame w w"
    and trans: "frame w w1 \<Longrightarrow> frame w1 w2 \<Longrightarrow> frame w w2"
begin

lemma bind:
  assumes "Option.bind (f w) g = Some w'" "\<And>v. f w = Some v \<Longrightarrow> frame w v" "\<And>v. g v = Some w' \<Longrightarrow> frame v w'"
  shows "frame w w'"
  using assms by (auto simp: bind_eq_Some_conv intro: trans)

lemma run:
  assumes "step\<^sup>*\<^sup>* w w'" "\<And>v v'. step v v' \<Longrightarrow> frame v v'"
  shows "frame w w'"
  using assms(1) by (induction rule: rtranclp_induct) (auto intro: refl trans dest: assms(2))

end

section \<open>What a step may change\<close>

definition fetch_flags :: "flag set" where "fetch_flags = {FETCHNEWINFODATA, FETCHNEWDEVICESDATA}"

definition rssi_ok :: "int option \<Rightarrow> bool" where
  "rssi_ok r \<longleftrightarrow> (\<forall>i. r = Some i \<longrightarrow> - 128 \<le> i \<and> i < 128)"

text \<open>
  The global text buffers hold what they have room for, with the terminator. (\<open>device_currents\<close> is not among
  them: its bound can be exceeded, see \<open>current_sensor_bounds\<close>.)
\<close>

definition buffers_ok :: "world \<Rightarrow> bool" where
  "buffers_ok w \<longleftrightarrow> length (w_url w) < URL_MAX_LEN \<and> length (w_urlSection w) < 80 \<and> length (w_linea w) < 16 \<and>
     length (w_rssi_str w) < 10 \<and> rssi_ok (wf_ap_rssi (w_wifi w))"

text \<open>Steps that send nothing and touch none of the buffers.\<close>

definition calm :: "world \<Rightarrow> world \<Rightarrow> bool" where
  "calm w w' \<longleftrightarrow> w_disp_url w' = w_disp_url w \<and> w_events_url w' = w_events_url w \<and> w_requests w' = w_requests w \<and>
     w_url w' = w_url w \<and> w_urlSection w' = w_urlSection w \<and> w_linea w' = w_linea w \<and> w_rssi_str w' = w_rssi_str w \<and>
     w_currents w' = w_currents w \<and> wf_ap_rssi (w_wifi w') = wf_ap_rssi (w_wifi w) \<and> prefix (w_tasks w) (w_tasks w') \<and>
     w_malloc_fails w' = w_malloc_fails w \<and> (\<forall>f\<in>fetch_flags. wget f w' = wget f w)"

text \<open>Any step: the requests it adds satisfy \<open>P\<close>.\<close>

definition evolves :: "(request \<Rightarrow> bool) \<Rightarrow> world \<Rightarrow> world \<Rightarrow> bool" where
  "evolves P w w' \<longleftrightarrow> w_disp_url w' = w_disp_url w \<and> w_events_url w' = w_events_url w \<and>
     (\<exists>rs. w_requests w' = w_requests w @ rs \<and> (\<forall>rq\<in>set rs. P rq)) \<and> prefix (w_tasks w) (w_tasks w') \<and>
     w_malloc_fails w' = w_malloc_fails w \<and>
     (buffers_ok w \<longrightarrow> buffers_ok w')"

definition sticky :: "world \<Rightarrow> world \<Rightarrow> bool" where
  "sticky w w' \<longleftrightarrow> (\<forall>f\<in>fetch_flags. wget f w \<longrightarrow> wget f w')"

lemma calm_refl [simp]: "calm w w" by (simp add: calm_def)

lemma calm_trans: "calm w w1 \<Longrightarrow> calm w1 w2 \<Longrightarrow> calm w w2"
  by (auto simp: calm_def)

lemma evolves_refl [simp]: "evolves P w w" by (simp add: evolves_def)

lemma evolves_trans: "evolves P w w1 \<Longrightarrow> evolves P w1 w2 \<Longrightarrow> evolves P w w2"
  unfolding evolves_def by (auto dest: prefix_order.trans)

interpretation calm_frame: step_frame calm
  by unfold_locales (simp, rule calm_trans)

lemma evolves_mono: "evolves P w w' \<Longrightarrow> (\<And>rq. P rq \<Longrightarrow> Q rq) \<Longrightarrow> evolves Q w w'"
  by (auto simp: evolves_def)

lemma calm_evolves: "calm w w' \<Longrightarrow> evolves P w w'"
  by (simp add: calm_def evolves_def buffers_ok_def)

lemma sticky_refl [simp]: "sticky w w" by (simp add: sticky_def)

lemma sticky_trans: "sticky w w1 \<Longrightarrow> sticky w1 w2 \<Longrightarrow> sticky w w2"
  by (simp add: sticky_def)

lemma calm_sticky: "calm w w' \<Longrightarrow> sticky w w'"
  by (simp add: calm_def sticky_def)

lemma wget_frame [simp]:
  "wget f (set_menu m h w) = wget f w" "wget f (put_device j d w) = wget f w" "wget f (on_wifi k w) = wget f w"
  by (simp_all add: set_menu_def put_device_def on_wifi_def wget_def)

text \<open>Updates of other fields can be ignored on both sides.\<close>

lemma calm_after [simp]:
  "calm w (on_lcd g v) = calm w v" "calm w (show_lines s1 s2 v) = calm w v" "calm w (set_current m v) = calm w v"
  "calm w (set_index i v) = calm w v" "calm w (set_menu m h v) = calm w v" "calm w (put_device j d v) = calm w v"
  "calm w (v\<lparr>w_gpio := gp\<rparr>) = calm w v" "calm w (v\<lparr>w_mallocs := n\<rparr>) = calm w v" "calm w (v\<lparr>w_nvs := nv\<rparr>) = calm w v"
  by (simp_all add: calm_def show_lines_def)
    (simp_all add: on_lcd_def set_current_def set_index_def set_menu_def put_device_def)

lemma calm_before [simp]:
  "calm (on_lcd g w) v = calm w v" "calm (show_lines s1 s2 w) v = calm w v" "calm (set_current m w) v = calm w v"
  "calm (set_index i w) v = calm w v" "calm (set_menu m h w) v = calm w v" "calm (put_device j d w) v = calm w v"
  "calm (w\<lparr>w_gpio := gp\<rparr>) v = calm w v" "calm (w\<lparr>w_mallocs := n\<rparr>) v = calm w v" "calm (w\<lparr>w_nvs := nv\<rparr>) v = calm w v"
  by (simp_all add: calm_def show_lines_def)
    (simp_all add: on_lcd_def set_current_def set_index_def set_menu_def put_device_def)

lemma calm_wset [simp]:
  assumes "f \<notin> fetch_flags"
  shows "calm w (wset f b v) = calm w v" "calm (wset f b w) v = calm w v"
  using assms by (auto simp: calm_def fetch_flags_def wset_def wget_def)

lemma calm_task [simp]: "calm w v \<Longrightarrow> calm w (task_do op v)"
  by (auto simp: calm_def) (simp_all add: task_do_def prefix_order.trans [OF _ prefixI])

lemma calm_wifi:
  assumes "\<And>s. wf_ap_rssi (g s) = wf_ap_rssi s"
  shows "calm w (on_wifi g v) = calm w v" "calm (on_wifi g w) v = calm w v"
  using assms by (simp_all add: calm_def) (simp_all add: on_wifi_def)

section \<open>Calm steps\<close>

lemma display_calm: "displayMenu i w = Some w' \<Longrightarrow> calm w w'"
proof -
  have "display_items i ks v = Some v' \<Longrightarrow> calm v v'" for ks v v'
    by (induction i ks v arbitrary: v' rule: display_items.induct) (auto simp: bind_eq_Some_conv split: if_splits)
  then show "displayMenu i w = Some w' \<Longrightarrow> calm w w'"
    unfolding displayMenu_def Let_def by fastforce
qed

lemma printCurrentIP_calm: "printCurrentIP w = Some w' \<Longrightarrow> calm w w'"
  by (auto simp: printCurrentIP_def Let_def split: option.splits if_splits)

lemma volver_calm: "volver w = Some w' \<Longrightarrow> calm w w'"
  by (auto simp: volver_def split: if_splits option.splits dest!: printCurrentIP_calm display_calm)

lemma deviceAction_calm: "deviceAction w = Some w' \<Longrightarrow> calm w w'"
  by (auto simp: deviceAction_def bind_eq_Some_conv Let_def split: if_splits)

lemma menu_action_calm: "menu_action f w = Some w' \<Longrightarrow> calm w w'"
  by (cases f)
    (auto simp: submenu1Fn_def submenu2Fn_def submenu3Fn_def dest!: volver_calm deviceAction_calm display_calm)

lemma button_flags [simp]: "BTN_UP_RELEASED \<notin> fetch_flags" "BTN_DOWN_RELEASED \<notin> fetch_flags" "BTN_ENTER_RELEASED \<notin> fetch_flags"
  by (simp_all add: fetch_flags_def)

lemma navigate_calm: "navigate_menu w = Some w' \<Longrightarrow> calm w w'"
proof -
  have up: "navigate_up v = Some v' \<Longrightarrow> calm v v'" for v v'
    by (auto simp: navigate_up_def Let_def split: if_splits dest!: display_calm)
  have down: "navigate_down v = Some v' \<Longrightarrow> calm v v'" for v v'
    by (auto simp: navigate_down_def Let_def split: if_splits dest!: display_calm)
  have enter: "navigate_enter v = Some v' \<Longrightarrow> calm v v'" for v v'
    by (auto simp: navigate_enter_def Let_def bind_eq_Some_conv split: if_splits option.splits
        dest!: display_calm volver_calm menu_action_calm)
  show "navigate_menu w = Some w' \<Longrightarrow> calm w w'"
    unfolding navigate_menu_def by (erule calm_frame.bind, erule up down)+ (erule enter)
qed

lemma check_buttons_fetch: "f \<in> fetch_flags \<Longrightarrow> bt_get f (check_buttons lvl p t s) = bt_get f s"
  by (auto simp: fetch_flags_def check_buttons_def Let_def check_button_frame)

lemma button_calm: "button_task_round lvl p t w = Some w' \<Longrightarrow> calm w w'"
proof -
  have c: "calm w (w\<lparr>w_btn := check_buttons lvl p t (w_btn w)\<rparr>)"
    by (simp add: calm_def wget_def check_buttons_fetch)
  show "button_task_round lvl p t w = Some w' \<Longrightarrow> calm w w'"
    by (auto simp: button_task_round_def Let_def split: if_splits dest!: navigate_calm intro: c calm_trans [OF c])
qed

lemma event_handler_calm: "event_handler e w = Some w' \<Longrightarrow> calm w w'"
  by (auto simp: event_handler_def esp_wifi_connect_def calm_wifi split: wifi_event.splits if_splits
      dest!: printCurrentIP_calm)

section \<open>What a response may change\<close>

definition texts_ok :: "world \<Rightarrow> bool" where
  "texts_ok w \<longleftrightarrow> length (w_url w) < URL_MAX_LEN \<and> length (w_urlSection w) < 80"

definition hears :: "world \<Rightarrow> world \<Rightarrow> bool" where
  "hears w w' \<longleftrightarrow> (texts_ok w \<longrightarrow> texts_ok w') \<and> w_linea w' = w_linea w \<and> w_rssi_str w' = w_rssi_str w \<and>
     w_currents w' = w_currents w \<and> sticky w w'"

lemma hears_refl [simp]: "hears w w" by (simp add: hears_def)

lemma hears_trans: "hears w w1 \<Longrightarrow> hears w1 w2 \<Longrightarrow> hears w w2"
  by (auto simp: hears_def intro: sticky_trans)

lemma hears_after [simp]:
  "hears w (show_lines s1 s2 v) = hears w v" "hears w (v\<lparr>w_response := r\<rparr>) = hears w v" "hears w (v\<lparr>w_mallocs := n\<rparr>) = hears w v"
  "hears w (v\<lparr>w_gpio := gp\<rparr>) = hears w v" "hears w (v\<lparr>w_nvs := nv\<rparr>) = hears w v" "hears w (v\<lparr>w_devices := ds\<rparr>) = hears w v"
  "hears w (v\<lparr>w_deviceCount := c\<rparr>) = hears w v" "hears w (v\<lparr>w_dev_gen := m\<rparr>) = hears w v"
  by (simp_all add: hears_def texts_ok_def sticky_def show_lines_def) (simp_all add: on_lcd_def)

lemma hears_put [simp]: "hears w (put_entry i d v) = hears w v"
  by (simp add: put_entry_def)

lemma hears_steps:
  "hears w v \<Longrightarrow> hears w (set_url u v)" "hears w v \<Longrightarrow> hears w (wset f True v)"
  "hears w v \<Longrightarrow> hears w (v\<lparr>w_urlSection := take 79 s\<rparr>)"
  by (auto simp: hears_def texts_ok_def sticky_def set_url_def snprintf_s_length URL_MAX_LEN_def split: option.split)
    (auto simp: wset_def)

lemma new_data_hears: "hears w v \<Longrightarrow> hears w (new_data r v)"
  by (auto simp: new_data_def dispatch_section_flag Let_def simp del: section_flag.simps split: option.split
      intro!: hears_steps)

lemma tail_hears: "hears w v \<Longrightarrow> hears w (on_finish_tail v)"
  by (auto simp: on_finish_tail_def Let_def intro!: hears_steps)

lemma load_device_hears: "load_device j i w = Some w' \<Longrightarrow> hears w w'"
  by (auto simp: load_device_def malloc_def Let_def split: prod.splits if_splits)

lemma load_devices_hears: "load_devices js i w = Some w' \<Longrightarrow> hears w w'"
  by (induction js i w arbitrary: w' rule: load_devices.induct)
    (auto simp: bind_eq_Some_conv split: if_splits dest: load_device_hears intro: hears_trans)

lemma devices_json_hears: "devices_json r w = Some (b, w') \<Longrightarrow> hears w w'"
proof -
  have l: "hears w v'" if "load_devices js i v = Some v'" "hears w v" for js i v v'
    using load_devices_hears [OF that(1)] that(2) by (rule hears_trans [rotated])
  show "devices_json r w = Some (b, w') \<Longrightarrow> hears w w'"
    by (auto simp: devices_json_def malloc_size_def malloc_def Let_def split: option.splits if_splits prod.splits
        intro!: hears_steps elim!: l)
qed

lemma client_event_hears:
  assumes "client_event_get_handler evt w = Some w'"
  shows "hears w w'"
proof (cases evt)
  case (HTTP_EVENT_ON_FINISH u)
  have u: "hears w (set_url u w)" by (simp add: hears_steps)
  have d: "hears w w2" if "devices_json r (set_url u w) = Some (b, w2)" for r b w2
    by (rule hears_trans [OF u devices_json_hears [OF that]])
  from assms HTTP_EVENT_ON_FINISH show ?thesis
    by (auto simp: client_event_get_handler_def on_finish_def Let_def split: option.splits if_splits
        intro: tail_hears new_data_hears u dest: d)
qed (use assms in \<open>auto simp: client_event_get_handler_def on_data_def malloc_def
      split: option.splits if_splits intro!: hears_steps\<close>)

lemma handle_events_hears: "handle_events evts w = Some w' \<Longrightarrow> hears w w'"
  by (induction evts w arbitrary: w' rule: handle_events.induct)
    (auto simp: bind_eq_Some_conv dest: client_event_hears intro: hears_trans)

section \<open>What a request may change\<close>

lemma request_evolves:
  assumes "esp_http_client_perform rq w = Some (err, st, w')"
  shows "evolves (\<lambda>q. q = rq) w w'" "sticky w w'"
proof -
  let ?w = "w\<lparr>w_requests := w_requests w @ [rq]\<rparr>"
  have h: "handle_events (rp_events (w_replies w (length (w_requests w)))) ?w = Some w'"
    using assms by (auto simp: esp_http_client_perform_def Let_def)
  note f = handle_events_frame [OF h] handle_events_hears [OF h]
  then show "evolves (\<lambda>q. q = rq) w w'"
    by (auto simp: client_frame_def hears_def evolves_def buffers_ok_def texts_ok_def)
  have "sticky w ?w" by (simp add: sticky_def)
  then show "sticky w w'" using f(2) by (auto simp: hears_def intro: sticky_trans)
qed

lemma response_evolves: "client_event_get_handler evt w = Some w' \<Longrightarrow> evolves P w w' \<and> sticky w w'"
  using client_event_frame [of evt w w'] client_event_hears [of evt w w']
  by (auto simp: client_frame_def hears_def evolves_def buffers_ok_def texts_ok_def)

lemma url_evolves: "evolves P w (url_printf s w)" "sticky w (url_printf s w)"
  by (simp_all add: evolves_def buffers_ok_def sticky_def url_printf_def snprintf_s_length URL_MAX_LEN_def)

lemma perform_evolves:
  assumes "perform m (w_url (url_printf s w)) body (url_printf s w) = Some w'"
    and "P \<lparr>rq_method = m, rq_url = snprintf_s URL_MAX_LEN s, rq_body = body\<rparr>"
  shows "evolves P w w'" "sticky w w'"
proof -
  obtain err st where "esp_http_client_perform \<lparr>rq_method = m, rq_url = snprintf_s URL_MAX_LEN s, rq_body = body\<rparr> (url_printf s w) =
      Some (err, st, w')"
    using assms(1) by (auto simp: perform_def url_printf_def)
  note r = request_evolves [OF this]
  show "evolves P w w'"
    by (rule evolves_trans [OF url_evolves(1) evolves_mono [OF r(1)]]) (use assms(2) in simp)
  show "sticky w w'" by (rule sticky_trans [OF url_evolves(2) r(2)])
qed

text \<open>The requests of the running firmware, for the base addresses \<open>d\<close> and \<open>e\<close>.\<close>

definition known_request :: "string \<Rightarrow> string \<Rightarrow> request \<Rightarrow> bool" where
  "known_request d e rq \<longleftrightarrow>
     rq_url rq = snprintf_s URL_MAX_LEN (e @ ''newData.json'') \<and> rq_method rq \<in> {HTTP_GET, HTTP_PUT} \<or>
     rq_url rq = snprintf_s URL_MAX_LEN (d @ ''info.json'') \<and> rq_method rq \<in> {HTTP_GET, HTTP_PATCH} \<or>
     rq_url rq = snprintf_s URL_MAX_LEN (d @ ''devices.json'') \<and> rq_method rq = HTTP_GET \<or>
     (\<exists>i. rq_url rq = snprintf_s URL_MAX_LEN (d @ ''devices/'' @ dec_int i @ ''.json'') \<and> rq_method rq = HTTP_PATCH) \<or>
     (\<exists>i. rq_url rq = snprintf_s URL_MAX_LEN (d @ ''devices/'' @ dec_int i @ ''/currentConsumed.json'') \<and> rq_method rq = HTTP_PUT)"

definition acts :: "world \<Rightarrow> world \<Rightarrow> bool" where
  "acts w w' \<longleftrightarrow> evolves (known_request (w_disp_url w) (w_events_url w)) w w'"

lemma acts_refl [simp]: "acts w w" by (simp add: acts_def)

lemma acts_trans: "acts w w1 \<Longrightarrow> acts w1 w2 \<Longrightarrow> acts w w2"
proof -
  assume a: "acts w w1" "acts w1 w2"
  then have "w_disp_url w1 = w_disp_url w" "w_events_url w1 = w_events_url w" by (simp_all add: acts_def evolves_def)
  with a show "acts w w2" unfolding acts_def by (auto intro: evolves_trans)
qed


lemma calm_acts: "calm w w' \<Longrightarrow> acts w w'"
  by (simp add: acts_def calm_evolves)

lemma acts_frame [simp]:
  "acts w (wset f b v) = acts w v" "acts w (on_lcd g v) = acts w v" "acts w (v\<lparr>w_nvs := nv\<rparr>) = acts w v"
  "acts w (v\<lparr>w_gpio := gp\<rparr>) = acts w v" "acts w (v\<lparr>w_devices := ds\<rparr>) = acts w v" "acts w (v\<lparr>w_deviceCount := c\<rparr>) = acts w v"
  "acts w (v\<lparr>w_freed := fr\<rparr>) = acts w v"
  by (simp_all add: acts_def evolves_def buffers_ok_def) (simp_all add: wset_def on_lcd_def)

lemma acts_before [simp]:
  "acts (wset f b w) v = acts w v" "acts (on_lcd g w) v = acts w v"
  by (simp_all add: acts_def evolves_def buffers_ok_def) (simp_all add: wset_def on_lcd_def)

lemma acts_task [simp]: "acts w v \<Longrightarrow> acts w (task_do op v)"
  by (erule acts_trans) (rule calm_acts, simp)

lemma signal_evolves: "evolves P w (get_wifi_signal_strength w)" "sticky w (get_wifi_signal_strength w)"
proof -
  have "length (dec_int r) < 10" if "- 128 \<le> r" "r < 128" for r
  proof -
    have "length (dec_nat (nat \<bar>r\<bar>)) \<le> 3" by (rule dec_nat_length) (use that in \<open>simp_all add: nat_less_iff\<close>)
    then show ?thesis by (auto simp: dec_int_def)
  qed
  then show "evolves P w (get_wifi_signal_strength w)"
    by (auto simp: get_wifi_signal_strength_def evolves_def buffers_ok_def rssi_ok_def split: option.split)
  show "sticky w (get_wifi_signal_strength w)"
    by (simp add: get_wifi_signal_strength_def sticky_def split: option.split)
qed


section \<open>The requests\<close>

lemma alive_evolves:
  assumes "send_alive_package w = Some w'" "\<And>b. P \<lparr>rq_method = HTTP_PATCH, rq_url = snprintf_s URL_MAX_LEN (w_disp_url w @ ''info.json''), rq_body = b\<rparr>"
  shows "evolves P w w'" "sticky w w'"
proof -
  let ?w = "get_wifi_signal_strength w"
  have d: "w_disp_url ?w = w_disp_url w" by simp
  have "?w = w' \<or> (\<exists>b. perform HTTP_PATCH (w_url (url_printf (w_disp_url w @ ''info.json'') ?w)) b
      (url_printf (w_disp_url w @ ''info.json'') ?w) = Some w')"
    using assms(1) unfolding send_alive_package_def Let_def d by (auto simp: perform_http_patch_def split: option.splits)
  then have "evolves P ?w w' \<and> sticky ?w w'" using perform_evolves assms(2) by (metis evolves_refl sticky_refl)
  then show "evolves P w w'" "sticky w w'" using evolves_trans [OF signal_evolves(1)] sticky_trans [OF signal_evolves(2)] by blast+
qed

lemma status_evolves:
  assumes "firebase_update_dispositivo_device_status i on w = Some w'"
    and "\<And>b. P \<lparr>rq_method = HTTP_PATCH, rq_url = snprintf_s URL_MAX_LEN (w_disp_url w @ ''devices/'' @ dec_int i @ ''.json''), rq_body = b\<rparr>"
  shows "evolves P w w'" "sticky w w'"
proof -
  have "w = w' \<or> (\<exists>b. perform HTTP_PATCH (w_url (url_printf (w_disp_url w @ ''devices/'' @ dec_int i @ ''.json'') w)) b
      (url_printf (w_disp_url w @ ''devices/'' @ dec_int i @ ''.json'') w) = Some w')"
    using assms(1)
    by (auto simp: firebase_update_dispositivo_device_status_def perform_http_patch_def Let_def split: option.splits)
  then have "evolves P w w' \<and> sticky w w'" using perform_evolves assms(2) by (metis evolves_refl sticky_refl)
  then show "evolves P w w'" "sticky w w'" by blast+
qed


lemma get_new_data_sticky: "firebase_get_new_data w = Some w' \<Longrightarrow> sticky w w'"
  unfolding firebase_get_new_data_def Let_def by (erule perform_evolves) (rule TrueI)


section \<open>The rounds of the processing task\<close>






section \<open>The running firmware\<close>

fun suspended :: "task \<Rightarrow> task_op list \<Rightarrow> bool" where
  "suspended t [] = False"
| "suspended t (op # ops) = (if Resume t \<in> set ops then suspended t ops else op = Suspend t \<or> suspended t ops)"

text \<open>What the calls to the scheduler made so far allow to run.\<close>

definition running :: "task \<Rightarrow> world \<Rightarrow> bool" where
  "running t w \<longleftrightarrow> Create t \<in> set (w_tasks w) \<and> DeleteTask t \<notin> set (w_tasks w) \<and> \<not> suspended t (w_tasks w)"

text \<open>
  One step is one round of a task that may run, an event of a response at any moment between the rounds (the
  handler runs in the task that waits for the response, while the others go on), an event of the WiFi driver,
  a request to the web server, or a change of what the surroundings report.
\<close>

inductive firmware_step :: "world \<Rightarrow> world \<Rightarrow> bool" where
  buttons: "running ButtonTask w \<Longrightarrow> button_task_round lvl p ticks w = Some w' \<Longrightarrow> firmware_step w w'"
| poll: "running DataFetchTask w \<Longrightarrow> wf_connected_bit (w_wifi w) \<Longrightarrow> check_new_data_round w = Some w' \<Longrightarrow> firmware_step w w'"
| alive: "running AliveTask w \<Longrightarrow> alive_package_round w = Some w' \<Longrightarrow> firmware_step w w'"
| processing: "running DataProcessTask w \<Longrightarrow> data_processing_round junk w = Some w' \<Longrightarrow> firmware_step w w'"
| sensor: "running ACSReadTask w \<Longrightarrow> read_acs712_round z readings w = Some w' \<Longrightarrow> firmware_step w w'"
| update: "Create FirebaseUpdateTask \<in> set (w_tasks w) \<Longrightarrow> firebase_update_task w = Some w' \<Longrightarrow> firmware_step w w'"
| response: "client_event_get_handler evt w = Some w' \<Longrightarrow> firmware_step w w'"
| wifi: "event_handler ev w = Some w' \<Longrightarrow> firmware_step w w'"
| web: "start_webserver use_ssl True mem = Some hs \<Longrightarrow> httpd_uri fs hs req w = Some (err, ops, w') \<Longrightarrow> firmware_step w w'"
| outside: "rssi_ok r \<Longrightarrow> firmware_step w (w\<lparr>w_clock := c, w_wifi := (w_wifi w)\<lparr>wf_ap_rssi := r, wf_mode := m\<rparr>\<rparr>)"

section \<open>The web server\<close>

definition serves :: "world \<Rightarrow> world \<Rightarrow> bool" where
  "serves w w' \<longleftrightarrow> (\<forall>P. evolves P w w') \<and> sticky w w'"

lemma serves_calm: "calm w v \<Longrightarrow> serves w v"
  by (simp add: serves_def calm_evolves calm_sticky)

lemma serves_linea: "serves w v \<Longrightarrow> length s < 16 \<Longrightarrow> serves w (v\<lparr>w_linea := strlcat_s 16 s t\<rparr>)"
  using strlcat_s_length [of s 16 t]
  by (simp add: serves_def evolves_def sticky_def buffers_ok_def) (simp add: wget_def)

lemma serves_send: "send_file t b u = Some (er, rs, v) \<Longrightarrow> serves w u \<Longrightarrow> serves w v"
  by (auto simp: send_file_def malloc_def serves_def evolves_def sticky_def buffers_ok_def split: if_splits)

lemma run_handler_serves: "run_handler fs h req w = Some (err, ops, w') \<Longrightarrow> serves w w'"
proof -
  have sh: "serves w (show_lines s1 s2 w)" for s1 s2 by (simp add: serves_calm)
  show "run_handler fs h req w = Some (err, ops, w') \<Longrightarrow> serves w w'"
  proof (cases h)
    case Index_get
    then show "run_handler fs h req w = Some (err, ops, w') \<Longrightarrow> serves w w'"
      by (auto simp: index_get_handler_def Let_def split: option.splits intro: sh serves_send)
  next
    case File_get
    let ?l = "\<lambda>f. strlcat_s 16 (strlcpy_s 16 ''FILE: '') f"
    have l: "serves w ((show_lines s1 s2 w)\<lparr>w_linea := ?l f\<rparr>)" for s1 s2 f
      by (rule serves_linea) (simp_all add: serves_calm strlcpy_s_def)
    assume "run_handler fs h req w = Some (err, ops, w')"
    then show ?thesis
      by (auto simp: File_get file_get_handler_def Let_def split: option.splits prod.splits if_splits
          intro: serves_calm l serves_send)
  next
    case Api_get
    then show "run_handler fs h req w = Some (err, ops, w') \<Longrightarrow> serves w w'"
      by (auto simp: api_get_handler_def Let_def split: if_splits intro: sh)
  next
    case Server_post
    then show "run_handler fs h req w = Some (err, ops, w') \<Longrightarrow> serves w w'"
      by (auto simp: server_post_handler_def Let_def split: prod.splits if_splits intro: serves_calm)
  qed
qed

lemma web_serves: "httpd_uri fs hs req w = Some (err, ops, w') \<Longrightarrow> serves w w'"
  by (auto simp: httpd_uri_def split: option.splits prod.splits httpd_err_code.splits
      dest!: run_handler_serves intro: serves_calm)

section \<open>Every step\<close>

lemma sensor_evolves: "read_acs712_round z readings w = Some w' \<Longrightarrow> evolves P w w' \<and> sticky w w'"
proof -
  have one: "read_device_current zo rs i v = Some v' \<Longrightarrow> evolves P v v' \<and> sticky v v'" for zo rs i v v'
    by (auto simp: read_device_current_def bind_eq_Some_conv evolves_def buffers_ok_def sticky_def split: if_splits)
      (auto simp: wset_def wget_def)
  have "read_currents z readings ks v = Some v' \<Longrightarrow> evolves P v v' \<and> sticky v v'" for ks v v'
    by (induction z readings ks v arbitrary: v' rule: read_currents.induct)
      (simp_all add: bind_eq_Some_conv, blast dest: one intro: evolves_trans sticky_trans)
  then show "read_acs712_round z readings w = Some w' \<Longrightarrow> evolves P w w' \<and> sticky w w'"
    by (simp add: read_acs712_round_def)
qed



text \<open>
  Without the processing task, pending fetches stay pending, and then only reports are sent; a poll is
  undefined.
\<close>

definition stuck :: "world \<Rightarrow> bool" where
  "stuck w \<longleftrightarrow> Create DataProcessTask \<in> set (w_tasks w) \<and> DeleteTask DataProcessTask \<in> set (w_tasks w) \<and> (\<exists>f\<in>fetch_flags. wget f w)"

definition reports_only :: "world \<Rightarrow> world \<Rightarrow> bool" where
  "reports_only w w' \<longleftrightarrow> evolves (\<lambda>rq. rq_method rq = HTTP_PATCH) w w' \<and> sticky w w'"

lemma reports_only_trans: "reports_only w w1 \<Longrightarrow> reports_only w1 w2 \<Longrightarrow> reports_only w w2"
  by (auto simp: reports_only_def intro: evolves_trans sticky_trans)

lemma calm_reports: "calm w w' \<Longrightarrow> reports_only w w'"
  by (simp add: reports_only_def calm_evolves calm_sticky)

lemma stuck_poll: "stuck w \<Longrightarrow> check_new_data_round w = None"
  by (auto simp: stuck_def check_new_data_round_def delete_process_task_def fetch_flags_def)

lemma stuck_step: "firmware_step w w' \<Longrightarrow> stuck w \<Longrightarrow> reports_only w w'"
proof (induction rule: firmware_step.induct)
  case (poll w w')
  then show ?case using stuck_poll by simp
next
  case (alive w w')
  then show ?case
    unfolding alive_package_round_def reports_only_def by (auto intro: alive_evolves)
next
  case (update w w')
  then show ?case unfolding firebase_update_task_def reports_only_def
    by (auto simp: bind_eq_Some_conv intro: status_evolves)
next
  case (processing w junk w')
  then show ?case by (simp add: running_def stuck_def)
next
  case (outside r w c m)
  then show ?case by (simp add: reports_only_def evolves_def sticky_def buffers_ok_def) (simp add: wget_def)
next
  case (sensor w z readings w')
  then show ?case using sensor_evolves by (simp add: reports_only_def)
next
  case (response evt w w')
  then show ?case using response_evolves by (simp add: reports_only_def)
next
  case (web use_ssl mem hs fs req w err ops w')
  then show ?case using web_serves by (simp add: reports_only_def serves_def)
qed (auto dest: calm_reports button_calm event_handler_calm)

lemma stuck_kept: "reports_only w w' \<Longrightarrow> stuck w \<Longrightarrow> stuck w'"
  by (auto simp: reports_only_def evolves_def sticky_def stuck_def dest: set_mono_prefix)

lemma stuck_steps:
  assumes "firmware_step\<^sup>*\<^sup>* w w'" "stuck w"
  shows "reports_only w w' \<and> stuck w'"
  using assms
proof (induction rule: rtranclp_induct)
  case base
  then show ?case by (simp add: calm_reports)
next
  case (step w1 w2)
  then show ?case using stuck_step [of w1 w2] stuck_kept reports_only_trans by blast
qed

section \<open>Steps that are always defined\<close>

text \<open>With enough memory the event handler reads and writes nothing that is not there, whatever the event.\<close>

lemma load_device_defined:
  "\<forall>n. \<not> w_malloc_fails w n \<Longrightarrow> \<exists>w'. load_device j i w = Some w' \<and> w_malloc_fails w' = w_malloc_fails w"
  by (auto simp: load_device_def malloc_def put_entry_def Let_def split: prod.split)

lemma load_devices_defined: "\<forall>n. \<not> w_malloc_fails w n \<Longrightarrow> load_devices js i w \<noteq> None"
proof (induction js arbitrary: i w)
  case (Cons j js)
  obtain w1 where "load_device j i w = Some w1" "w_malloc_fails w1 = w_malloc_fails w"
    using load_device_defined Cons.prems by blast
  then show ?case using Cons by simp
qed simp

lemma client_event_defined:
  assumes "\<forall>n. \<not> w_malloc_fails w n"
  shows "client_event_get_handler evt w \<noteq> None"
proof (cases evt)
  case (HTTP_EVENT_ON_FINISH u)
  have "devices_json r (set_url u w) \<noteq> None" for r
    using assms load_devices_defined
    by (auto simp: devices_json_def malloc_size_def malloc_def set_url_def Let_def split: option.split)
  then show ?thesis
    by (auto simp: HTTP_EVENT_ON_FINISH client_event_get_handler_def on_finish_def Let_def split: option.split)
qed (use assms in \<open>auto simp: client_event_get_handler_def on_data_def malloc_def split: option.split\<close>)

lemma handle_events_defined:
  "\<forall>n. \<not> w_malloc_fails w n \<Longrightarrow> \<exists>w'. handle_events evts w = Some w'"
proof (induction evts arbitrary: w)
  case (Cons evt evts)
  obtain w1 where "client_event_get_handler evt w = Some w1" using client_event_defined [OF Cons.prems] by blast
  moreover from client_event_frame [OF this] have "w_malloc_fails w1 = w_malloc_fails w" by (simp add: client_frame_def)
  ultimately show ?case using Cons by simp
qed simp

lemma perform_defined: "\<forall>n. \<not> w_malloc_fails w n \<Longrightarrow> perform m u body w \<noteq> None"
  using handle_events_defined [of "w\<lparr>w_requests := w_requests w @ [\<lparr>rq_method = m, rq_url = u, rq_body = body\<rparr>]\<rparr>"]
  by (fastforce simp: perform_def esp_http_client_perform_def Let_def)

lemma reports_defined:
  assumes "\<forall>n. \<not> w_malloc_fails w n"
  shows "send_alive_package w \<noteq> None" "firebase_get_new_data w \<noteq> None"
proof -
  have g: "w_malloc_fails (get_wifi_signal_strength w) = w_malloc_fails w"
    by (simp add: get_wifi_signal_strength_def split: option.split)
  have "perform m u body (url_printf s v) \<noteq> None" if "w_malloc_fails v = w_malloc_fails w" for m u body s v
    using assms that by (intro perform_defined) (simp add: url_printf_def)
  then show "send_alive_package w \<noteq> None" "firebase_get_new_data w \<noteq> None"
    using g by (auto simp: send_alive_package_def firebase_get_new_data_def perform_http_patch_def Let_def split: option.split)
qed

section \<open>Properties of the running firmware\<close>


text \<open>
  C18. The race at start is final: once the processing task is deleted while a fetch is pending, then in every
  state that the firmware can still reach the fetch is pending, no later request is a poll or fetches or
  clears anything (they are all status reports), the processing task never runs, and the next round of the polling
  task is undefined: it passes the handle of the deleted task to \<open>vTaskDelete\<close> again.
\<close>

theorem race_is_final:
  assumes "firmware_step\<^sup>*\<^sup>* w w'" "wget FETCHNEWDEVICESDATA w"
    and "Create DataProcessTask \<in> set (w_tasks w)" "DeleteTask DataProcessTask \<in> set (w_tasks w)"
  shows "wget FETCHNEWDEVICESDATA w' \<and> \<not> running DataProcessTask w' \<and>
     (\<exists>rs. w_requests w' = w_requests w @ rs \<and> (\<forall>rq\<in>set rs. rq_method rq = HTTP_PATCH)) \<and>
     check_new_data_round w' = None"
proof -
  have "stuck w" using assms(2-4) by (auto simp: stuck_def fetch_flags_def)
  note s = stuck_steps [OF assms(1) this]
  then have "wget FETCHNEWDEVICESDATA w'"
    using assms(2) by (simp add: reports_only_def sticky_def fetch_flags_def)
  then show ?thesis using s stuck_poll by (auto simp: reports_only_def evolves_def stuck_def running_def)
qed


theorem race_is_final_witness:
  "\<exists>w'. firmware_step (wset FETCHNEWDEVICESDATA True (on_wifi (\<lambda>s. s\<lparr>wf_connected_bit := True\<rparr>) (boot_world
       \<lparr>w_tasks := [Create AliveTask, Create DataProcessTask, DeleteTask DataProcessTask]\<rparr>))) w' \<and>
     wget FETCHNEWDEVICESDATA w' \<and> \<not> running DataProcessTask w' \<and> check_new_data_round w' = None"
proof -
  let ?w = "wset FETCHNEWDEVICESDATA True (on_wifi (\<lambda>s. s\<lparr>wf_connected_bit := True\<rparr>) (boot_world
       \<lparr>w_tasks := [Create AliveTask, Create DataProcessTask, DeleteTask DataProcessTask]\<rparr>))"
  have t: "w_tasks ?w = [Create AliveTask, Create DataProcessTask, DeleteTask DataProcessTask]" "\<forall>n. \<not> w_malloc_fails ?w n"
    by (simp_all add: on_wifi_def wset_def boot_world_def)
  obtain w' where "alive_package_round ?w = Some w'"
    using reports_defined(1) [OF t(2)] by (auto simp: alive_package_round_def)
  then have "firmware_step ?w w'" by (rule firmware_step.alive [rotated]) (simp add: running_def on_wifi_def)
  from race_is_final [OF r_into_rtranclp [of firmware_step, OF this]] this
  show ?thesis by (auto simp: on_wifi_def)
qed

end
