(* ===== verification/FlagRaces.thy ===== *)
theory FlagRaces
  imports System
begin

text \<open>
  The event flags and preemption. The tasks of \<open>main/main.cpp\<close> share the three flag bytes of \<open>main/globals.h\<close>
  without a lock, and the flags are bit fields (\<open>main/myByte.h\<close>): an assignment to one of them loads its byte and
  stores it back. First, interleavings of these loads and stores; then the flags that a round of each task
  assigns to, and which tasks can lose an assignment of another.
\<close>

section \<open>Assignments to bit fields\<close>

text \<open>
  A field of \<open>myByte\<close> is no memory location of its own: an assignment to it loads the byte, changes the bit in a
  register and stores the byte. Loads and stores of one byte are atomic, the pair is not.
\<close>

datatype flag_access = Load_byte flag | Store_byte flag bool

type_synonym registers = "task \<Rightarrow> myByte"

fun access :: "task \<times> flag_access \<Rightarrow> flags \<times> registers \<Rightarrow> flags \<times> registers" where
  "access (t, Load_byte f) (s, r) = (s, r(t := flag_byte (fst (flag_pos f)) s))"
| "access (t, Store_byte f v) (s, r) = (flag_byte_put (fst (flag_pos f)) (bits_put (snd (flag_pos f)) v (r t)) s, r)"

definition run_accesses :: "(task \<times> flag_access) list \<Rightarrow> flags \<times> registers \<Rightarrow> flags \<times> registers" where
  "run_accesses tr st = fold access tr st"

definition accesses :: "task \<Rightarrow> (flag \<times> bool) list \<Rightarrow> (task \<times> flag_access) list" where
  "accesses t as = concat (map (\<lambda>(f, v). [(t, Load_byte f), (t, Store_byte f v)]) as)"

definition assign :: "(flag \<times> bool) list \<Rightarrow> flags \<Rightarrow> flags" where
  "assign as s = fold (\<lambda>(f, v). flag_set f v) as s"

definition byte_of :: "flag \<Rightarrow> nat" where
  "byte_of f = fst (flag_pos f)"

section \<open>Undisturbed assignments\<close>

lemma run_accesses_simps [simp]:
  "run_accesses [] st = st" "run_accesses (a # tr) st = run_accesses tr (access a st)"
  by (simp_all add: run_accesses_def)

lemma accesses_simps [simp]:
  "accesses t [] = []" "accesses t ((f, v) # as) = (t, Load_byte f) # (t, Store_byte f v) # accesses t as"
  by (simp_all add: accesses_def)

lemma assign_simps [simp]: "assign [] s = s" "assign ((f, v) # as) s = assign as (flag_set f v s)"
  by (simp_all add: assign_def)

lemma run_alone: "fst (run_accesses (accesses t as) (s, r)) = assign as s"
  by (induction as arbitrary: s r rule: list.induct) (auto simp: flag_set_def split: prod.split)

lemma byte_of_less: "byte_of f < 3"
  using flag_pos_bounds [of f] by (cases "flag_pos f") (simp add: byte_of_def)

lemma flags_byte_ext: "(\<And>b. b < 3 \<Longrightarrow> flag_byte b s = flag_byte b s') \<Longrightarrow> s = s'"
proof -
  assume a: "\<And>b. b < 3 \<Longrightarrow> flag_byte b s = flag_byte b s'"
  from a [of 0] a [of 1] a [of 2] show "s = s'" by (simp add: flag_byte_def)
qed

lemma flag_byte_assign: "b < 3 \<Longrightarrow> b \<notin> byte_of ` fst ` set as \<Longrightarrow> flag_byte b (assign as s) = flag_byte b s"
proof (induction as arbitrary: s)
  case (Cons a as)
  obtain f v where a: "a = (f, v)" by fastforce
  have "flag_byte b (flag_set f v s) = flag_byte b s"
    using Cons.prems flag_byte_put_other [of "byte_of f" b] byte_of_less [of f]
    by (simp add: a flag_set_def byte_of_def split: prod.split) auto
  then show ?case using Cons by (simp add: a)
qed simp

lemma assign_byte_cong:
  "b < 3 \<Longrightarrow> flag_byte b s = flag_byte b s' \<Longrightarrow> flag_byte b (assign as s) = flag_byte b (assign as s')"
proof (induction as arbitrary: s s')
  case (Cons a as)
  obtain f v where a: "a = (f, v)" by fastforce
  have "flag_byte b (flag_set f v s) = flag_byte b (flag_set f v s')"
    using Cons.prems flag_byte_put_other [of "byte_of f" b] byte_of_less [of f]
    by (cases "byte_of f = b") (auto simp: flag_set_def byte_of_def flag_byte_put_same split: prod.split)
  then show ?case using Cons.IH [OF Cons.prems(1), of "flag_set f v s" "flag_set f v s'"] by (simp add: a)
qed simp

section \<open>Interleaved assignments\<close>

text \<open>The bytes in \<open>B\<close> and the register of \<open>t\<close> are the same in both states.\<close>

definition agree :: "nat set \<Rightarrow> task \<Rightarrow> flags \<times> registers \<Rightarrow> flags \<times> registers \<Rightarrow> bool" where
  "agree B t st st' \<longleftrightarrow> (\<forall>b\<in>B. b < 3 \<longrightarrow> flag_byte b (fst st) = flag_byte b (fst st')) \<and> snd st t = snd st' t"

fun touched :: "flag_access \<Rightarrow> nat" where
  "touched (Load_byte f) = byte_of f"
| "touched (Store_byte f v) = byte_of f"

lemma agree_own: "agree B t st st' \<Longrightarrow> touched a \<in> B \<Longrightarrow> agree B t (access (t, a) st) (access (t, a) st')"
proof (cases st; cases st'; cases a)
  fix s r s' r' f v
  assume g: "agree B t st st'" and st: "st = (s, r)" "st' = (s', r')" and a: "a = Store_byte f v"
  show "agree B t (access (t, a) st) (access (t, a) st')"
    unfolding agree_def
  proof (intro conjI ballI impI)
    fix b assume b: "b \<in> B" "b < 3"
    show "flag_byte b (fst (access (t, a) st)) = flag_byte b (fst (access (t, a) st'))"
      using g b byte_of_less [of f] flag_byte_put_other [of "byte_of f" b]
      by (cases "byte_of f = b") (auto simp: a st agree_def byte_of_def flag_byte_put_same)
  qed (use g in \<open>simp add: a st agree_def\<close>)
qed (auto simp: agree_def byte_of_def byte_of_less [unfolded byte_of_def])

lemma agree_other: "agree B t st st' \<Longrightarrow> touched a \<notin> B \<Longrightarrow> u \<noteq> t \<Longrightarrow> agree B t (access (u, a) st) st'"
proof (cases st; cases a)
  fix s r f v
  assume g: "agree B t st st'" "touched a \<notin> B" and st: "st = (s, r)" and a: "a = Store_byte f v"
  have "flag_byte b (flag_byte_put (byte_of f) m s) = flag_byte b s" if "b \<in> B" "b < 3" for b m
    using g(2) that byte_of_less [of f] a by (intro flag_byte_put_other) auto
  then show "agree B t (access (u, a) st) st'" using g(1) by (simp add: agree_def st a byte_of_def)
qed (auto simp: agree_def)

lemma agree_run:
  "agree B t st st' \<Longrightarrow> \<forall>x\<in>set tr. fst x = t \<longleftrightarrow> touched (snd x) \<in> B \<Longrightarrow>
   agree B t (run_accesses tr st) (run_accesses (filter (\<lambda>x. fst x = t) tr) st')"
proof (induction tr arbitrary: st st')
  case (Cons x tr)
  obtain u a where x: "x = (u, a)" by fastforce
  show ?case
  proof (cases "u = t")
    case True
    then show ?thesis using Cons.IH [of "access (t, a) st" "access (t, a) st'"] Cons.prems agree_own by (simp add: x)
  next
    case False
    then show ?thesis using Cons.IH [of "access (u, a) st" st'] Cons.prems agree_other by (simp add: x)
  qed
qed simp

lemma accesses_touch: "x \<in> set (accesses t as) \<Longrightarrow> fst x = t \<and> touched (snd x) \<in> byte_of ` fst ` set as"
  by (induction as) auto

lemma filter_accesses [simp]:
  "filter (\<lambda>x. fst x = t) (accesses t as) = accesses t as" "t \<noteq> u \<Longrightarrow> filter (\<lambda>x. fst x = t) (accesses u as) = []"
  by (induction as) auto

text \<open>Tasks that assign to different bytes do not disturb each other.\<close>

lemma different_bytes_isolated:
  assumes "t \<noteq> u" "byte_of ` fst ` set as \<inter> byte_of ` fst ` set bs = {}"
    and "tr \<in> shuffles (accesses t as) (accesses u bs)"
  shows "fst (run_accesses tr (s, r)) = assign bs (assign as s)"
proof (rule flags_byte_ext)
  fix b :: nat assume b: "b < 3"
  let ?T = "byte_of ` fst ` set as"
  have tr: "set tr = set (accesses t as) \<union> set (accesses u bs)" using set_shuffles assms(3) by metis
  have ft: "filter (\<lambda>x. fst x = t) tr = accesses t as"
    using assms(1,3) filter_shuffles [of "\<lambda>x. fst x = t" "accesses t as" "accesses u bs"] by fastforce
  have fu: "filter (\<lambda>x. fst x = u) tr = accesses u bs"
    using assms(1,3) filter_shuffles [of "\<lambda>x. fst x = u" "accesses t as" "accesses u bs"] by fastforce
  have own: "\<forall>x\<in>set tr. fst x = t \<longleftrightarrow> touched (snd x) \<in> ?T" "\<forall>x\<in>set tr. fst x = u \<longleftrightarrow> touched (snd x) \<in> - ?T"
    unfolding tr using assms(1,2) accesses_touch by fastforce+
  have "agree ?T t (run_accesses tr (s, r)) (run_accesses (accesses t as) (s, r))"
    using agree_run [OF _ own(1), of "(s, r)" "(s, r)"] by (simp add: ft agree_def)
  moreover have "agree (- ?T) u (run_accesses tr (s, r)) (run_accesses (accesses u bs) (s, r))"
    using agree_run [OF _ own(2), of "(s, r)" "(s, r)"] by (simp add: fu agree_def)
  ultimately have f: "b \<in> ?T \<Longrightarrow> flag_byte b (fst (run_accesses tr (s, r))) = flag_byte b (assign as s)"
    "b \<notin> ?T \<Longrightarrow> flag_byte b (fst (run_accesses tr (s, r))) = flag_byte b (assign bs s)"
    using b unfolding agree_def run_alone by blast+
  show "flag_byte b (fst (run_accesses tr (s, r))) = flag_byte b (assign bs (assign as s))"
  proof (cases "b \<in> ?T")
    case True
    then have "b \<notin> byte_of ` fst ` set bs" using assms(2) by blast
    then show ?thesis using f(1) [OF True] b by (simp add: flag_byte_assign)
  next
    case False
    then show ?thesis
      using f(2) [OF False] assign_byte_cong [OF b flag_byte_assign [OF b False, of s], of bs] by simp
  qed
qed

text \<open>Two flags of one byte: the load of one task before the stores of the other undoes the other's assignment.\<close>

definition lost_trace :: "task \<Rightarrow> flag \<Rightarrow> bool \<Rightarrow> task \<Rightarrow> flag \<Rightarrow> bool \<Rightarrow> (task \<times> flag_access) list" where
  "lost_trace t f v u g w = [(t, Load_byte f), (u, Load_byte g), (u, Store_byte g w), (t, Store_byte f v)]"

lemma lost_update:
  assumes "t \<noteq> u" "byte_of f = byte_of g"
  shows "lost_trace t f v u g w \<in> shuffles (accesses t [(f, v)]) (accesses u [(g, w)])"
    and "fst (run_accesses (lost_trace t f v u g w) (s, r)) = assign [(f, v)] s"
proof -
  show "lost_trace t f v u g w \<in> shuffles (accesses t [(f, v)]) (accesses u [(g, w)])"
    using assms(1) by (simp add: lost_trace_def)
  have "flag_byte_put b m (flag_byte_put b m' s) = flag_byte_put b m s" for b m m'
    by (simp add: flag_byte_put_def)
  then show "fst (run_accesses (lost_trace t f v u g w) (s, r)) = assign [(f, v)] s"
    using assms(1,2) by (cases "flag_pos f") (simp add: lost_trace_def flag_set_def byte_of_def)
qed

section \<open>The flags of each task\<close>

text \<open>
  What the event handler of a response, run in the task that made the request, and \<open>clear_new_data_section\<close> assign
  to; the flags of the buttons and of the menu; and the flag of the current sensor.
\<close>

definition response_flags :: "flag set" where
  "response_flags = {FETCHNEWINFODATA, FETCHNEWDEVICESDATA, FETCHNEWFIRMWAREDATA, FETCHNEWDATETIMEDATA, FETCHNEWALIVE,
     SETNEWDEVICEDATA, SETNEWINFODATA, SETNEWDATETIME, POSTNONEWDATA, POPULATEDEVICES}"

definition button_flags_set :: "flag set" where
  "button_flags_set = {BTN_UP_PRESSED, BTN_UP_RELEASED, BTN_DOWN_PRESSED, BTN_DOWN_RELEASED, BTN_ENTER_PRESSED,
     BTN_ENTER_RELEASED, BTN_UP_RELEASED_LONGPRESS, BTN_DOWN_RELEASED_LONGPRESS, BTN_ENTER_RELEASED_LONGPRESS}"

fun task_flags :: "task \<Rightarrow> flag set" where
  "task_flags ButtonTask = button_flags_set"
| "task_flags ACSReadTask = {SETCONSUMEDCURRENT}"
| "task_flags DataProcessTask = insert SETCONSUMEDCURRENT response_flags"
| "task_flags _ = response_flags"

section \<open>The rounds change no other flags\<close>

text \<open>One round of a task, as in the steps of the running firmware.\<close>

inductive task_round :: "task \<Rightarrow> world \<Rightarrow> world \<Rightarrow> bool" where
  "button_task_round lvl p ticks w = Some w' \<Longrightarrow> task_round ButtonTask w w'"
| "check_new_data_round w = Some w' \<Longrightarrow> task_round DataFetchTask w w'"
| "alive_package_round w = Some w' \<Longrightarrow> task_round AliveTask w w'"
| "data_processing_round junk w = Some w' \<Longrightarrow> task_round DataProcessTask w w'"
| "read_acs712_round z readings w = Some w' \<Longrightarrow> task_round ACSReadTask w w'"
| "firebase_update_task w = Some w' \<Longrightarrow> task_round FirebaseUpdateTask w w'"

text \<open>A step that changes no flag outside of \<open>F\<close>.\<close>

definition keeps :: "flag set \<Rightarrow> world \<Rightarrow> world \<Rightarrow> bool" where
  "keeps F w w' \<longleftrightarrow> (\<forall>f. f \<notin> F \<longrightarrow> wget f w' = wget f w)"

lemma keeps_refl [simp]: "keeps F w w" by (simp add: keeps_def)

lemma keeps_trans: "keeps F w w1 \<Longrightarrow> keeps F w1 w2 \<Longrightarrow> keeps F w w2" by (simp add: keeps_def)

interpretation keeps_frame: step_frame "keeps F" for F
  by unfold_locales (simp, rule keeps_trans)

lemma keeps_mono: "keeps F w w' \<Longrightarrow> F \<subseteq> G \<Longrightarrow> keeps G w w'" by (auto simp: keeps_def)

lemma wget_other [simp]:
  "wget f (show_lines s1 s2 w) = wget f w" "wget f (set_current m w) = wget f w" "wget f (set_index i w) = wget f w"
  "wget f (set_url u w) = wget f w" "wget f (url_printf s w) = wget f w" "wget f (put_entry n d w) = wget f w"
  "wget f (get_wifi_signal_strength w) = wget f w" "wget f (w\<lparr>w_currents := cs, w_currentDevice := cd\<rparr>) = wget f w"
  by (simp add: show_lines_def)
    (simp_all add: set_current_def set_index_def set_url_def url_printf_def put_entry_def get_wifi_signal_strength_def wget_def
      split: option.split)

lemma keeps_after [simp]:
  "keeps F w (on_lcd g v) = keeps F w v" "keeps F w (show_lines s1 s2 v) = keeps F w v" "keeps F w (set_current m v) = keeps F w v"
  "keeps F w (set_index i v) = keeps F w v" "keeps F w (set_menu m h v) = keeps F w v" "keeps F w (put_device j d v) = keeps F w v"
  "keeps F w (task_do op v) = keeps F w v" "keeps F w (on_wifi k v) = keeps F w v" "keeps F w (set_url u v) = keeps F w v"
  "keeps F w (url_printf s v) = keeps F w v" "keeps F w (put_entry n d v) = keeps F w v"
  "keeps F w (get_wifi_signal_strength v) = keeps F w v"
  by (simp_all add: keeps_def)

lemma keeps_before [simp]:
  "keeps F (on_lcd g w) v = keeps F w v" "keeps F (show_lines s1 s2 w) v = keeps F w v" "keeps F (set_current m w) v = keeps F w v"
  "keeps F (set_index i w) v = keeps F w v" "keeps F (set_menu m h w) v = keeps F w v" "keeps F (put_device j d w) v = keeps F w v"
  "keeps F (task_do op w) v = keeps F w v" "keeps F (on_wifi k w) v = keeps F w v" "keeps F (set_url u w) v = keeps F w v"
  "keeps F (url_printf s w) v = keeps F w v" "keeps F (put_entry n d w) v = keeps F w v"
  "keeps F (get_wifi_signal_strength w) v = keeps F w v"
  by (simp_all add: keeps_def)

lemma keeps_fields [simp]:
  "keeps F w (v\<lparr>w_gpio := gp\<rparr>) = keeps F w v" "keeps F w (v\<lparr>w_mallocs := n\<rparr>) = keeps F w v" "keeps F w (v\<lparr>w_nvs := nv\<rparr>) = keeps F w v"
  "keeps F w (v\<lparr>w_response := rs\<rparr>) = keeps F w v" "keeps F w (v\<lparr>w_devices := ds\<rparr>) = keeps F w v"
  "keeps F w (v\<lparr>w_deviceCount := c\<rparr>) = keeps F w v" "keeps F w (v\<lparr>w_dev_gen := m\<rparr>) = keeps F w v"
  "keeps F w (v\<lparr>w_urlSection := s\<rparr>) = keeps F w v" "keeps F w (v\<lparr>w_freed := fr\<rparr>) = keeps F w v"
  "keeps F w (v\<lparr>w_currents := cs, w_currentDevice := cd\<rparr>) = keeps F w v"
  "keeps F (w\<lparr>w_urlSection := s, w_nvs := nv, w_gpio := gp\<rparr>) v = keeps F w v"
  "keeps F (w\<lparr>w_requests := rs'\<rparr>) v = keeps F w v" "keeps F (w\<lparr>w_mallocs := n\<rparr>) v = keeps F w v"
  by (simp_all add: keeps_def)

lemma keeps_wset [simp]:
  assumes "f \<in> F"
  shows "keeps F w (wset f b v) = keeps F w v" "keeps F (wset f b w) v = keeps F w v"
  using assms by (auto simp: keeps_def)

lemma button_set [simp]: "BTN_UP_RELEASED \<in> button_flags_set" "BTN_DOWN_RELEASED \<in> button_flags_set" "BTN_ENTER_RELEASED \<in> button_flags_set"
  by (simp_all add: button_flags_set_def)

lemma display_keeps: "displayMenu i w = Some w' \<Longrightarrow> keeps F w w'"
proof -
  have "display_items i ks v = Some v' \<Longrightarrow> keeps F v v'" for ks v v'
    by (induction i ks v arbitrary: v' rule: display_items.induct) (auto simp: bind_eq_Some_conv split: if_splits)
  then show "displayMenu i w = Some w' \<Longrightarrow> keeps F w w'"
    unfolding displayMenu_def Let_def by fastforce
qed

lemma volver_keeps: "volver w = Some w' \<Longrightarrow> keeps F w w'"
  by (auto simp: volver_def printCurrentIP_def Let_def split: if_splits option.splits dest!: display_keeps [of _ _ _ F])

lemma menu_action_keeps: "menu_action f w = Some w' \<Longrightarrow> keeps F w w'"
proof -
  have "deviceAction v = Some v' \<Longrightarrow> keeps F v v'" for v v'
    by (auto simp: deviceAction_def bind_eq_Some_conv Let_def split: if_splits)
  then show "menu_action f w = Some w' \<Longrightarrow> keeps F w w'"
    by (cases f) (auto simp: submenu1Fn_def submenu2Fn_def submenu3Fn_def dest!: volver_keeps [of _ _ F] display_keeps [of _ _ _ F])
qed

lemma button_keeps: "button_task_round lvl p t w = Some w' \<Longrightarrow> keeps button_flags_set w w'"
proof -
  note d = display_keeps [of _ _ _ button_flags_set] volver_keeps [of _ _ button_flags_set] menu_action_keeps [of _ _ _ button_flags_set]
  have up: "navigate_up v = Some v' \<Longrightarrow> keeps button_flags_set v v'" for v v'
    by (auto simp: navigate_up_def Let_def split: if_splits dest!: d)
  have down: "navigate_down v = Some v' \<Longrightarrow> keeps button_flags_set v v'" for v v'
    by (auto simp: navigate_down_def Let_def split: if_splits dest!: d)
  have enter: "navigate_enter v = Some v' \<Longrightarrow> keeps button_flags_set v v'" for v v'
    by (auto simp: navigate_enter_def Let_def bind_eq_Some_conv split: if_splits option.splits dest!: d)
  have n: "navigate_menu v = Some v' \<Longrightarrow> keeps button_flags_set v v'" for v v'
    unfolding navigate_menu_def by (erule keeps_frame.bind, erule up down)+ (erule enter)
  have c: "keeps button_flags_set w (w\<lparr>w_btn := check_buttons lvl p t (w_btn w)\<rparr>)"
    by (auto simp: keeps_def wget_def button_flags_set_def check_buttons_def Let_def check_button_frame)
  show "button_task_round lvl p t w = Some w' \<Longrightarrow> keeps button_flags_set w w'"
    by (auto simp: button_task_round_def Let_def split: if_splits dest!: n intro: c keeps_trans [OF c])
qed

section \<open>Responses\<close>

abbreviation heard :: "world \<Rightarrow> world \<Rightarrow> bool" where "heard \<equiv> keeps response_flags"

lemma response_set [simp]:
  "section_flag s = Some f \<Longrightarrow> f \<in> response_flags" "POSTNONEWDATA \<in> response_flags" "POPULATEDEVICES \<in> response_flags"
  by (auto simp: response_flags_def split: if_splits)

declare section_flag.simps [simp del]

lemma load_devices_heard: "load_devices js i w = Some w' \<Longrightarrow> heard w w'"
proof (induction js arbitrary: i w w')
  case (Cons j js)
  have "heard v v'" if "load_device j i v = Some v'" for v v'
    using that by (auto simp: load_device_def malloc_def Let_def split: prod.splits if_splits)
  with Cons show ?case by (auto split: if_splits elim!: keeps_frame.bind)
qed simp

lemma devices_json_heard: "devices_json r w = Some (b, w') \<Longrightarrow> heard w w'"
proof -
  have l: "heard w v'" if "load_devices js i v = Some v'" "heard w v" for js i v v'
    using load_devices_heard [OF that(1)] that(2) by (rule keeps_trans [rotated])
  show "devices_json r w = Some (b, w') \<Longrightarrow> heard w w'"
    by (auto simp: devices_json_def malloc_size_def malloc_def Let_def split: option.splits if_splits prod.splits elim!: l)
qed

lemma client_event_heard:
  assumes "client_event_get_handler evt w = Some w'"
  shows "heard w w'"
proof (cases evt)
  case (HTTP_EVENT_ON_FINISH u)
  have t: "heard v (on_finish_tail v')" if "heard v v'" for v v'
    using that by (auto simp: on_finish_tail_def Let_def)
  have n: "heard w (new_data r (set_url u w))" for r
    by (auto simp: new_data_def dispatch_section_flag Let_def split: option.split)
  have d: "heard w w2" if "devices_json r (set_url u w) = Some (b, w2)" for r b w2
    using devices_json_heard [OF that] by simp
  from assms HTTP_EVENT_ON_FINISH show ?thesis
    by (auto simp: client_event_get_handler_def on_finish_def Let_def split: option.splits if_splits
        intro!: t n intro: d)
qed (use assms in \<open>auto simp: client_event_get_handler_def on_data_def malloc_def split: option.splits if_splits\<close>)

lemma handle_events_heard: "handle_events evts w = Some w' \<Longrightarrow> heard w w'"
  by (induction evts w arbitrary: w' rule: handle_events.induct)
    (auto simp: bind_eq_Some_conv dest: client_event_heard intro: keeps_trans)

lemma request_heard: "esp_http_client_perform rq w = Some (err, st, w') \<Longrightarrow> heard w w'"
  by (auto simp: esp_http_client_perform_def Let_def dest!: handle_events_heard)

lemma perform_heard: "perform m u body w = Some w' \<Longrightarrow> heard w w'"
  by (auto simp: perform_def dest: request_heard)

lemmas perform_defs = perform_http_get_def perform_http_put_def perform_http_patch_def

lemma requests_heard:
  "firebase_get_new_data w = Some w' \<Longrightarrow> heard w w'"
  "firebase_get_dispositivo_info w = Some w' \<Longrightarrow> heard w w'"
  "firebase_get_dispositivo_devices w = Some w' \<Longrightarrow> heard w w'"
  "send_alive_package w = Some w' \<Longrightarrow> heard w w'"
  "firebase_update_dispositivo_device_status i on w = Some w' \<Longrightarrow> heard w w'"
  "firebase_update_device_current i a w = Some w' \<Longrightarrow> heard w w'"
  by (auto simp: firebase_get_new_data_def firebase_get_dispositivo_info_def firebase_get_dispositivo_devices_def
      send_alive_package_def firebase_update_dispositivo_device_status_def firebase_update_device_current_def
      perform_defs Let_def split: option.splits dest!: perform_heard)

lemma clear_heard: "clear_new_data_section w = Some w' \<Longrightarrow> heard w w'"
proof -
  have f: "heard v (fold (\<lambda>f. wset f False) cleared_flags v') = heard v v'" for v v'
    by (simp add: cleared_flags_def response_flags_def)
  show "clear_new_data_section w = Some w' \<Longrightarrow> heard w w'"
    by (auto simp: clear_new_data_section_def Let_def f split: option.splits if_splits dest!: request_heard)
qed

section \<open>The processing task and the sensor\<close>

abbreviation processed :: "world \<Rightarrow> world \<Rightarrow> bool" where "processed \<equiv> keeps (task_flags DataProcessTask)"

lemma heard_processed: "heard w w' \<Longrightarrow> processed w w'"
  by (erule keeps_mono) auto

lemma process_set [simp]:
  "SETCONSUMEDCURRENT \<in> task_flags DataProcessTask" "FETCHNEWINFODATA \<in> task_flags DataProcessTask"
  "FETCHNEWDEVICESDATA \<in> task_flags DataProcessTask" "SETNEWDEVICEDATA \<in> task_flags DataProcessTask"
  "POSTNONEWDATA \<in> task_flags DataProcessTask" "POPULATEDEVICES \<in> task_flags DataProcessTask"
  by (simp_all add: response_flags_def)

lemma processing_keeps: "data_processing_round junk w = Some w' \<Longrightarrow> processed w w'"
proof -
  note d = heard_processed [OF requests_heard(2)] heard_processed [OF requests_heard(3)] heard_processed [OF requests_heard(5)]
    heard_processed [OF requests_heard(6)] heard_processed [OF clear_heard] display_keeps [of _ _ _ "task_flags DataProcessTask"]
  have info: "process_info v = Some v' \<Longrightarrow> processed v v'" for v v'
    by (auto simp: process_info_def put_text_def Let_def simp del: task_flags.simps split: if_splits dest!: d)
  have free: "free_devices_array v = Some v' \<Longrightarrow> processed v v'" for v v'
    by (auto simp: free_devices_array_def split: if_splits)
  have devs: "process_devices v = Some v' \<Longrightarrow> processed v v'" for v v'
    by (auto simp: process_devices_def put_text_def Let_def bind_eq_Some_conv simp del: task_flags.simps split: if_splits
        dest!: d free intro: keeps_trans)
  have curr: "process_current v = Some v' \<Longrightarrow> processed v v'" for v v'
    by (auto simp: process_current_def Let_def bind_eq_Some_conv simp del: task_flags.simps split: if_splits dest!: d)
  have dev: "set_device junk v = Some v' \<Longrightarrow> processed v v'" for v v'
    by (auto simp: set_device_def Let_def simp del: task_flags.simps split: if_splits option.splits prod.splits dest!: d)
  have set: "process_set_device junk v = Some v' \<Longrightarrow> processed v v'" for v v'
    by (auto simp: process_set_device_def simp del: task_flags.simps split: if_splits dest!: dev)
  have pop: "populate_device_menu v = Some v' \<Longrightarrow> processed v v'" for v v'
    by (auto simp: populate_device_menu_def malloc_def Let_def bind_eq_Some_conv simp del: task_flags.simps split: if_splits dest!: d)
  have clear: "process_clear v = Some v' \<Longrightarrow> processed v v'" for v v'
    by (auto simp: process_clear_def Let_def bind_eq_Some_conv simp del: task_flags.simps split: if_splits dest!: d pop
        intro: keeps_trans)
  show "data_processing_round junk w = Some w' \<Longrightarrow> processed w w'"
    unfolding data_processing_round_def by (erule keeps_frame.bind, erule info devs curr set clear)+ (erule clear)
qed

lemma sensor_keeps: "read_acs712_round z readings w = Some w' \<Longrightarrow> keeps {SETCONSUMEDCURRENT} w w'"
proof -
  have "read_currents z readings ks v = Some v' \<Longrightarrow> keeps {SETCONSUMEDCURRENT} v v'" for ks v v'
  proof (induction ks arbitrary: v v')
    case (Cons i ks)
    have "keeps {SETCONSUMEDCURRENT} u u'" if "read_device_current z readings i u = Some u'" for u u'
      using that by (auto simp: read_device_current_def bind_eq_Some_conv split: if_splits)
    with Cons show ?case by (auto elim!: keeps_frame.bind)
  qed simp
  then show "read_acs712_round z readings w = Some w' \<Longrightarrow> keeps {SETCONSUMEDCURRENT} w w'"
    by (simp add: read_acs712_round_def)
qed

lemma round_keeps: "task_round t w w' \<Longrightarrow> keeps (task_flags t) w w'"
proof (induction rule: task_round.induct)
  case (2 w w')
  then show ?case by (auto simp: check_new_data_round_def delete_process_task_def split: if_splits dest: requests_heard(1))
next
  case (6 w w')
  then show ?case by (auto simp: firebase_update_task_def bind_eq_Some_conv dest: requests_heard(5))
qed (use button_keeps requests_heard(4) processing_keeps sensor_keeps in \<open>simp_all add: alive_package_round_def\<close>)

section \<open>Which tasks disturb each other\<close>

text \<open>
  Whatever the two tasks assign to their flags, and however the loads and stores interleave, the flags end as if
  the assignments of one task came before those of the other.
\<close>

definition race_free :: "task \<Rightarrow> task \<Rightarrow> bool" where
  "race_free t u \<longleftrightarrow> (\<forall>as bs tr s r. fst ` set as \<subseteq> task_flags t \<longrightarrow> fst ` set bs \<subseteq> task_flags u \<longrightarrow>
     tr \<in> shuffles (accesses t as) (accesses u bs) \<longrightarrow> fst (run_accesses tr (s, r)) \<in> {assign bs (assign as s), assign as (assign bs s)})"

lemma race_freeI:
  assumes "t \<noteq> u" "byte_of ` task_flags t \<inter> byte_of ` task_flags u = {}"
  shows "race_free t u"
proof -
  have "fst (run_accesses tr (s, r)) = assign bs (assign as s)"
    if "fst ` set as \<subseteq> task_flags t" "fst ` set bs \<subseteq> task_flags u" "tr \<in> shuffles (accesses t as) (accesses u bs)" for as bs tr s r
  proof (rule different_bytes_isolated [OF assms(1) _ that(3)])
    have "byte_of ` fst ` set as \<inter> byte_of ` fst ` set bs \<subseteq> byte_of ` task_flags t \<inter> byte_of ` task_flags u"
      by (rule Int_mono [OF image_mono [OF that(1)] image_mono [OF that(2)]])
    then show "byte_of ` fst ` set as \<inter> byte_of ` fst ` set bs = {}" unfolding assms(2) subset_empty .
  qed
  then show ?thesis unfolding race_free_def by (intro allI impI) (simp only: insertI1)
qed

lemma race_freeD:
  assumes "t \<noteq> u" "f \<in> task_flags t" "g \<in> task_flags u" "f \<noteq> g" "byte_of f = byte_of g"
  shows "\<not> race_free t u"
proof
  assume "race_free t u"
  then have "fst (run_accesses tr (s, r)) \<in> {assign [(g, w)] (assign [(f, v)] s), assign [(f, v)] (assign [(g, w)] s)}"
    if "tr \<in> shuffles (accesses t [(f, v)]) (accesses u [(g, w)])" for tr s r v w
    using that assms(2,3) unfolding race_free_def
    by (elim allE [of _ "[(f, v)]"] allE [of _ "[(g, w)]"] allE [of _ tr] allE [of _ s] allE [of _ r]) simp
  from this [OF lost_update(1) [OF assms(1,5)]]
  have "assign [(f, True)] flags_init \<in> {assign [(g, True)] (assign [(f, True)] flags_init), assign [(f, True)] (assign [(g, True)] flags_init)}"
    unfolding lost_update(2) [OF assms(1,5)] .
  moreover have "flag_get g (assign [(f, True)] flags_init) = False" using assms(4) by simp
  moreover have "flag_get g (assign [(g, True)] (assign [(f, True)] flags_init))"
    "flag_get g (assign [(f, True)] (assign [(g, True)] flags_init))" using assms(4) by simp_all
  ultimately show False by (metis insertE singletonD)
qed

lemmas task_sets = response_flags_def button_flags_set_def byte_of_def

text \<open>
  C20. A round of a task changes only the flags of that task: the buttons task the nine button flags, the sensor task
  SETCONSUMEDCURRENT, the tasks that talk to the server the ten flags a response can raise or a clear can reset, and the
  processing task these and SETCONSUMEDCURRENT.
\<close>

theorem tasks_write_their_flags:
  assumes "task_round t w w'" "f \<notin> task_flags t"
  shows "wget f w' = wget f w"
  using round_keeps [OF assms(1)] assms(2) by (simp add: keeps_def)

text \<open>
  C19. Assignments of two different tasks to their flags cannot be lost exactly when one is the buttons task and the
  other the sensor task: these two share no byte. For every other pair there are two flags in one byte and an
  interleaving of two assignments in which one of them is undone.
\<close>

theorem flag_races:
  assumes "t \<noteq> u"
  shows "race_free t u \<longleftrightarrow> {t, u} = {ButtonTask, ACSReadTask}"
proof (cases "{t, u} = {ButtonTask, ACSReadTask}")
  case True
  then have "byte_of ` task_flags t \<inter> byte_of ` task_flags u = {}"
    using assms by (cases t; cases u) (simp_all add: task_sets doubleton_eq_iff)
  then show ?thesis using race_freeI [OF assms] True by simp
next
  case False
  have "\<exists>f\<in>task_flags t. \<exists>g\<in>task_flags u. f \<noteq> g \<and> byte_of f = byte_of g"
    using assms False by (cases t; cases u) (simp_all add: task_sets doubleton_eq_iff)
  then show ?thesis using race_freeD [OF assms] False by blast
qed

theorem tasks_write_their_flags_witness:
  "task_round DataFetchTask (wset FETCHNEWINFODATA True (boot_world\<lparr>w_tasks := [Create DataProcessTask]\<rparr>))
     (task_do (DeleteTask DataProcessTask) (wset FETCHNEWINFODATA True (boot_world\<lparr>w_tasks := [Create DataProcessTask]\<rparr>))) \<and>
   wget BTN_UP_RELEASED (task_do (DeleteTask DataProcessTask) (wset FETCHNEWINFODATA True (boot_world\<lparr>w_tasks := [Create DataProcessTask]\<rparr>))) =
     wget BTN_UP_RELEASED (wset FETCHNEWINFODATA True (boot_world\<lparr>w_tasks := [Create DataProcessTask]\<rparr>))"
proof -
  have r: "task_round DataFetchTask (wset FETCHNEWINFODATA True (boot_world\<lparr>w_tasks := [Create DataProcessTask]\<rparr>))
      (task_do (DeleteTask DataProcessTask) (wset FETCHNEWINFODATA True (boot_world\<lparr>w_tasks := [Create DataProcessTask]\<rparr>)))"
    by (rule task_round.intros(2)) (simp add: check_new_data_round_def delete_process_task_def)
  show ?thesis using r tasks_write_their_flags [OF r, of BTN_UP_RELEASED] by (simp add: response_flags_def)
qed

theorem flag_races_witness:
  "race_free ButtonTask ACSReadTask \<and> \<not> race_free DataFetchTask DataProcessTask \<and> \<not> race_free ButtonTask DataFetchTask"
  using flag_races [of ButtonTask ACSReadTask] flag_races [of DataFetchTask DataProcessTask] flag_races [of ButtonTask DataFetchTask]
  by (simp add: doubleton_eq_iff)

end
