(* ===== verification/Scenarios.thy ===== *)
theory Scenarios
  imports Tasks
begin

text \<open>
  Runs that span the components: a command on its way from the database to the relay, a refresh of the list of
  devices up to the menu, and two responses that meet in the one response buffer.
\<close>

section \<open>A command from the database to the relay\<close>

text \<open>
  C1. End to end: a \<open>newData.json\<close> with the command \<open>set/devices/N/status/S\<close>, however the server splits it,
  is fetched by the next poll and carried out by the next round of the processing task: the pin stored for
  device \<open>N\<close> is driven, and the requests sent are the poll, the report of the new status and the clearing
  of the command; no work flag is left. The report and the clearing may fail or be answered with any status and any
  body that has no news of its own.
\<close>

theorem remote_switch:
  assumes "wf_connected_bit (w_wifi w)" "\<forall>f\<in>{SETCONSUMEDCURRENT, POPULATEDEVICES} \<union> set pending_flags. \<not> wget f w"
    and "\<And>n. \<not> w_malloc_fails w n" "w_response w = None"
    and "w_json_fault w = (\<lambda>_. False)" "length (w_disp_url w) < SERVER_URL_MAX_LEN"
    and "length (w_events_url w) < SERVER_URL_MAX_LEN" "suffix ''/'' (w_events_url w)"
    and "relevant (rp_events (w_replies w (length (w_requests w)))) = answer (w_events_url w @ ''newData.json'') ds"
    and "no_news (w_disp_url w @ ''devices/'' @ dec_nat n @ ''.json'') (w_replies w (Suc (length (w_requests w))))"
    and "no_news (w_events_url w @ ''newData.json'') (w_replies w (Suc (Suc (length (w_requests w)))))"
    and "ds \<noteq> []" "concat ds = render fmt 0 json" "plain json" "nest json \<le> CJSON_NESTING_LIMIT"
    and "cJSON_GetObjectItem (Some json) ''status'' = Some JTrue"
    and "cJSON_GetObjectItem (Some json) ''section'' = Some (JString (''set/devices/'' @ dec_nat n @ ''/status/'' @ st))"
    and "n < 100000000" "length st \<le> 50"
    and "nv_healthy (w_nvs w)" "nv_ns (w_nvs w)" "nv_u8 (w_nvs w) (device_key (int n)) = Some p"
  shows "\<exists>w1 w' b1 b2. check_new_data_round w = Some w1 \<and> data_processing_round junk w1 = Some w' \<and>
     w_gpio w' = setPower (st = ''true'') p (w_gpio w) \<and>
     w_requests w' = w_requests w @
       [\<lparr>rq_method = HTTP_GET, rq_url = w_events_url w @ ''newData.json'', rq_body = None\<rparr>,
        \<lparr>rq_method = HTTP_PATCH, rq_url = w_disp_url w @ ''devices/'' @ dec_nat n @ ''.json'', rq_body = Some b1\<rparr>,
        \<lparr>rq_method = HTTP_PUT, rq_url = w_events_url w @ ''newData.json'', rq_body = Some b2\<rparr>] \<and>
     cJSON_Parse b1 = Accept (JObject [(''status'', if st = ''true'' then JTrue else JFalse)]) \<and>
     cJSON_Parse b2 = Accept clear_document \<and> \<not> wget SETNEWDEVICEDATA w' \<and> \<not> wget POSTNONEWDATA w'"
proof -
  let ?s = "''set/devices/'' @ dec_nat n @ ''/status/'' @ st"
  let ?u = "w_events_url w @ ''newData.json''"
  let ?rq = "\<lparr>rq_method = HTTP_GET, rq_url = ?u, rq_body = None\<rparr>"
  let ?w0 = "w\<lparr>w_url := ?u, w_requests := w_requests w @ [?rq]\<rparr>"
  have u: "url_printf ?u w = w\<lparr>w_url := ?u\<rparr>"
    using newData_url(2) [OF assms(8,7)] by (simp add: url_printf_def)
  have json: "parsed (concat ds) = Some json" using parsed_render [OF assms(14,15)] by (simp only: assms(13))
  have m: "\<not> w_malloc_fails ?w0 k" "w_response ?w0 = None" for k using assms(3,4) by simp_all
  obtain w1 where h: "handle_events (answer ?u ds) ?w0 = Some w1" and
      s: "w_urlSection w1 = take 79 ?s" "w_response w1 = None" and
      f: "\<forall>f. wget f w1 \<longleftrightarrow> wget f ?w0 \<or> section_flag ?s = Some f \<or>
        f = POSTNONEWDATA \<and> (\<exists>g\<in>set pending_flags. wget g ?w0 \<or> section_flag ?s = Some g)"
    using new_data_answer [OF m assms(12) json newData_url(1) [OF assms(8,7)] assms(16,17)] by blast
  have "handle_events (rp_events (w_replies w (length (w_requests w)))) ?w0 = Some w1"
    using h handle_relevant [of "rp_events (w_replies w (length (w_requests w)))"] by (simp only: assms(9))
  then have check: "check_new_data_round w = Some w1"
    using assms(1,2) by (simp add: check_new_data_round_def firebase_get_new_data_def u perform_def esp_http_client_perform_def Let_def pending_flags_def)
  have keep: "client_frame ?w0 w1" "w_gpio w1 = w_gpio w" "w_nvs w1 = w_nvs w"
    using handle_events_frame [OF h] new_data_keeps [OF m assms(12) newData_url(1) [OF assms(8,7)] h] by (simp_all add: news_frame_def)
  then have fr: "w_requests w1 = w_requests w @ [?rq]" "w_replies w1 = w_replies w" "w_events_url w1 = w_events_url w"
      "w_disp_url w1 = w_disp_url w" "w_json_fault w1 = w_json_fault w" "w_malloc_fails w1 = w_malloc_fails w"
    by (simp_all add: client_frame_def)
  have "length (dec_nat n) \<le> 8" using dec_nat_length [of n 8] assms(18) by simp
  then have sec: "w_urlSection w1 = ?s" using s(1) assms(19) by simp
  have flag: "section_flag ?s = Some SETNEWDEVICEDATA" by simp
  have fl: "wget SETNEWDEVICEDATA w1" "\<not> wget FETCHNEWINFODATA w1" "\<not> wget FETCHNEWDEVICESDATA w1"
      "\<not> wget SETCONSUMEDCURRENT w1" "\<not> wget POPULATEDEVICES w1"
    using f assms(2) unfolding flag by (auto simp: pending_flags_def)
  have np: "\<not> (\<exists>f\<in>set pending_flags - {SETNEWDEVICEDATA}. wget f w1)"
    using f assms(2) unfolding flag by (auto simp: pending_flags_def)
  have "\<exists>w' b1 b2. data_processing_round junk w1 = Some w' \<and>
     w_gpio w' = setPower (st = ''true'') p (w_gpio w1) \<and>
     w_requests w' = w_requests w1 @
       [\<lparr>rq_method = HTTP_PATCH, rq_url = w_disp_url w1 @ ''devices/'' @ dec_nat n @ ''.json'', rq_body = Some b1\<rparr>,
        \<lparr>rq_method = HTTP_PUT, rq_url = w_events_url w1 @ ''newData.json'', rq_body = Some b2\<rparr>] \<and>
     cJSON_Parse b1 = Accept (JObject [(''status'', if st = ''true'' then JTrue else JFalse)]) \<and>
     cJSON_Parse b2 = Accept clear_document \<and> w_tasks w' = w_tasks w1 @ [Resume DataFetchTask] \<and>
     \<not> wget SETNEWDEVICEDATA w' \<and>
     (wget POSTNONEWDATA w' \<longleftrightarrow> \<not> (rp_err (w_replies w (Suc (Suc (length (w_requests w))))) = ESP_OK \<and>
          rp_status (w_replies w (Suc (Suc (length (w_requests w))))) = 200) \<and> has_body (w_replies w (Suc (Suc (length (w_requests w))))) \<and>
        (\<exists>f\<in>set pending_flags - {SETNEWDEVICEDATA}. wget f w1))"
    by (rule set_device_round [OF fl sec assms(18)])
      (use assms(3,5-7,10,11,20-22) keep(2,3) fr s(2) in simp_all)
  then show ?thesis using check np keep(2) fr by auto
qed

theorem remote_switch_witness:
  "\<exists>w1 w'. check_new_data_round (on_wifi (\<lambda>s. s\<lparr>wf_connected_bit := True\<rparr>) (boot_world
       \<lparr>w_events_url := ''https://x/'', w_nvs := (w_nvs boot_world)\<lparr>nv_ns := True, nv_u8 := [''device-0'' \<mapsto> 23]\<rparr>,
         w_replies := (\<lambda>k. if k = 0 then echo ''https://x/newData.json'' (render True 0 (JObject
           [(''section'', JString ''set/devices/0/status/true''), (''status'', JTrue)])) 200
         else if k = 1 then no_reply else echo ''https://x/newData.json'' ''{}'' 401)\<rparr>)) = Some w1 \<and>
     data_processing_round 0 w1 = Some w' \<and> w_gpio w' = setPower True 23 (w_gpio boot_world) \<and>
     \<not> wget SETNEWDEVICEDATA w'"
proof -
  let ?j = "JObject [(''section'', JString ''set/devices/0/status/true''), (''status'', JTrue)]"
  let ?w = "on_wifi (\<lambda>s. s\<lparr>wf_connected_bit := True\<rparr>) (boot_world
       \<lparr>w_events_url := ''https://x/'', w_nvs := (w_nvs boot_world)\<lparr>nv_ns := True, nv_u8 := [''device-0'' \<mapsto> 23]\<rparr>,
         w_replies := (\<lambda>k. if k = 0 then echo ''https://x/newData.json'' (render True 0 ?j) 200
         else if k = 1 then no_reply else echo ''https://x/newData.json'' ''{}'' 401)\<rparr>)"
  have d: "dec_nat 0 = ''0''" by (simp add: dec_nat.simps [of 0] digit_char_def char_of_def bit_0)
  have k: "device_key 0 = ''device-0''" using device_key_fits(1) [of 0] d by simp
  have n: "no_news u no_reply" for u by (simp add: no_news_def no_reply_def relevant_def)
  show ?thesis
    using n nothing_new_object remote_switch [where w = ?w and ds = "[render True 0 ?j]" and fmt = True and json = ?j and n = 0 and st = "''true''" and p = 23 and junk = 0]
    by (auto simp: d k boot_world_def wget_def on_wifi_def nv_healthy_def SERVER_URL_MAX_LEN_def suffix_def
        pending_flags_def CJSON_NESTING_LIMIT_def NUL_def same_name_def tolower_def simp del: render.simps)
qed

section \<open>A new list of devices\<close>

lemma clear_then_populate:
  assumes "w_json_fault w = (\<lambda>_. False)" "length (w_events_url w) < SERVER_URL_MAX_LEN"
    and "\<And>n. \<not> w_malloc_fails w n" "w_response w = None"
    and "no_news (w_events_url w @ ''newData.json'') (w_replies w (length (w_requests w)))"
    and "wget POSTNONEWDATA w" "wget POPULATEDEVICES w"
    and "w_devices w = Some (map Some ds)" "w_deviceCount w = int (length ds)"
    and "ms_current (w_menu w) \<noteq> Submenu1"
  shows "\<exists>w' body. process_clear w = Some w' \<and> w_gpio w' = w_gpio w \<and> w_devices w' = w_devices w \<and>
     w_response w' = None \<and>
     sm_items (ms_menus (w_menu w') Submenu1) = Some (device_items (w_dev_gen w) ds) \<and> w_dev_gen w' = w_dev_gen w \<and>
     w_requests w' = w_requests w @ [\<lparr>rq_method = HTTP_PUT, rq_url = w_events_url w @ ''newData.json'', rq_body = Some body\<rparr>] \<and>
     cJSON_Parse body = Accept clear_document \<and> w_tasks w' = w_tasks w @ [Resume DataFetchTask] \<and>
     (wget POSTNONEWDATA w' \<longleftrightarrow> raised_again w) \<and> \<not> wget POPULATEDEVICES w' \<and>
     (wget FETCHNEWDEVICESDATA w' \<longrightarrow> wget FETCHNEWDEVICESDATA w)"
proof -
  obtain w1 body where c: "clear_new_data_section (wset POSTNONEWDATA False w) = Some w1"
     "w_requests w1 = w_requests w @ [\<lparr>rq_method = HTTP_PUT, rq_url = w_events_url w @ ''newData.json'', rq_body = Some body\<rparr>]"
     "cJSON_Parse body = Accept clear_document" "w_gpio w1 = w_gpio w" "w_tasks w1 = w_tasks w" "w_devices w1 = w_devices w"
     "w_deviceCount w1 = w_deviceCount w" "w_menu w1 = w_menu w" "w_malloc_fails w1 = w_malloc_fails w"
     "w_dev_gen w1 = w_dev_gen w" "w_response w1 = None" "wget POSTNONEWDATA w1 \<longleftrightarrow> raised_again w"
     "\<forall>f. f \<notin> set cleared_flags \<longrightarrow> wget f w1 = wget f w" "\<forall>f. f \<noteq> POSTNONEWDATA \<and> wget f w1 \<longrightarrow> wget f w"
    using clear_request [OF assms(1-5)] by blast
  have g: "wget POPULATEDEVICES w1" using c(13) assms(7) by (simp add: cleared_flags_def)
  let ?w3 = "wset POPULATEDEVICES False (task_do (Resume DataFetchTask) w1)"
  have t: "w_devices ?w3 = Some (map Some ds)" "w_deviceCount ?w3 = int (length ds)" "\<not> w_malloc_fails ?w3 (w_mallocs ?w3)"
      "ms_current (w_menu ?w3) \<noteq> Submenu1"
    using assms(3,8-10) c(6-9) by (simp_all add: task_do_def wset_def)
  have p: "process_clear w = Some (populated ds ?w3)"
    using populate_eq [OF t(1-3)] t(4) g
    unfolding process_clear_def if_P [OF assms(6)] c(1) bind.bind_lunit Let_def by simp
  have "w_gpio (populated ds ?w3) = w_gpio w" "w_devices (populated ds ?w3) = w_devices w"
      "w_response (populated ds ?w3) = None"
      "sm_items (ms_menus (w_menu (populated ds ?w3)) Submenu1) = Some (device_items (w_dev_gen w) ds)"
      "w_dev_gen (populated ds ?w3) = w_dev_gen w" "w_requests (populated ds ?w3) = w_requests w1"
      "w_tasks (populated ds ?w3) = w_tasks w @ [Resume DataFetchTask]"
    using c(4-11) by (simp_all add: populated_def set_menu_def task_do_def wset_def)
  moreover have "wget f (populated ds ?w3) = wget f ?w3" for f
    by (simp add: populated_def)
  ultimately show ?thesis using p c(2,3,12,14)
    by (intro exI [of _ "populated ds ?w3"] exI [of _ body]) auto
qed

lemma free_devices_initialised:
  assumes "w_devices w = None \<or> (\<exists>old. w_devices w = Some (map Some old) \<and> w_deviceCount w = int (length old))"
  shows "\<exists>fr d c. free_devices_array w = Some (w\<lparr>w_freed := fr, w_devices := d, w_deviceCount := c\<rparr>)"
proof (cases "w_devices w")
  case None
  then have "free_devices_array w = Some (w\<lparr>w_freed := w_freed w, w_devices := w_devices w, w_deviceCount := w_deviceCount w\<rparr>)"
    by (simp add: free_devices_array_def)
  then show ?thesis by blast
next
  case (Some a)
  with assms obtain old where o: "w_devices w = Some (map Some old)" "w_deviceCount w = int (length old)" by auto
  then have "list_all (\<lambda>i. device_at (int i) w \<noteq> None) [0..<nat (w_deviceCount w)]"
    by (simp add: list_all_iff device_at_def at_index_def)
  then have "free_devices_array w =
      Some (w\<lparr>w_freed := insert (w_dev_gen w) (w_freed w), w_devices := None, w_deviceCount := 0\<rparr>)"
    using o by (simp add: free_devices_array_def)
  then show ?thesis by blast
qed

lemma devices_fetched:
  assumes "wget FETCHNEWDEVICESDATA w" "wget POSTNONEWDATA w"
    and "w_devices w = None \<or> (\<exists>old. w_devices w = Some (map Some old) \<and> w_deviceCount w = int (length old))"
    and "\<And>n. \<not> w_malloc_fails w n" "w_response w = None" "ds \<noteq> []"
    and "concat ds = render fmt 0 (JArray js)" "plain (JArray js)" "nest (JArray js) \<le> CJSON_NESTING_LIMIT" "js \<noteq> []"
    and "\<forall>j\<in>set js. valid_device j" "nv_healthy (w_nvs w)" "nv_ns (w_nvs w)"
    and "L = loaded_from (w_junk w) (nv_u8 (w_nvs w)) 0 js"
    and "suffix ''/'' (w_disp_url w)" "length (w_disp_url w) < SERVER_URL_MAX_LEN"
    and "strstr (w_disp_url w @ ''devices.json'') ''/newData.json'' = None"
    and "relevant (rp_events (w_replies w (length (w_requests w)))) = answer (w_disp_url w @ ''devices.json'') ds"
  shows "\<exists>w'. process_devices w = Some w' \<and> w_devices w' = Some (map Some L) \<and> w_deviceCount w' = int (length L) \<and>
     w_gpio w' = switch_relays L (w_gpio w) \<and> w_response w' = None \<and>
     w_requests w' = w_requests w @ [\<lparr>rq_method = HTTP_GET, rq_url = w_disp_url w @ ''devices.json'', rq_body = None\<rparr>] \<and>
     w_tasks w' = w_tasks w @ [Suspend DataFetchTask] \<and> w_menu w' = w_menu w \<and> w_malloc_fails w' = w_malloc_fails w \<and>
     w_json_fault w' = w_json_fault w \<and> w_events_url w' = w_events_url w \<and> w_replies w' = w_replies w \<and>
     wget POPULATEDEVICES w' \<and> wget POSTNONEWDATA w' \<and> \<not> wget FETCHNEWDEVICESDATA w' \<and>
     (\<forall>f. f \<notin> {FETCHNEWDEVICESDATA, POPULATEDEVICES, POSTNONEWDATA} \<longrightarrow> wget f w' = wget f w)"
proof -
  let ?w0 = "wset FETCHNEWDEVICESDATA False w"
  have "w_devices ?w0 = w_devices w" "w_deviceCount ?w0 = w_deviceCount w" by (simp_all add: wset_def)
  then obtain fr d c where free: "free_devices_array ?w0 = Some (?w0\<lparr>w_freed := fr, w_devices := d, w_deviceCount := c\<rparr>)"
    using free_devices_initialised [of ?w0] assms(3) by metis
  define w1 where "w1 = task_do (Suspend DataFetchTask)
    (put_text 1 ''OBTENIENDO DISP'' (put_text 0 ''ACTUALIZANDO'' (?w0\<lparr>w_freed := fr, w_devices := d, w_deviceCount := c\<rparr>)))"
  have s: "w_requests w1 = w_requests w" "w_tasks w1 = w_tasks w @ [Suspend DataFetchTask]" "w_menu w1 = w_menu w"
      "w_malloc_fails w1 = w_malloc_fails w" "w_json_fault w1 = w_json_fault w" "w_events_url w1 = w_events_url w"
      "w_replies w1 = w_replies w" "w_disp_url w1 = w_disp_url w" "w_nvs w1 = w_nvs w" "w_junk w1 = w_junk w"
      "w_gpio w1 = w_gpio w" "w_response w1 = w_response w"
    unfolding w1_def by (simp_all add: task_do_def put_text_def wset_def on_lcd_def)
  have g: "wget f w1 = wget f ?w0" for f unfolding w1_def by (simp add: task_do_def put_text_def on_lcd_def wget_def)
  have run: "process_devices w = firebase_get_dispositivo_devices w1"
    unfolding process_devices_def if_P [OF assms(1)] free bind.bind_lunit Let_def w1_def [symmetric] ..
  obtain w' where d: "firebase_get_dispositivo_devices w1 = Some w'" "w_devices w' = Some (map Some L)"
      "w_deviceCount w' = int (length L)" "w_gpio w' = switch_relays L (w_gpio w)" "w_response w' = None"
      "w_requests w' = w_requests w @ [\<lparr>rq_method = HTTP_GET, rq_url = w_disp_url w @ ''devices.json'', rq_body = None\<rparr>]"
      "client_frame w1 (w'\<lparr>w_requests := w_requests w\<rparr>)" "wget POPULATEDEVICES w'" "wget POSTNONEWDATA w1 \<longrightarrow> wget POSTNONEWDATA w'"
      "\<forall>f. f \<notin> {POPULATEDEVICES, POSTNONEWDATA} \<longrightarrow> wget f w' = wget f w1"
    using devices_requested [of w1, unfolded s] assms(4-18) by blast
  have fr: "w_tasks w' = w_tasks w @ [Suspend DataFetchTask]" "w_menu w' = w_menu w"
      "w_malloc_fails w' = w_malloc_fails w" "w_json_fault w' = w_json_fault w" "w_events_url w' = w_events_url w"
      "w_replies w' = w_replies w"
    using d(7) s by (simp_all add: client_frame_def)
  have fl: "wget POSTNONEWDATA w'" "\<not> wget FETCHNEWDEVICESDATA w'"
      "\<forall>f. f \<notin> {FETCHNEWDEVICESDATA, POPULATEDEVICES, POSTNONEWDATA} \<longrightarrow> wget f w' = wget f w"
    using d(9,10) assms(2) unfolding g by simp_all
  show ?thesis
    using run d(1-6,8) fr fl by (intro exI [of _ w'] conjI) simp_all
qed

text \<open>
  C3. A refresh of the device list, end to end: when the database asks for it and \<open>devices.json\<close> holds only
  valid devices, one round of the processing task frees the old list, fetches the new one, switches its relays,
  clears the command, fills the device menu with the new names and lets the polling task go on; the requests are
  the fetch and the clearing, which may fail or be answered with any status and any body without news of its own.
  The flags of the refresh are off afterwards. \<open>POSTNONEWDATA\<close> is off as well, unless the
  clearing does not succeed with status 200, comes back with a body and other work is pending: then it is up again.
\<close>

theorem device_refresh:
  assumes "wget FETCHNEWDEVICESDATA w" "wget POSTNONEWDATA w"
    and "\<forall>f\<in>{FETCHNEWINFODATA, SETCONSUMEDCURRENT, SETNEWDEVICEDATA}. \<not> wget f w"
    and "w_devices w = None \<or> (\<exists>old. w_devices w = Some (map Some old) \<and> w_deviceCount w = int (length old))"
    and "\<And>n. \<not> w_malloc_fails w n" "w_response w = None" "w_json_fault w = (\<lambda>_. False)" "ds \<noteq> []"
    and "concat ds = render fmt 0 (JArray js)" "plain (JArray js)" "nest (JArray js) \<le> CJSON_NESTING_LIMIT" "js \<noteq> []"
    and "\<forall>j\<in>set js. valid_device j" "nv_healthy (w_nvs w)" "nv_ns (w_nvs w)"
    and "suffix ''/'' (w_disp_url w)" "length (w_disp_url w) < SERVER_URL_MAX_LEN" "length (w_events_url w) < SERVER_URL_MAX_LEN"
    and "strstr (w_disp_url w @ ''devices.json'') ''/newData.json'' = None" "ms_current (w_menu w) \<noteq> Submenu1"
    and "relevant (rp_events (w_replies w (length (w_requests w)))) = answer (w_disp_url w @ ''devices.json'') ds"
    and "rp = w_replies w (Suc (length (w_requests w)))" "no_news (w_events_url w @ ''newData.json'') rp"
  shows "\<exists>w' L body. L = loaded_from (w_junk w) (nv_u8 (w_nvs w)) 0 js \<and> data_processing_round junk w = Some w' \<and>
     w_devices w' = Some (map Some L) \<and> g_log (w_gpio w') = g_log (w_gpio w) @ relay_writes L \<and>
     sm_items (ms_menus (w_menu w') Submenu1) = Some (device_items (w_dev_gen w') L) \<and>
     w_requests w' = w_requests w @
       [\<lparr>rq_method = HTTP_GET, rq_url = w_disp_url w @ ''devices.json'', rq_body = None\<rparr>,
        \<lparr>rq_method = HTTP_PUT, rq_url = w_events_url w @ ''newData.json'', rq_body = Some body\<rparr>] \<and>
     cJSON_Parse body = Accept clear_document \<and>
     w_tasks w' = w_tasks w @ [Suspend DataFetchTask, Resume DataFetchTask] \<and> w_response w' = None \<and>
     \<not> wget FETCHNEWDEVICESDATA w' \<and> \<not> wget POPULATEDEVICES w' \<and>
     (wget POSTNONEWDATA w' \<longleftrightarrow> \<not> (rp_err rp = ESP_OK \<and> rp_status rp = 200) \<and> has_body rp \<and>
        (\<exists>f\<in>set pending_flags - {FETCHNEWDEVICESDATA}. wget f w))"
proof -
  obtain L where L: "L = loaded_from (w_junk w) (nv_u8 (w_nvs w)) 0 js" by simp
  obtain w1 where d: "process_devices w = Some w1" "w_devices w1 = Some (map Some L)" "w_deviceCount w1 = int (length L)"
      "w_gpio w1 = switch_relays L (w_gpio w)" "w_response w1 = None"
      "w_requests w1 = w_requests w @ [\<lparr>rq_method = HTTP_GET, rq_url = w_disp_url w @ ''devices.json'', rq_body = None\<rparr>]"
      "w_tasks w1 = w_tasks w @ [Suspend DataFetchTask]" "w_menu w1 = w_menu w" "w_malloc_fails w1 = w_malloc_fails w"
      "w_json_fault w1 = w_json_fault w" "w_events_url w1 = w_events_url w" "w_replies w1 = w_replies w"
      "wget POPULATEDEVICES w1" "wget POSTNONEWDATA w1" "\<not> wget FETCHNEWDEVICESDATA w1"
      "\<forall>f. f \<notin> {FETCHNEWDEVICESDATA, POPULATEDEVICES, POSTNONEWDATA} \<longrightarrow> wget f w1 = wget f w"
    using devices_fetched [OF assms(1,2,4,5,6,8-15) L assms(16,17,19,21)] by blast
  have i: "process_info w = Some w" "process_current w1 = Some w1" "process_set_device junk w1 = Some w1"
    using assms(3) d(16) by (simp_all add: process_info_def process_current_def process_set_device_def)
  have c: "w_json_fault w1 = (\<lambda>_. False)" "length (w_events_url w1) < SERVER_URL_MAX_LEN" "\<And>n. \<not> w_malloc_fails w1 n"
      "no_news (w_events_url w1 @ ''newData.json'') (w_replies w1 (length (w_requests w1)))" "ms_current (w_menu w1) \<noteq> Submenu1"
    using assms(5,7,18,20,22,23) d(6,8-12) by simp_all
  obtain w' body where e: "process_clear w1 = Some w'" "w_gpio w' = w_gpio w1" "w_devices w' = w_devices w1"
      "w_response w' = None"
      "sm_items (ms_menus (w_menu w') Submenu1) = Some (device_items (w_dev_gen w1) L)" "w_dev_gen w' = w_dev_gen w1"
      "w_requests w' = w_requests w1 @ [\<lparr>rq_method = HTTP_PUT, rq_url = w_events_url w1 @ ''newData.json'', rq_body = Some body\<rparr>]"
      "cJSON_Parse body = Accept clear_document" "w_tasks w' = w_tasks w1 @ [Resume DataFetchTask]"
      "wget POSTNONEWDATA w' \<longleftrightarrow> raised_again w1" "\<not> wget POPULATEDEVICES w'" "wget FETCHNEWDEVICESDATA w' \<longrightarrow> wget FETCHNEWDEVICESDATA w1"
    using clear_then_populate [OF c(1-3) d(5) c(4) d(14,13,2,3) c(5)] by blast
  have run: "data_processing_round junk w = Some w'"
    unfolding data_processing_round_def i(1) bind.bind_lunit d(1) i(2,3) e(1) ..
  have g: "wget f w1 \<longleftrightarrow> f \<noteq> FETCHNEWDEVICESDATA \<and> wget f w" if "f \<in> set pending_flags" for f
  proof -
    have "f \<noteq> POSTNONEWDATA" "f \<noteq> POPULATEDEVICES" using that by (auto simp: pending_flags_def)
    then show ?thesis using d(15,16) by (cases "f = FETCHNEWDEVICESDATA") simp_all
  qed
  then have "work_pending w1 \<longleftrightarrow> (\<exists>f\<in>set pending_flags - {FETCHNEWDEVICESDATA}. wget f w)"
    unfolding work_pending_def by auto
  moreover have "w_replies w1 (length (w_requests w1)) = rp" using assms(22) d(6,12) by simp
  ultimately have "wget POSTNONEWDATA w' \<longleftrightarrow> \<not> (rp_err rp = ESP_OK \<and> rp_status rp = 200) \<and> has_body rp \<and>
        (\<exists>f\<in>set pending_flags - {FETCHNEWDEVICESDATA}. wget f w)"
    unfolding e(10) raised_again_def cleared_def Let_def by simp
  then show ?thesis
    using L run d(2,4,6,7,11,15) e(2-9,11,12) by (intro exI [of _ w'] exI [of _ L] exI [of _ body]) (simp add: switch_relays_log)
qed

text \<open>A refresh whose clearing is refused while a command for the information is pending.\<close>

definition refresh_world :: world where
  "refresh_world = wset SETNEWINFODATA True (wset POSTNONEWDATA True (wset FETCHNEWDEVICESDATA True (boot_world
     \<lparr>w_disp_url := ''https://x/'', w_events_url := ''https://x/'',
      w_nvs := (w_nvs boot_world)\<lparr>nv_ns := True, nv_u8 := [''device-0'' \<mapsto> 23]\<rparr>,
      w_replies := (\<lambda>k. if k = 0 then echo ''https://x/devices.json'' (render True 0 (JArray [lamp])) 200
        else echo ''https://x/newData.json'' ''{}'' 401)\<rparr>)))"

theorem device_refresh_witness:
  "\<exists>w'. data_processing_round 0 refresh_world = Some w' \<and>
     w_devices w' = Some [Some \<lparr>d_name = Some ''Luz'', d_id = 0, d_pin = 23, d_state = True, d_type = ''relay''\<rparr>] \<and>
     g_log (w_gpio w') = [(23, 0)] \<and> w_tasks w' = [Suspend DataFetchTask, Resume DataFetchTask] \<and> wget POSTNONEWDATA w'"
proof -
  let ?w = refresh_world
  let ?ds = "[render True 0 (JArray [lamp])]"
  let ?rp = "echo ''https://x/newData.json'' ''{}'' 401"
  have u: "strstr (''https://x/'' @ ''devices.json'') ''/newData.json'' = None" by code_simp
  have e: "w_junk ?w = (\<lambda>_. 0)" "w_nvs ?w = (w_nvs boot_world)\<lparr>nv_ns := True, nv_u8 := [''device-0'' \<mapsto> 23]\<rparr>"
      "w_disp_url ?w = ''https://x/''" "w_events_url ?w = ''https://x/''" "w_requests ?w = []" "w_tasks ?w = []"
      "g_log (w_gpio ?w) = []" "w_devices ?w = None" "w_malloc_fails ?w = (\<lambda>_. False)" "w_response ?w = None"
      "w_json_fault ?w = (\<lambda>_. False)" "w_replies ?w 0 = echo ''https://x/devices.json'' (render True 0 (JArray [lamp])) 200"
      "w_replies ?w (Suc 0) = ?rp" "ms_current (w_menu ?w) \<noteq> Submenu1"
    by (simp_all add: refresh_world_def wset_def boot_world_def)
  have f: "wget f ?w \<longleftrightarrow> f \<in> {SETNEWINFODATA, POSTNONEWDATA, FETCHNEWDEVICESDATA}" for f
    by (auto simp: refresh_world_def) (simp_all add: boot_world_def wget_def)
  have j: "plain (JArray [lamp])" "nest (JArray [lamp]) \<le> CJSON_NESTING_LIMIT"
    by (simp_all add: lamp_def NUL_def INT_MIN_def INT_MAX_def CJSON_NESTING_LIMIT_def)
  have a: "relevant (rp_events (w_replies ?w (length (w_requests ?w)))) = answer (w_disp_url ?w @ ''devices.json'') ?ds"
      "?rp = w_replies ?w (Suc (length (w_requests ?w)))" "no_news (w_events_url ?w @ ''newData.json'') ?rp"
    using nothing_new_object(1) by (simp_all add: e)
  have "\<exists>w' L body. L = loaded_from (w_junk ?w) (nv_u8 (w_nvs ?w)) 0 [lamp] \<and> data_processing_round 0 ?w = Some w' \<and>
     w_devices w' = Some (map Some L) \<and> g_log (w_gpio w') = g_log (w_gpio ?w) @ relay_writes L \<and>
     sm_items (ms_menus (w_menu w') Submenu1) = Some (device_items (w_dev_gen w') L) \<and>
     w_requests w' = w_requests ?w @
       [\<lparr>rq_method = HTTP_GET, rq_url = w_disp_url ?w @ ''devices.json'', rq_body = None\<rparr>,
        \<lparr>rq_method = HTTP_PUT, rq_url = w_events_url ?w @ ''newData.json'', rq_body = Some body\<rparr>] \<and>
     cJSON_Parse body = Accept clear_document \<and>
     w_tasks w' = w_tasks ?w @ [Suspend DataFetchTask, Resume DataFetchTask] \<and> w_response w' = None \<and>
     \<not> wget FETCHNEWDEVICESDATA w' \<and> \<not> wget POPULATEDEVICES w' \<and>
     (wget POSTNONEWDATA w' \<longleftrightarrow> \<not> (rp_err ?rp = ESP_OK \<and> rp_status ?rp = 200) \<and> has_body ?rp \<and>
        (\<exists>f\<in>set pending_flags - {FETCHNEWDEVICESDATA}. wget f ?w))"
  proof (rule device_refresh [OF _ _ _ _ _ _ _ _ _ j _ _ _ _ _ _ _ _ _ a])
    show "concat ?ds = render True 0 (JArray [lamp])" by simp
    show "strstr (w_disp_url ?w @ ''devices.json'') ''/newData.json'' = None" using u by (simp only: e)
  qed (simp_all add: e f lamp_valid nv_healthy_def boot_world_def suffix_def SERVER_URL_MAX_LEN_def)
  moreover have "\<exists>f\<in>set pending_flags - {FETCHNEWDEVICESDATA}. wget f ?w"
    by (rule bexI [of _ SETNEWINFODATA]) (simp_all add: f pending_flags_def)
  ultimately show ?thesis by (auto simp: e lamp_valid lamp_loaded relay_writes_def)
qed

section \<open>Mixed responses\<close>

lemma object_follows: "number_ends (render f 0 (JObject ms) @ s)"
  by (cases ms) (auto simp: number_ends_def number_char_def is_digit_def split: if_splits)

lemma parsed_first:
  assumes "plain x" "nest x \<le> CJSON_NESTING_LIMIT" "plain (JObject ms)"
  shows "parsed (render f 0 x @ render g 0 (JObject ms)) = Some x"
  using assms parse_render_rest [OF assms(1,2) object_follows [of g ms "[NUL]"], of f]
    render_no_nul(1) [OF assms(1), of f 0] render_no_nul(1) [OF assms(3), of g 0]
  by (simp add: parsed_def cstr_no_nul)

lemma new_data_no_section:
  assumes "parsed r = Some json" "\<not> cJSON_IsString (cJSON_GetObjectItem (Some json) ''section'')"
  shows "wget f (new_data r w) = wget f w" "w_urlSection (new_data r w) = w_urlSection w"
  using assms by (simp_all add: new_data_def wget_def Let_def) (simp_all add: show_lines_def on_lcd_def)

text \<open>
  C22. One response buffer for all tasks: when the answer to another request (a document without a section,
  like the answer to the sign of life) arrives while the poll waits for its own, both bodies end up in the
  same buffer, the parser reads the first document only, and the command in the poll's answer is lost:
  no flag and no section is set, whatever the command is, and the buffer is freed.
\<close>

theorem mixed_responses_lose_command:
  assumes "\<And>n. \<not> w_malloc_fails w n" "w_response w = None" "\<forall>g\<in>set pending_flags. \<not> wget g w"
    and "plain other" "nest other \<le> CJSON_NESTING_LIMIT" "\<not> cJSON_IsString (cJSON_GetObjectItem (Some other) ''section'')"
    and "plain (JObject command)" "concat ds1 = render f1 0 other" "concat ds2 = render f2 0 (JObject command)"
    and "strstr (snprintf_s URL_MAX_LEN u) ''/newData.json'' \<noteq> None"
  shows "\<exists>w'. handle_events (map (\<lambda>d. HTTP_EVENT_ON_DATA False d (Some v)) ds1 @
       map (\<lambda>d. HTTP_EVENT_ON_DATA False d (Some u)) ds2 @ [HTTP_EVENT_ON_FINISH (Some u), HTTP_EVENT_ON_FINISH (Some v)]) w = Some w' \<and>
     (\<forall>f. wget f w' = wget f w) \<and> w_urlSection w' = w_urlSection w \<and> w_response w' = None"
proof -
  have ne: "ds1 \<noteq> []" "ds2 \<noteq> []"
  proof -
    obtain c t where "concat ds1 = c # t" using assms(8) render_head [OF assms(4), of f1 0] by metis
    then show "ds1 \<noteq> []" by (cases ds1) simp_all
    obtain c t where "concat ds2 = c # t" using assms(9) render_head [OF assms(7), of f2 0] by metis
    then show "ds2 \<noteq> []" by (cases ds2) simp_all
  qed
  let ?r = "concat ds1 @ concat ds2"
  let ?w1 = "set_url (Some v) (w\<lparr>w_mallocs := w_mallocs w + length ds1, w_response := Some (concat ds1)\<rparr>)"
  let ?w2 = "set_url (Some u) (?w1\<lparr>w_mallocs := w_mallocs ?w1 + length ds2, w_response := Some ?r\<rparr>)"
  have m: "\<not> w_malloc_fails ?w1 n" for n using assms(1) by (simp add: set_url_def)
  have r: "w_response ?w1 = Some (concat ds1)" by (simp add: set_url_def)
  have e: "handle_events (map (\<lambda>d. HTTP_EVENT_ON_DATA False d (Some v)) ds1 @
       map (\<lambda>d. HTTP_EVENT_ON_DATA False d (Some u)) ds2 @ evts) w = handle_events evts ?w2" for evts
    by (simp add: handle_fragments [OF assms(1)] handle_fragments [OF m] ne assms(2) r)
  have p: "parsed ?r = Some other" unfolding assms(8,9) by (rule parsed_first [OF assms(4,5,7)])
  let ?w3 = "on_finish_tail (new_data ?r (set_url (Some u) ?w2))"
  have "on_finish (Some u) ?w2 = Some ?w3"
    using assms(10) by (simp add: on_finish_def set_url_def)
  moreover have "on_finish (Some v) ?w3 = Some ?w3" by (simp add: on_finish_def)
  ultimately have h: "handle_events [HTTP_EVENT_ON_FINISH (Some u), HTTP_EVENT_ON_FINISH (Some v)] ?w2 = Some ?w3"
    by (simp add: client_event_get_handler_def)
  note n = new_data_no_section [OF p assms(6)]
  have "wget f ?w2 = wget f w" "wget f (set_url (Some u) ?w2) = wget f w" for f by (simp_all add: set_url_def)
  then have "wget f ?w3 = wget f w" for f using n(1) assms(3) by (auto simp: on_finish_tail_flags)
  moreover have "w_urlSection ?w3 = w_urlSection w" using n by (simp add: set_url_def)
  ultimately show ?thesis unfolding e h by auto
qed

theorem mixed_responses_lose_command_witness:
  "\<exists>w'. handle_events [HTTP_EVENT_ON_DATA False (render False 0 (JObject [(''status'', JTrue)])) (Some ''https://x/info.json''),
       HTTP_EVENT_ON_DATA False (render False 0 (JObject [(''section'', JString ''set/devices/0/status/true''), (''status'', JTrue)]))
         (Some ''https://x/newData.json''),
       HTTP_EVENT_ON_FINISH (Some ''https://x/newData.json''), HTTP_EVENT_ON_FINISH (Some ''https://x/info.json'')] boot_world = Some w' \<and>
     \<not> wget SETNEWDEVICEDATA w'"
proof -
  let ?o = "JObject [(''status'', JTrue)]"
  let ?c = "[(''section'', JString ''set/devices/0/status/true''), (''status'', JTrue)]"
  have "strstr (snprintf_s URL_MAX_LEN ''https://x/newData.json'') ''/newData.json'' \<noteq> None" by code_simp
  then show ?thesis
    using mixed_responses_lose_command [of boot_world ?o ?c "[render False 0 ?o]" False "[render False 0 (JObject ?c)]" False
        "''https://x/newData.json''" "''https://x/info.json''"]
    by (auto simp: boot_world_def wget_def NUL_def CJSON_NESTING_LIMIT_def same_name_def tolower_def simp del: render.simps)
qed

end
