(* ===== verification/HttpdTx.thy ===== *)
theory HttpdTx
  imports Webserver JsonString
begin

text \<open>
  The responses of the web server on the wire: \<open>components/esp_http_server/src/httpd_txrx.c\<close> from the status
  line to the chunks of a file, with sockets that take part of what they get or fail, and the operations of the
  handlers of \<open>main/webserver.c\<close> run on it. The client's reading of a chunked body is defined too, so that
  lemmas speak of what the client gets. Setting the socket option for error responses and the
  events for observers are left out; \<open>None\<close> is a call that never returns.
\<close>

section \<open>The connection\<close>

text \<open>
  What the socket answers to one call of its send function: it takes up to that many bytes, or fails with a
  negative number. \<open>tx_sends\<close> are the answers to come; when none is left the call does not return. \<open>tx_wire\<close>
  is what the client has received.
\<close>

datatype sock_answer = Accepts nat | Fails int

record http_tx =
  tx_wire :: string
  tx_sends :: "sock_answer list"
  tx_status :: string
  tx_content_type :: string
  tx_resp_hdrs :: "(string \<times> string) list"
  tx_first_chunk_sent :: bool

definition CRLF :: string where "CRLF = [CHR 0x0D, CHR 0x0A]"
definition MAX_RESP_HDRS :: nat where "MAX_RESP_HDRS = 8"
definition SCRATCH_SIZE :: nat where "SCRATCH_SIZE = 513"

abbreviation (input) ESP_ERR_HTTPD_RESP_HDR :: esp_err where "ESP_ERR_HTTPD_RESP_HDR \<equiv> 0xb005"
abbreviation (input) ESP_ERR_HTTPD_RESP_SEND :: esp_err where "ESP_ERR_HTTPD_RESP_SEND \<equiv> 0xb006"

text \<open>\<open>httpd_req_new\<close>: the defaults of a response.\<close>

definition new_response :: "sock_answer list \<Rightarrow> http_tx" where
  "new_response sends = \<lparr>tx_wire = [], tx_sends = sends, tx_status = ''200 OK'', tx_content_type = ''text/html'',
     tx_resp_hdrs = [], tx_first_chunk_sent = False\<rparr>"

section \<open>Sending\<close>

fun send_loop :: "sock_answer list \<Rightarrow> string \<Rightarrow> string \<Rightarrow> (esp_err \<times> sock_answer list \<times> string) option" where
  "send_loop answers [] wire = Some (ESP_OK, answers, wire)"
| "send_loop [] (c # cs) wire = None"
| "send_loop (Fails e # answers) (c # cs) wire = Some (ESP_FAIL, answers, wire)"
| "send_loop (Accepts n # answers) (c # cs) wire = send_loop answers (drop n (c # cs)) (wire @ take n (c # cs))"

definition httpd_send_all :: "string \<Rightarrow> http_tx \<Rightarrow> (esp_err \<times> http_tx) option" where
  "httpd_send_all buf t =
     map_option (\<lambda>(err, answers, wire). (err, t\<lparr>tx_sends := answers, tx_wire := wire\<rparr>))
       (send_loop (tx_sends t) buf (tx_wire t))"

text \<open>A sequence of sends, each followed by the early return when it fails.\<close>

fun send_parts :: "string list \<Rightarrow> http_tx \<Rightarrow> (esp_err \<times> http_tx) option" where
  "send_parts [] t = Some (ESP_OK, t)"
| "send_parts (s # ss) t =
     Option.bind (httpd_send_all s t) (\<lambda>(err, t1).
       if err \<noteq> ESP_OK then Some (ESP_ERR_HTTPD_RESP_SEND, t1) else send_parts ss t1)"

definition extra_headers :: "http_tx \<Rightarrow> string list" where
  "extra_headers t = concat (map (\<lambda>(field, value). [field, '': '', value, CRLF]) (tx_resp_hdrs t)) @ [CRLF]"

definition httpd_resp_set_hdr :: "string \<Rightarrow> string \<Rightarrow> http_tx \<Rightarrow> esp_err \<times> http_tx" where
  "httpd_resp_set_hdr field value t =
     (if MAX_RESP_HDRS \<le> length (tx_resp_hdrs t) then (ESP_ERR_HTTPD_RESP_HDR, t)
      else (ESP_OK, t\<lparr>tx_resp_hdrs := tx_resp_hdrs t @ [(field, value)]\<rparr>))"

definition httpd_resp_set_status :: "string \<Rightarrow> http_tx \<Rightarrow> http_tx" where
  "httpd_resp_set_status status t = t\<lparr>tx_status := status\<rparr>"

definition httpd_resp_set_type :: "string \<Rightarrow> http_tx \<Rightarrow> http_tx" where
  "httpd_resp_set_type mime t = t\<lparr>tx_content_type := mime\<rparr>"

definition head_start :: "http_tx \<Rightarrow> string" where
  "head_start t = ''HTTP/1.1 '' @ tx_status t @ CRLF @ ''Content-Type: '' @ tx_content_type t @ CRLF"

definition httpd_resp_send :: "string \<Rightarrow> http_tx \<Rightarrow> (esp_err \<times> http_tx) option" where
  "httpd_resp_send buf t =
     (let head = head_start t @ ''Content-Length: '' @ dec_nat (length buf) @ CRLF
      in if SCRATCH_SIZE \<le> length head then Some (ESP_ERR_HTTPD_RESP_HDR, t)
         else send_parts (head # extra_headers t @ [buf]) t)"

fun hex_nat :: "nat \<Rightarrow> string" where
  "hex_nat n = (if n < 16 then [hex_lower n] else hex_nat (n div 16) @ [hex_lower (n mod 16)])"

declare hex_nat.simps [simp del]

definition send_chunk_head :: "http_tx \<Rightarrow> (esp_err \<times> http_tx) option" where
  "send_chunk_head t =
     (if tx_first_chunk_sent t then Some (ESP_OK, t)
      else
        let head = head_start t @ ''Transfer-Encoding: chunked'' @ CRLF
        in if SCRATCH_SIZE \<le> length head then Some (ESP_ERR_HTTPD_RESP_HDR, t)
           else map_option (\<lambda>(err, t1). (err, if err = ESP_OK then t1\<lparr>tx_first_chunk_sent := True\<rparr> else t1))
                  (send_parts (head # extra_headers t) t))"

definition httpd_resp_send_chunk :: "string \<Rightarrow> http_tx \<Rightarrow> (esp_err \<times> http_tx) option" where
  "httpd_resp_send_chunk buf t =
     Option.bind (send_chunk_head t) (\<lambda>(err, t1).
       if err \<noteq> ESP_OK then Some (err, t1)
       else send_parts [snprintf_s 10 (hex_nat (length buf) @ CRLF), buf, CRLF] t1)"

text \<open>The status line and the default message of each error.\<close>

definition err_text :: "int \<Rightarrow> string \<times> string" where
  "err_text code =
     (if code = 501 then (''501 Method Not Implemented'', ''Server does not support this method'')
      else if code = 505 then (''505 Version Not Supported'', ''HTTP version not supported by server'')
      else if code = 400 then (''400 Bad Request'', ''Bad request syntax'')
      else if code = 401 then (''401 Unauthorized'', ''No permission -- see authorization schemes'')
      else if code = 403 then (''403 Forbidden'', ''Request forbidden -- authorization will not help'')
      else if code = 404 then (''404 Not Found'', ''Nothing matches the given URI'')
      else if code = 405 then (''405 Method Not Allowed'', ''Specified method is invalid for this resource'')
      else if code = 408 then (''408 Request Timeout'', ''Server closed this connection'')
      else if code = 414 then (''414 URI Too Long'', ''URI is too long'')
      else if code = 411 then (''411 Length Required'', ''Client must specify Content-Length'')
      else if code = 431 then (''431 Request Header Fields Too Large'', ''Header fields are too long'')
      else (''500 Internal Server Error'', ''Server has encountered an unexpected error''))"

definition httpd_resp_send_err :: "int \<Rightarrow> string option \<Rightarrow> http_tx \<Rightarrow> (esp_err \<times> http_tx) option" where
  "httpd_resp_send_err code usr_msg t =
     (case err_text code of (status, default_msg) \<Rightarrow>
        httpd_resp_send (case usr_msg of Some m \<Rightarrow> m | None \<Rightarrow> default_msg)
          (httpd_resp_set_type ''text/html'' (httpd_resp_set_status status t)))"

section \<open>A request\<close>

text \<open>The operations of a handler, which ignores their results.\<close>

fun run_op :: "resp_op \<Rightarrow> http_tx \<Rightarrow> http_tx option" where
  "run_op (Set_type mime) t = Some (httpd_resp_set_type mime t)"
| "run_op (Set_hdr field value) t = Some (snd (httpd_resp_set_hdr field value t))"
| "run_op (Resp_send buf) t = map_option snd (httpd_resp_send buf t)"
| "run_op (Send_chunk buf) t = map_option snd (httpd_resp_send_chunk buf t)"
| "run_op (Send_err code msg) t = map_option snd (httpd_resp_send_err code (Some msg) t)"
| "run_op Send_408 t = map_option snd (httpd_resp_send_err 408 None t)"

fun run_ops :: "resp_op list \<Rightarrow> http_tx \<Rightarrow> http_tx option" where
  "run_ops [] t = Some t"
| "run_ops (op # ops) t = Option.bind (run_op op t) (run_ops ops)"

definition serve_request ::
  "fs \<Rightarrow> web_handler httpd_data \<Rightarrow> httpd_req \<Rightarrow> sock_answer list \<Rightarrow> world \<Rightarrow> (esp_err \<times> http_tx \<times> world) option" where
  "serve_request fs hs req sends w =
     Option.bind (httpd_uri fs hs req w) (\<lambda>(err, ops, w1).
       map_option (\<lambda>t. (err, t, w1)) (run_ops ops (new_response sends)))"

section \<open>The client's side\<close>

text \<open>The body of a chunked message (RFC 9112), and what follows it.\<close>

fun read_hex :: "nat \<Rightarrow> string \<Rightarrow> nat \<times> string" where
  "read_hex acc [] = (acc, [])"
| "read_hex acc (c # cs) = (case hex_digit c of Some d \<Rightarrow> read_hex (16 * acc + d) cs | None \<Rightarrow> (acc, c # cs))"

lemma read_hex_length: "read_hex acc s = (n, r) \<Longrightarrow> length r \<le> length s"
  by (induction acc s rule: read_hex.induct) (auto split: option.splits intro: le_SucI)

function dechunk :: "string \<Rightarrow> (string \<times> string) option" where
  "dechunk s =
     (case read_hex 0 s of (n, r) \<Rightarrow>
        if length s \<le> length r \<or> take 2 r \<noteq> CRLF then None
        else let r1 = drop 2 r
             in if n = 0 then (if take 2 r1 = CRLF then Some ([], drop 2 r1) else None)
                else if length r1 < n \<or> take 2 (drop n r1) \<noteq> CRLF then None
                else map_option (\<lambda>(b, rest). (take n r1 @ b, rest)) (dechunk (drop (n + 2) r1)))"
  by pat_completeness auto
termination by (relation "measure length") auto

declare dechunk.simps [simp del]


section \<open>Sending succeeds when the socket takes everything\<close>

definition takes_all :: "sock_answer list \<Rightarrow> bool" where
  "takes_all answers \<longleftrightarrow> (\<forall>a\<in>set answers. \<exists>n. a = Accepts (Suc n))"

lemma send_loop_live:
  "takes_all answers \<Longrightarrow> length buf \<le> length answers \<Longrightarrow>
   \<exists>rest. send_loop answers buf wire = Some (ESP_OK, rest, wire @ buf) \<and> takes_all rest \<and>
     length answers \<le> length rest + length buf"
proof (induction answers buf wire rule: send_loop.induct)
  case (4 n answers c cs wire)
  then obtain k where n: "n = Suc k" by (auto simp: takes_all_def)
  have "takes_all answers" "length (drop n (c # cs)) \<le> length answers" using 4(2,3) n by (auto simp: takes_all_def)
  from 4(1) [OF this] show ?case
    by (auto simp: n)
qed (auto simp: takes_all_def)

lemma send_parts_live:
  "takes_all (tx_sends t) \<Longrightarrow> length (concat ss) \<le> length (tx_sends t) \<Longrightarrow>
   \<exists>rest. send_parts ss t = Some (ESP_OK, t\<lparr>tx_sends := rest, tx_wire := tx_wire t @ concat ss\<rparr>) \<and>
     takes_all rest \<and> length (tx_sends t) \<le> length rest + length (concat ss)"
proof (induction ss arbitrary: t)
  case Nil
  then show ?case by (intro exI [of _ "tx_sends t"]) simp
next
  case (Cons s ss)
  have "length s \<le> length (tx_sends t)" using Cons.prems(2) by simp
  from send_loop_live [OF Cons.prems(1) this, of "tx_wire t"]
  obtain r where r: "send_loop (tx_sends t) s (tx_wire t) = Some (ESP_OK, r, tx_wire t @ s)" "takes_all r"
      "length (tx_sends t) \<le> length r + length s" by blast
  let ?t = "t\<lparr>tx_sends := r, tx_wire := tx_wire t @ s\<rparr>"
  obtain r' where "send_parts ss ?t = Some (ESP_OK, ?t\<lparr>tx_sends := r', tx_wire := tx_wire ?t @ concat ss\<rparr>)" "takes_all r'"
      "length (tx_sends ?t) \<le> length r' + length (concat ss)"
    using Cons.IH [of ?t] r Cons.prems(2) by auto
  then show ?case using r by (intro exI [of _ r']) (simp add: httpd_send_all_def)
qed

text \<open>A part that the socket takes at once.\<close>

lemma send_part_once:
  assumes "s \<noteq> []" "length s \<le> n" "tx_sends t = Accepts n # answers"
  shows "httpd_send_all s t = Some (ESP_OK, t\<lparr>tx_sends := answers, tx_wire := tx_wire t @ s\<rparr>)"
proof -
  obtain c cs where s: "s = c # cs" using assms(1) by (cases s) auto
  show ?thesis using assms(2) by (simp add: httpd_send_all_def assms(3) s)
qed

lemma send_parts_once:
  "\<forall>s\<in>set ss. s \<noteq> [] \<and> length s \<le> n \<Longrightarrow> tx_sends t = replicate (length ss) (Accepts n) @ answers \<Longrightarrow>
   send_parts ss t = Some (ESP_OK, t\<lparr>tx_sends := answers, tx_wire := tx_wire t @ concat ss\<rparr>)"
proof (induction ss arbitrary: t)
  case (Cons s ss)
  then have "httpd_send_all s t = Some (ESP_OK, t\<lparr>tx_sends := replicate (length ss) (Accepts n) @ answers, tx_wire := tx_wire t @ s\<rparr>)"
    by (intro send_part_once) auto
  then show ?case using Cons.IH [of "t\<lparr>tx_sends := replicate (length ss) (Accepts n) @ answers, tx_wire := tx_wire t @ s\<rparr>"] Cons.prems(1)
    by simp
qed simp

section \<open>Chunks\<close>

definition chunk_text :: "string \<Rightarrow> string" where
  "chunk_text c = hex_nat (length c) @ CRLF @ c @ CRLF"

lemma hex_nat_length: "n < 16 ^ Suc k \<Longrightarrow> length (hex_nat n) \<le> Suc k"
proof (induction k arbitrary: n)
  case (Suc k)
  then have "n div 16 < 16 ^ Suc k" by (simp add: less_mult_imp_div_less)
  from Suc.IH [OF this] show ?case by (simp add: hex_nat.simps [of n])
qed (simp add: hex_nat.simps)

lemma read_hex_nat: "read_hex acc (hex_nat n @ s) = read_hex (acc * 16 ^ length (hex_nat n) + n) s"
proof (induction n arbitrary: acc s rule: hex_nat.induct)
  case (1 n)
  show ?case
  proof (cases "n < 16")
    case True
    then show ?thesis by (simp add: hex_nat.simps [of n] hex_digit_lower algebra_simps)
  next
    case False
    have "read_hex acc (hex_nat n @ s) = read_hex (acc * 16 ^ length (hex_nat (n div 16)) + n div 16) (hex_lower (n mod 16) # s)"
      using 1 [OF False] False by (simp add: hex_nat.simps [of n])
    also have "\<dots> = read_hex (acc * 16 ^ length (hex_nat n) + n) s"
      using False by (simp add: hex_digit_lower hex_nat.simps [of n] algebra_simps)
    finally show ?thesis .
  qed
qed

lemma hex_nat_not_Nil: "hex_nat n \<noteq> []"
  by (simp add: hex_nat.simps [of n])

lemma read_chunk_size: "read_hex 0 (hex_nat n @ CRLF @ s) = (n, CRLF @ s)"
  by (simp add: read_hex_nat CRLF_def hex_digit_def)

lemma dechunk_chunk:
  "c \<noteq> [] \<Longrightarrow> dechunk (chunk_text c @ s) = map_option (\<lambda>(b, rest). (c @ b, rest)) (dechunk s)"
  "dechunk (chunk_text [] @ s) = Some ([], s)"
  using read_chunk_size [of "length c" "c @ CRLF @ s"] read_chunk_size [of 0 "CRLF @ s"] hex_nat_not_Nil
  by (simp_all add: chunk_text_def dechunk.simps [of "hex_nat _ @ _"] CRLF_def)

lemma dechunk_pieces:
  "\<forall>c\<in>set pieces. c \<noteq> [] \<Longrightarrow> dechunk (concat (map chunk_text pieces) @ chunk_text [] @ s) = Some (concat pieces, s)"
  by (induction pieces) (simp_all add: dechunk_chunk)

lemma chunk_size_fits: "length c \<le> 1024 \<Longrightarrow> snprintf_s 10 (hex_nat (length c) @ CRLF) = hex_nat (length c) @ CRLF"
  using hex_nat_length [of "length c" 2] by (intro snprintf_s_fits) (simp add: CRLF_def)

lemma send_chunk_live:
  assumes "tx_first_chunk_sent t" "length c \<le> 1024" "takes_all (tx_sends t)" "length (chunk_text c) \<le> length (tx_sends t)"
  shows "\<exists>rest. httpd_resp_send_chunk c t = Some (ESP_OK, t\<lparr>tx_sends := rest, tx_wire := tx_wire t @ chunk_text c\<rparr>) \<and>
     takes_all rest \<and> length (tx_sends t) \<le> length rest + length (chunk_text c)"
proof -
  have c: "concat [hex_nat (length c) @ CRLF, c, CRLF] = chunk_text c" by (simp add: chunk_text_def)
  show ?thesis
    using send_parts_live [OF assms(3), of "[hex_nat (length c) @ CRLF, c, CRLF]"] assms(4)
    unfolding c httpd_resp_send_chunk_def send_chunk_head_def if_P [OF assms(1)] bind.bind_lunit chunk_size_fits [OF assms(2)]
    by simp
qed

lemma run_chunks_live:
  "tx_first_chunk_sent t \<Longrightarrow> \<forall>c\<in>set pieces. length c \<le> 1024 \<Longrightarrow> takes_all (tx_sends t) \<Longrightarrow>
   length (concat (map chunk_text pieces)) \<le> length (tx_sends t) \<Longrightarrow>
   \<exists>rest. run_ops (map Send_chunk pieces) t = Some (t\<lparr>tx_sends := rest, tx_wire := tx_wire t @ concat (map chunk_text pieces)\<rparr>)"
proof (induction pieces arbitrary: t)
  case Nil
  then show ?case by (intro exI [of _ "tx_sends t"]) simp
next
  case (Cons c pieces)
  have "length c \<le> 1024" "length (chunk_text c) \<le> length (tx_sends t)" using Cons.prems(2,4) by simp_all
  from send_chunk_live [OF Cons.prems(1) this(1) Cons.prems(3) this(2)]
  obtain r where r: "httpd_resp_send_chunk c t = Some (ESP_OK, t\<lparr>tx_sends := r, tx_wire := tx_wire t @ chunk_text c\<rparr>)"
      "takes_all r" "length (tx_sends t) \<le> length r + length (chunk_text c)" by blast
  let ?t = "t\<lparr>tx_sends := r, tx_wire := tx_wire t @ chunk_text c\<rparr>"
  obtain r' where "run_ops (map Send_chunk pieces) ?t =
      Some (?t\<lparr>tx_sends := r', tx_wire := tx_wire ?t @ concat (map chunk_text pieces)\<rparr>)"
    using Cons.IH [of ?t] Cons.prems r by auto
  then show ?case using r(1) by (intro exI [of _ r']) simp
qed

lemma send_chunk_head_live:
  assumes "\<not> tx_first_chunk_sent t" "length (head_start t) + 28 < SCRATCH_SIZE" "takes_all (tx_sends t)"
    and "length (head_start t) + 28 + length (concat (extra_headers t)) \<le> length (tx_sends t)"
  shows "\<exists>rest. send_chunk_head t = Some (ESP_OK, t\<lparr>tx_sends := rest, tx_first_chunk_sent := True,
       tx_wire := tx_wire t @ head_start t @ ''Transfer-Encoding: chunked'' @ CRLF @ concat (extra_headers t)\<rparr>) \<and>
     takes_all rest \<and> length (tx_sends t) \<le> length rest + (length (head_start t) + 28 + length (concat (extra_headers t)))"
proof -
  let ?head = "head_start t @ ''Transfer-Encoding: chunked'' @ CRLF"
  have h: "length ?head = length (head_start t) + 28" by (simp add: CRLF_def)
  have l: "length (concat (?head # extra_headers t)) = length (head_start t) + 28 + length (concat (extra_headers t))"
    using h by simp
  have n: "\<not> SCRATCH_SIZE \<le> length ?head" using assms(2) h by simp
  obtain rest where r: "send_parts (?head # extra_headers t) t =
      Some (ESP_OK, t\<lparr>tx_sends := rest, tx_wire := tx_wire t @ concat (?head # extra_headers t)\<rparr>)"
      "takes_all rest" "length (tx_sends t) \<le> length rest + length (concat (?head # extra_headers t))"
    using send_parts_live [OF assms(3), of "?head # extra_headers t"] assms(4) l by auto
  have "send_chunk_head t = Some (ESP_OK, t\<lparr>tx_sends := rest, tx_first_chunk_sent := True,
       tx_wire := tx_wire t @ concat (?head # extra_headers t)\<rparr>)"
    unfolding send_chunk_head_def if_not_P [OF assms(1)] Let_def if_not_P [OF n] r(1) by simp
  then show ?thesis using r(2,3) unfolding l by (intro exI [of _ rest]) simp
qed

lemma chunk_after_head:
  assumes "send_chunk_head t = Some (ESP_OK, t1)" "tx_first_chunk_sent t1"
  shows "run_ops (Send_chunk c # ops) t = run_ops (Send_chunk c # ops) t1"
  using assms by (simp add: httpd_resp_send_chunk_def send_chunk_head_def [of t1])

lemma chunk_text_length: "c \<noteq> [] \<Longrightarrow> length c \<le> 1024 \<Longrightarrow> length (chunk_text c) \<le> 8 * length c"
  using hex_nat_length [of "length c" 2] by (cases c) (auto simp: chunk_text_def CRLF_def)

lemma chunk_texts_length:
  "\<forall>c\<in>set pieces. c \<noteq> [] \<and> length c \<le> 1024 \<Longrightarrow> length (concat (map chunk_text pieces)) \<le> 8 * length (concat pieces)"
proof (induction pieces)
  case (Cons c pieces)
  then show ?case using chunk_text_length [of c] by (simp del: length_concat)
qed simp

lemma last_chunk_text: "chunk_text [] = ''0'' @ CRLF @ CRLF"
  by (simp add: chunk_text_def hex_nat.simps hex_lower_def char_of_def bit_0)

section \<open>A file on the wire\<close>

definition chunked_head :: "string \<Rightarrow> string" where
  "chunked_head mime = ''HTTP/1.1 200 OK'' @ CRLF @ ''Content-Type: '' @ mime @ CRLF @ ''Transfer-Encoding: chunked'' @ CRLF @ CRLF"

lemma mime_type_length: "length (mime_type f) \<le> 22"
  by (simp add: mime_type_def split: option.split)

definition typed_response :: "string \<Rightarrow> sock_answer list \<Rightarrow> http_tx" where
  "typed_response mime sends = (new_response sends)\<lparr>tx_content_type := mime\<rparr>"

lemma typed_response_simps [simp]:
  "run_ops (Set_type mime # ops) (new_response sends) = run_ops ops (typed_response mime sends)"
  "httpd_resp_set_type mime (new_response sends) = typed_response mime sends"
  "\<not> tx_first_chunk_sent (typed_response mime sends)" "tx_sends (typed_response mime sends) = sends"
  "tx_wire (typed_response mime sends) = []" "extra_headers (typed_response mime sends) = [CRLF]"
  "length (head_start (typed_response mime sends)) = 33 + length mime"
  by (simp_all add: typed_response_def new_response_def httpd_resp_set_type_def extra_headers_def head_start_def CRLF_def)

lemma typed_response_head:
  "head_start (typed_response mime sends) @ ''Transfer-Encoding: chunked'' @ CRLF @ CRLF = chunked_head mime"
  by (simp add: typed_response_def new_response_def head_start_def chunked_head_def)

lemma file_body_sent:
  assumes "\<forall>c\<in>set pieces. c \<noteq> [] \<and> length c \<le> 1024" "takes_all sends" "length mime \<le> 22"
    and "100 + 8 * length (concat pieces) \<le> length sends"
  shows "\<exists>t. run_ops (Set_type mime # map Send_chunk pieces @ [Send_chunk []]) (new_response sends) = Some t \<and>
     tx_wire t = chunked_head mime @ concat (map chunk_text pieces) @ chunk_text []"
proof -
  let ?t = "typed_response mime sends"
  let ?n = "length (head_start ?t) + 28 + length (concat (extra_headers ?t))"
  have n: "?n = 63 + length mime" by (simp add: CRLF_def)
  have fit: "length (head_start ?t) + 28 < SCRATCH_SIZE" "takes_all (tx_sends ?t)" "?n \<le> length (tx_sends ?t)"
    using assms(2,3,4) n by (simp_all add: SCRATCH_SIZE_def del: length_concat)
  from send_chunk_head_live [OF _ fit]
  obtain rest where r: "send_chunk_head ?t = Some (ESP_OK, ?t\<lparr>tx_sends := rest, tx_first_chunk_sent := True,
       tx_wire := chunked_head mime\<rparr>)" "takes_all rest" "length sends \<le> length rest + ?n"
    using typed_response_head by auto
  let ?t1 = "?t\<lparr>tx_sends := rest, tx_first_chunk_sent := True, tx_wire := chunked_head mime\<rparr>"
  let ?all = "pieces @ [[]]"
  have "length (concat (map chunk_text ?all)) \<le> 8 * length (concat pieces) + 5"
    using chunk_texts_length [OF assms(1)] by (simp add: last_chunk_text CRLF_def del: length_concat)
  then have room: "length (concat (map chunk_text ?all)) \<le> length (tx_sends ?t1)"
    using r(3) assms(3,4) n by simp
  have "tx_first_chunk_sent ?t1" "\<forall>c\<in>set ?all. length c \<le> 1024" "takes_all (tx_sends ?t1)" using assms(1) r(2) by auto
  from run_chunks_live [OF this room]
  obtain rest' where run: "run_ops (map Send_chunk ?all) ?t1 =
      Some (?t1\<lparr>tx_sends := rest', tx_wire := tx_wire ?t1 @ concat (map chunk_text ?all)\<rparr>)" by blast
  obtain c ops where ops: "map Send_chunk ?all = Send_chunk c # ops" by (cases pieces) auto
  have "run_ops (map Send_chunk ?all) ?t = run_ops (map Send_chunk ?all) ?t1"
    unfolding ops by (rule chunk_after_head [OF r(1)]) simp
  then show ?thesis using run by simp
qed

text \<open>
  C24. What the client of \<open>GET /file\<close> gets, however the socket splits the sends: the header with the type of
  the file and a chunked body that decodes to exactly the stored file and ends there.
\<close>

theorem file_on_the_wire:
  assumes "start_webserver use_ssl True True = Some hs" "hr_path req = ''/file''" "hr_method req = METHOD_GET"
    and "hr_query req = Some (query_of kvs)" "query_ok kvs" "length (query_of kvs) < 128"
    and "query_lookup kvs ''file'' = Some file" "\<not> w_malloc_fails w (w_mallocs w)"
    and "fs (''/spiffs/'' @ file) = Some content" "takes_all sends" "100 + 8 * length content \<le> length sends"
  shows "\<exists>t w' body. serve_request fs hs req sends w = Some (ESP_OK, t, w') \<and>
     tx_wire t = chunked_head (mime_type (''/spiffs/'' @ file)) @ body \<and> dechunk body = Some (content, [])"
proof -
  let ?mime = "mime_type (''/spiffs/'' @ file)"
  obtain pieces where c: "chunks content = map Send_chunk pieces" and p: "concat pieces = content" "\<forall>c\<in>set pieces. c \<noteq> [] \<and> length c \<le> 1024"
    using chunks_spec by blast
  obtain t where "run_ops (Set_type ?mime # map Send_chunk pieces @ [Send_chunk []]) (new_response sends) = Some t"
      "tx_wire t = chunked_head ?mime @ concat (map chunk_text pieces) @ chunk_text []"
    using file_body_sent [OF p(2) assms(10) mime_type_length] assms(11) p(1) by blast
  moreover have "dechunk (concat (map chunk_text pieces) @ chunk_text []) = Some (content, [])"
    using dechunk_pieces [of pieces "[]"] p by simp
  ultimately show ?thesis
    unfolding serve_request_def file_request [OF assms(1-8)] assms(9) option.case bind.bind_lunit c by (auto simp del: run_ops.simps)
qed

theorem file_on_the_wire_witness:
  "\<exists>t w' body. serve_request [''/spiffs/a.js'' \<mapsto> ''x=1;''] (web_data False) (get_req ''/file'' (Some ''file=a.js''))
       (replicate 140 (Accepts 1)) boot_world = Some (ESP_OK, t, w') \<and>
     tx_wire t = chunked_head (mime_type ''/spiffs/a.js'') @ body \<and> dechunk body = Some (''x=1;'', [])"
proof -
  have "\<exists>t w' body. serve_request [''/spiffs/a.js'' \<mapsto> ''x=1;''] (web_data False) (get_req ''/file'' (Some ''file=a.js''))
       (replicate 140 (Accepts 1)) boot_world = Some (ESP_OK, t, w') \<and>
     tx_wire t = chunked_head (mime_type (''/spiffs/'' @ ''a.js'')) @ body \<and> dechunk body = Some (''x=1;'', [])"
    by (rule file_on_the_wire [OF start_webserver_data, where kvs = "[(''file'', ''a.js'')]"])
      (simp_all add: get_req_def query_ok_def query_lookup_def boot_world_def takes_all_def)
  then show ?thesis by simp
qed

section \<open>A send that fails\<close>

lemma send_first_chunk_once:
  assumes "length mime \<le> 22" "c \<noteq> []" "length c \<le> 1024"
  shows "httpd_resp_send_chunk c (typed_response mime (replicate 5 (Accepts 1024) @ answers)) =
     Some (ESP_OK, (typed_response mime answers)\<lparr>tx_first_chunk_sent := True, tx_wire := chunked_head mime @ chunk_text c\<rparr>)"
proof -
  let ?t = "typed_response mime (replicate 5 (Accepts 1024) @ answers)"
  let ?head = "head_start ?t @ ''Transfer-Encoding: chunked'' @ CRLF"
  let ?t1 = "?t\<lparr>tx_sends := replicate 3 (Accepts 1024) @ answers, tx_wire := chunked_head mime\<rparr>"
  have h: "length ?head = 61 + length mime" by (simp add: CRLF_def)
  have n: "\<not> SCRATCH_SIZE \<le> length ?head" using h assms(1) by (simp add: SCRATCH_SIZE_def)
  have "\<forall>s\<in>set [?head, CRLF]. s \<noteq> [] \<and> length s \<le> 1024" using h assms(1) by (auto simp: CRLF_def)
  from send_parts_once [OF this, of ?t "replicate 3 (Accepts 1024) @ answers"]
  have "send_parts (?head # extra_headers ?t) ?t = Some (ESP_OK, ?t1)"
    using typed_response_head [of mime "replicate 5 (Accepts 1024) @ answers"] by (simp add: numeral_eq_Suc)
  then have head: "send_chunk_head ?t = Some (ESP_OK, ?t1\<lparr>tx_first_chunk_sent := True\<rparr>)"
    unfolding send_chunk_head_def Let_def if_not_P [OF n] by simp
  let ?t2 = "?t1\<lparr>tx_first_chunk_sent := True\<rparr>"
  have "\<forall>s\<in>set [hex_nat (length c) @ CRLF, c, CRLF]. s \<noteq> [] \<and> length s \<le> 1024"
    using assms(2,3) hex_nat_length [of "length c" 2] by (auto simp: CRLF_def)
  from send_parts_once [OF this, of ?t2 answers]
  have "send_parts [hex_nat (length c) @ CRLF, c, CRLF] ?t2 =
      Some (ESP_OK, ?t2\<lparr>tx_sends := answers, tx_wire := chunked_head mime @ chunk_text c\<rparr>)"
    by (simp add: numeral_eq_Suc chunk_text_def)
  then show ?thesis
    unfolding httpd_resp_send_chunk_def head bind.bind_lunit prod.case chunk_size_fits [OF assms(3)]
    by (simp add: typed_response_def new_response_def)
qed

text \<open>A chunk whose first send fails leaves no trace.\<close>

lemma send_chunk_fails:
  assumes "tx_first_chunk_sent t" "tx_sends t = Fails e # answers" "length c \<le> 1024"
  shows "httpd_resp_send_chunk c t = Some (ESP_ERR_HTTPD_RESP_SEND, t\<lparr>tx_sends := answers\<rparr>)"
proof -
  obtain x xs where "hex_nat (length c) @ CRLF = x # xs" using hex_nat_not_Nil by (metis append_is_Nil_conv list.exhaust)
  then have "httpd_send_all (hex_nat (length c) @ CRLF) t = Some (ESP_FAIL, t\<lparr>tx_sends := answers\<rparr>)"
    by (simp add: httpd_send_all_def assms(2))
  then show ?thesis
    using assms(1) by (simp add: httpd_resp_send_chunk_def send_chunk_head_def chunk_size_fits [OF assms(3)])
qed

text \<open>
  C25. A send that fails is not noticed: the file handlers ignore the results of \<open>httpd_resp_send_chunk\<close>. When
  the send of the size of the second piece fails once (a timeout, say) and the socket works again afterwards,
  the piece is left out, the client gets a well-formed response with a hole in the file, the
  handler returns success and the connection stays open.
\<close>

theorem lost_chunk_unnoticed:
  assumes "start_webserver use_ssl True True = Some hs" "hr_path req = ''/file''" "hr_method req = METHOD_GET"
    and "hr_query req = Some (query_of kvs)" "query_ok kvs" "length (query_of kvs) < 128"
    and "query_lookup kvs ''file'' = Some file" "\<not> w_malloc_fails w (w_mallocs w)"
    and "fs (''/spiffs/'' @ file) = Some content" "1024 < length content"
    and "takes_all answers" "5 + 8 * length content \<le> length answers"
  shows "\<exists>t w' body. serve_request fs hs req (replicate 5 (Accepts 1024) @ Fails e # answers) w = Some (ESP_OK, t, w') \<and>
     tx_wire t = chunked_head (mime_type (''/spiffs/'' @ file)) @ body \<and>
     dechunk body = Some (take 1024 content @ drop 2048 content, [])"
proof -
  define mime where m: "mime = mime_type (''/spiffs/'' @ file)"
  let ?c1 = "take 1024 content" and ?c2 = "take 1024 (drop 1024 content)"
  let ?sends = "replicate 5 (Accepts 1024) @ Fails e # answers"
  obtain pieces where c: "chunks (drop 2048 content) = map Send_chunk pieces"
      and p: "concat pieces = drop 2048 content" "\<forall>c\<in>set pieces. c \<noteq> [] \<and> length c \<le> 1024"
    using chunks_spec by blast
  have ne: "content \<noteq> []" "drop 1024 content \<noteq> []" "?c1 \<noteq> []" "length ?c1 \<le> 1024" "length ?c2 \<le> 1024"
    using assms(10) by auto
  have ops: "chunks content = Send_chunk ?c1 # Send_chunk ?c2 # map Send_chunk pieces"
    using ne(1,2) c by (simp add: chunks.simps [of content] chunks.simps [of "drop 1024 content"])
  let ?t1 = "(typed_response mime (Fails e # answers))\<lparr>tx_first_chunk_sent := True, tx_wire := chunked_head mime @ chunk_text ?c1\<rparr>"
  let ?t2 = "?t1\<lparr>tx_sends := answers\<rparr>" and ?all = "pieces @ [[]]"
  have 1: "run_op (Send_chunk ?c1) (typed_response mime ?sends) = Some ?t1"
    using send_first_chunk_once [OF _ ne(3,4), of mime "Fails e # answers"] mime_type_length m by simp
  have 2: "run_op (Send_chunk ?c2) ?t1 = Some ?t2"
    using send_chunk_fails [of ?t1 e answers, OF _ _ ne(5)] by simp
  have "length (concat (map chunk_text ?all)) \<le> 8 * length (concat pieces) + 5"
    using chunk_texts_length [OF p(2)] by (simp add: last_chunk_text CRLF_def del: length_concat)
  then have "length (concat (map chunk_text ?all)) \<le> length (tx_sends ?t2)" using assms(12) p(1) by simp
  moreover have "tx_first_chunk_sent ?t2" "\<forall>c\<in>set ?all. length c \<le> 1024" "takes_all (tx_sends ?t2)" using p(2) assms(11) by auto
  ultimately obtain rest where 3: "run_ops (map Send_chunk ?all) ?t2 =
      Some (?t2\<lparr>tx_sends := rest, tx_wire := tx_wire ?t2 @ concat (map chunk_text ?all)\<rparr>)"
    using run_chunks_live by blast
  have "dechunk (concat (map chunk_text (?c1 # pieces)) @ chunk_text [] @ []) = Some (concat (?c1 # pieces), [])"
    by (rule dechunk_pieces) (use ne(3) p(2) in auto)
  then have "dechunk (chunk_text ?c1 @ concat (map chunk_text ?all)) = Some (?c1 @ drop 2048 content, [])" using p(1) by simp
  moreover have "run_ops (Set_type mime # chunks content @ [Send_chunk []]) (new_response ?sends) =
      Some (?t2\<lparr>tx_sends := rest, tx_wire := chunked_head mime @ chunk_text ?c1 @ concat (map chunk_text ?all)\<rparr>)"
    using 3 by (simp only: ops append_Cons run_ops.simps(2) run_op.simps(1) typed_response_simps(2) bind.bind_lunit 1 2) simp
  ultimately show ?thesis
    unfolding serve_request_def file_request [OF assms(1-8)] assms(9) option.case bind.bind_lunit m [symmetric] by (auto simp del: run_ops.simps)
qed

theorem lost_chunk_unnoticed_witness:
  "\<exists>t w' body. serve_request [''/spiffs/a.js'' \<mapsto> replicate 1500 (CHR ''a'')] (web_data False) (get_req ''/file'' (Some ''file=a.js''))
       (replicate 5 (Accepts 1024) @ Fails (- 3) # replicate 13000 (Accepts 1)) boot_world = Some (ESP_OK, t, w') \<and>
     tx_wire t = chunked_head (mime_type ''/spiffs/a.js'') @ body \<and> dechunk body = Some (replicate 1024 (CHR ''a''), [])"
proof -
  have "\<exists>t w' body. serve_request [''/spiffs/a.js'' \<mapsto> replicate 1500 (CHR ''a'')] (web_data False) (get_req ''/file'' (Some ''file=a.js''))
       (replicate 5 (Accepts 1024) @ Fails (- 3) # replicate 13000 (Accepts 1)) boot_world = Some (ESP_OK, t, w') \<and>
     tx_wire t = chunked_head (mime_type (''/spiffs/'' @ ''a.js'')) @ body \<and>
     dechunk body = Some (take 1024 (replicate 1500 (CHR ''a'')) @ drop 2048 (replicate 1500 (CHR ''a'')), [])"
    by (rule lost_chunk_unnoticed [OF start_webserver_data, where kvs = "[(''file'', ''a.js'')]"])
      (simp_all add: get_req_def query_ok_def query_lookup_def boot_world_def takes_all_def)
  then show ?thesis by (simp add: min_def)
qed

end
