(* ===== verification/HttpdRx.thy ===== *)
theory HttpdRx
  imports Webserver
begin

text \<open>
  The body of a request: the receiving half of \<open>components/esp_http_server/src/httpd_txrx.c\<close> with the bytes the
  parser has put back, \<open>httpd_req_delete\<close> of \<open>httpd_parse.c\<close>, and what the POST handler of
  \<open>main/webserver.c\<close> makes of it. \<open>None\<close> is a call that never returns; for the handler it is undefined
  behaviour.
\<close>

section \<open>The session\<close>

text \<open>
  What a call of the receive function of the socket gives: bytes (no byte when the client has closed the connection),
  or a negative number. A call takes what it asked for at most; what it leaves is given to the next call.
  When no answer is left the call does not return.
\<close>

datatype recv_answer = Gives string | Recv_fails int

record http_rx =
  rx_pending :: string
  rx_remaining :: nat
  rx_recvs :: "recv_answer list"

definition PARSER_BLOCK_SIZE :: nat where "PARSER_BLOCK_SIZE = 128"
definition PURGE_BUF_LEN :: nat where "PURGE_BUF_LEN = 32"

abbreviation (input) HTTPD_SOCK_ERR_TIMEOUT :: int where "HTTPD_SOCK_ERR_TIMEOUT \<equiv> - 3"

fun recv_fn :: "nat \<Rightarrow> recv_answer list \<Rightarrow> (int \<times> string \<times> recv_answer list) option" where
  "recv_fn n [] = None"
| "recv_fn n (Recv_fails e # answers) = Some (e, [], answers)"
| "recv_fn n (Gives d # answers) =
     Some (int (length (take n d)), take n d, if length d \<le> n then answers else Gives (drop n d) # answers)"

section \<open>Receiving\<close>

definition httpd_recv_pending :: "nat \<Rightarrow> http_rx \<Rightarrow> string \<times> http_rx" where
  "httpd_recv_pending buf_len rx = (take buf_len (rx_pending rx), rx\<lparr>rx_pending := drop buf_len (rx_pending rx)\<rparr>)"

text \<open>The results are the return value, the bytes that were stored, and the session.\<close>

definition httpd_recv_with_opt :: "nat \<Rightarrow> bool \<Rightarrow> http_rx \<Rightarrow> (int \<times> string \<times> http_rx) option" where
  "httpd_recv_with_opt buf_len halt_after_pending rx =
     (case (if rx_pending rx \<noteq> [] then httpd_recv_pending buf_len rx else ([], rx)) of (stored, rx1) \<Rightarrow>
        if rx_pending rx \<noteq> [] \<and> (buf_len - length stored = 0 \<or> halt_after_pending)
        then Some (int (length stored), stored, rx1)
        else
          map_option (\<lambda>(ret, d, answers).
              let rx2 = rx1\<lparr>rx_recvs := answers\<rparr>
              in if ret < 0 then
                   if ret = HTTPD_SOCK_ERR_TIMEOUT \<and> length stored \<noteq> 0 then (int (length stored), stored, rx2)
                   else (ret, stored, rx2)
                 else (ret + int (length stored), stored @ d, rx2))
            (recv_fn (buf_len - length stored) (rx_recvs rx1)))"

definition httpd_recv :: "nat \<Rightarrow> http_rx \<Rightarrow> (int \<times> string \<times> http_rx) option" where
  "httpd_recv buf_len rx = httpd_recv_with_opt buf_len False rx"

definition httpd_unrecv :: "string \<Rightarrow> http_rx \<Rightarrow> nat \<times> http_rx" where
  "httpd_unrecv buf rx = (min PARSER_BLOCK_SIZE (length buf), rx\<lparr>rx_pending := take PARSER_BLOCK_SIZE buf\<rparr>)"

definition httpd_req_recv :: "nat \<Rightarrow> http_rx \<Rightarrow> (int \<times> string \<times> http_rx) option" where
  "httpd_req_recv buf_len rx =
     (let n = min buf_len (rx_remaining rx)
      in if n = 0 then Some (0, [], rx)
         else map_option (\<lambda>(ret, d, rx1).
                (ret, d, if ret < 0 then rx1 else rx1\<lparr>rx_remaining := rx_remaining rx1 - nat ret\<rparr>))
              (httpd_recv n rx))"

lemma recv_remaining: "httpd_recv n rx = Some (ret, d, rx1) \<Longrightarrow> rx_remaining rx1 = rx_remaining rx"
  by (auto simp: httpd_recv_def httpd_recv_with_opt_def httpd_recv_pending_def Let_def split: if_splits)

lemma req_recv_less:
  "httpd_req_recv n rx = Some (ret, d, rx1) \<Longrightarrow> 0 < ret \<Longrightarrow> rx_remaining rx \<noteq> 0 \<Longrightarrow> rx_remaining rx1 < rx_remaining rx"
  by (auto simp: httpd_req_recv_def Let_def split: if_splits dest: recv_remaining)

text \<open>What a handler has left of the body is read and dropped.\<close>

function httpd_req_delete :: "http_rx \<Rightarrow> (esp_err \<times> http_rx) option" where
  "httpd_req_delete rx =
     (if rx_remaining rx = 0 then Some (ESP_OK, rx)
      else (case httpd_req_recv (min PURGE_BUF_LEN (rx_remaining rx)) rx of
              None \<Rightarrow> None
            | Some (recv_len, d, rx1) \<Rightarrow> if recv_len \<le> 0 then Some (ESP_FAIL, rx1) else httpd_req_delete rx1))"
  by pat_completeness auto
termination by (relation "measure rx_remaining") (auto dest: req_recv_less)

declare httpd_req_delete.simps [simp del]

section \<open>The POST handler\<close>

text \<open>The buffer of \<open>server_post_handler\<close> has 100 bytes; the request is not longer than the body.\<close>

definition post_receive :: "httpd_req \<Rightarrow> http_rx \<Rightarrow> (httpd_req \<times> http_rx) option" where
  "post_receive req rx =
     map_option (\<lambda>(ret, d, rx1). (req\<lparr>hr_recv := (ret, d)\<rparr>, rx1)) (httpd_req_recv (min (rx_remaining rx) 100) rx)"

section \<open>When the client sends all it announced\<close>

definition stream :: "http_rx \<Rightarrow> string" where
  "stream rx = rx_pending rx @ concat (map (\<lambda>a. case a of Gives d \<Rightarrow> d | Recv_fails e \<Rightarrow> []) (rx_recvs rx))"

definition gives_all :: "http_rx \<Rightarrow> bool" where
  "gives_all rx \<longleftrightarrow> (\<forall>a\<in>set (rx_recvs rx). \<exists>c d. a = Gives (c # d))"

lemma req_recv_live:
  assumes "gives_all rx" "0 < n" "0 < rx_remaining rx" "rx_remaining rx \<le> length (stream rx)"
  shows "\<exists>d rx1. httpd_req_recv n rx = Some (int (length d), d, rx1) \<and> d \<noteq> [] \<and> length d \<le> min n (rx_remaining rx) \<and>
     stream rx = d @ stream rx1 \<and> rx_remaining rx1 = rx_remaining rx - length d \<and> gives_all rx1"
proof -
  let ?n = "min n (rx_remaining rx)" and ?p = "rx_pending rx"
  show ?thesis
  proof (cases "?n \<le> length ?p")
    case True
    define k where "k = ?n"
    have k: "0 < k" "k \<le> length ?p" "min n (rx_remaining rx) = k" using True assms(2,3) by (simp_all add: k_def)
    let ?rx1 = "rx\<lparr>rx_pending := drop k ?p, rx_remaining := rx_remaining rx - k\<rparr>"
    have "?p \<noteq> []" "length (take k ?p) = k" using k(1,2) by auto
    then have "httpd_recv k rx = Some (int k, take k ?p, rx\<lparr>rx_pending := drop k ?p\<rparr>)"
      by (simp add: httpd_recv_def httpd_recv_with_opt_def httpd_recv_pending_def)
    then have "httpd_req_recv n rx = Some (int k, take k ?p, ?rx1)"
      using k(1) unfolding httpd_req_recv_def Let_def k(3) by simp
    moreover have "stream rx = take k ?p @ stream ?rx1" by (simp add: stream_def)
    moreover have "gives_all ?rx1" using assms(1) by (simp add: gives_all_def)
    moreover have "length (take k ?p) = k" "take k ?p \<noteq> []" using k(1,2) by auto
    ultimately show ?thesis unfolding k(3) by (intro exI [of _ "take k ?p"] exI [of _ ?rx1]) simp
  next
    case False
    then have "rx_recvs rx \<noteq> []" using assms(4) by (auto simp: stream_def)
    then obtain c e as where r: "rx_recvs rx = Gives (c # e) # as" using assms(1)
      by (cases "rx_recvs rx") (auto simp: gives_all_def)
    define k where "k = ?n"
    define m where "m = k - length ?p"
    have k: "0 < k" "0 < m" "min n (rx_remaining rx) = k" using False assms(2,3) unfolding k_def m_def by arith+
    let ?b = "c # e"
    let ?as = "if length ?b \<le> m then as else Gives (drop m ?b) # as"
    let ?d = "?p @ take m ?b"
    let ?rx1 = "rx\<lparr>rx_pending := [], rx_recvs := ?as, rx_remaining := rx_remaining rx - length ?d\<rparr>"
    have d: "?d \<noteq> []" "length ?d \<le> k" "take k ?p = ?p" "drop k ?p = []" "k - length ?p = m" using k(2) by (auto simp: m_def)
    have "httpd_recv k rx = Some (int (length ?d), ?d, rx\<lparr>rx_pending := [], rx_recvs := ?as\<rparr>)"
    proof (cases "?p = []")
      case True
      have e: "k = m" "rx\<lparr>rx_pending := []\<rparr> = rx" using True d(5) by (simp, cases rx, simp)
      have "httpd_recv k rx = Some (int (length (take m ?b)), take m ?b, rx\<lparr>rx_recvs := ?as\<rparr>)"
        unfolding httpd_recv_def httpd_recv_with_opt_def e(1) by (simp add: True r)
      then show ?thesis using e(2) True by simp
    next
      case nonempty: False
      have z: "\<not> (k - length ?p = 0)" using k(2) d(5) by simp
      show ?thesis
        unfolding httpd_recv_def httpd_recv_with_opt_def httpd_recv_pending_def if_P [OF nonempty] prod.case d(3,4)
        using z d(5) by (simp add: r)
    qed
    then have "httpd_req_recv n rx = Some (int (length ?d), ?d, ?rx1)"
      using k(1) unfolding httpd_req_recv_def Let_def k(3) by simp
    moreover have "stream rx = ?d @ stream ?rx1" by (simp add: stream_def r)
    moreover have "gives_all ?rx1"
    proof -
      have "\<exists>x y. drop m ?b = x # y" if "\<not> length ?b \<le> m" using that by (cases "drop m ?b") simp_all
      then show ?thesis using assms(1) by (auto simp: gives_all_def r)
    qed
    ultimately show ?thesis using d(1,2) unfolding k(3) by (intro exI [of _ ?d] exI [of _ ?rx1]) simp
  qed
qed

lemma purge_live:
  "gives_all rx \<Longrightarrow> rx_remaining rx \<le> length (stream rx) \<Longrightarrow>
   \<exists>rx1. httpd_req_delete rx = Some (ESP_OK, rx1) \<and> stream rx1 = drop (rx_remaining rx) (stream rx) \<and> rx_remaining rx1 = 0 \<and> gives_all rx1"
proof (induction "rx_remaining rx" arbitrary: rx rule: less_induct)
  case less
  show ?case
  proof (cases "rx_remaining rx = 0")
    case True
    then show ?thesis using less.prems by (simp add: httpd_req_delete.simps [of rx])
  next
    case False
    have b: "0 < min PURGE_BUF_LEN (rx_remaining rx)" "0 < rx_remaining rx" using False by (simp_all add: PURGE_BUF_LEN_def)
    obtain d rx1 where r: "httpd_req_recv (min PURGE_BUF_LEN (rx_remaining rx)) rx = Some (int (length d), d, rx1)" "d \<noteq> []"
        "length d \<le> min (min PURGE_BUF_LEN (rx_remaining rx)) (rx_remaining rx)" "stream rx = d @ stream rx1"
        "rx_remaining rx1 = rx_remaining rx - length d" "gives_all rx1"
      using req_recv_live [OF less.prems(1) b less.prems(2)] by blast
    have l: "0 < length d" "length d \<le> rx_remaining rx" using r(2,3) by simp_all
    have n: "\<not> int (length d) \<le> 0" using l(1) by simp
    have "rx_remaining rx1 < rx_remaining rx" "rx_remaining rx1 \<le> length (stream rx1)"
      using r(4,5) l False less.prems(2) by simp_all
    from less.hyps [OF this(1) r(6) this(2)]
    obtain rx2 where "httpd_req_delete rx1 = Some (ESP_OK, rx2)" "stream rx2 = drop (rx_remaining rx1) (stream rx1)"
        "rx_remaining rx2 = 0" "gives_all rx2" by blast
    moreover have "httpd_req_delete rx = httpd_req_delete rx1"
      unfolding httpd_req_delete.simps [of rx] if_not_P [OF False] r(1) option.case prod.case if_not_P [OF n] ..
    ultimately show ?thesis using r(4,5) l by simp
  qed
qed

text \<open>
  The body of a POST request, of which the handler reads 100 bytes at most, is read to its end by the server, so
  the next request on the connection starts right behind it.
\<close>

theorem post_keeps_framing:
  assumes "gives_all rx" "rx_remaining rx \<le> length (stream rx)" "post_receive req rx = Some (req1, rx1)"
  shows "\<exists>rx2. httpd_req_delete rx1 = Some (ESP_OK, rx2) \<and> rx_remaining rx2 = 0 \<and> stream rx2 = drop (rx_remaining rx) (stream rx)"
proof (cases "rx_remaining rx = 0")
  case True
  then have "rx1 = rx" using assms(3) by (auto simp: post_receive_def httpd_req_recv_def)
  then show ?thesis using True by (simp add: httpd_req_delete.simps [of rx])
next
  case False
  have b: "0 < min (rx_remaining rx) 100" "0 < rx_remaining rx" using False by simp_all
  obtain d rx' where r: "httpd_req_recv (min (rx_remaining rx) 100) rx = Some (int (length d), d, rx')"
      "length d \<le> min (min (rx_remaining rx) 100) (rx_remaining rx)" "stream rx = d @ stream rx'"
      "rx_remaining rx' = rx_remaining rx - length d" "gives_all rx'"
    using req_recv_live [OF assms(1) b assms(2)] by blast
  have e: "rx1 = rx'" using assms(3) unfolding post_receive_def r(1) by simp
  have "rx_remaining rx' \<le> length (stream rx')" using r(2,3,4) assms(2) by simp
  from purge_live [OF r(5) this] show ?thesis using r(2,3,4) unfolding e by auto
qed

theorem post_keeps_framing_witness:
  "\<exists>req1 rx1 rx2. post_receive (get_req ''/'' None) \<lparr>rx_pending = ''abcGET'', rx_remaining = 3, rx_recvs = []\<rparr> = Some (req1, rx1) \<and>
     httpd_req_delete rx1 = Some (ESP_OK, rx2) \<and> stream rx2 = ''GET''"
proof -
  let ?rx = "\<lparr>rx_pending = ''abcGET'', rx_remaining = 3, rx_recvs = []\<rparr>"
  obtain req1 rx1 where p: "post_receive (get_req ''/'' None) ?rx = Some (req1, rx1)"
    by (simp add: post_receive_def httpd_req_recv_def httpd_recv_def httpd_recv_with_opt_def httpd_recv_pending_def)
  then show ?thesis using post_keeps_framing [OF _ _ p] by (auto simp: gives_all_def stream_def)
qed

text \<open>
  C26. \<open>POST /\<close> with the body in the bytes at hand: the handler prints its buffer as a string, so its behaviour is
  undefined exactly when neither the received bytes nor the old content of the buffer behind them contain a
  terminator. Every text of 100 characters or more, from any client, does that.
\<close>

theorem post_overreads:
  assumes "gives_all rx" "rx_remaining rx \<le> length (rx_pending rx)" "length (hr_junk req) = 100"
  shows "\<exists>req1 rx1. post_receive req rx = Some (req1, rx1) \<and>
     (server_post_handler req1 w = None \<longleftrightarrow>
        CHR 0x00 \<notin> set (take (min 100 (rx_remaining rx)) (rx_pending rx)) \<union> set (drop (rx_remaining rx) (hr_junk req)))"
proof -
  define k where "k = min 100 (rx_remaining rx)"
  let ?d = "take k (rx_pending rx)"
  have d: "length ?d = k" "drop k (hr_junk req) = drop (rx_remaining rx) (hr_junk req)"
    using assms(2,3) by (auto simp: k_def min_def)
  have k: "min (rx_remaining rx) 100 = k" "min k (rx_remaining rx) = k" by (simp_all add: k_def)
  have "\<exists>rx1. post_receive req rx = Some (req\<lparr>hr_recv := (int k, ?d)\<rparr>, rx1)"
  proof (cases "k = 0")
    case True
    then show ?thesis by (simp add: post_receive_def httpd_req_recv_def k)
  next
    case False
    then have "rx_pending rx \<noteq> []" using d(1) by auto
    then have "httpd_recv k rx = Some (int k, ?d, rx\<lparr>rx_pending := drop k (rx_pending rx)\<rparr>)"
      using d(1) by (simp add: httpd_recv_def httpd_recv_with_opt_def httpd_recv_pending_def)
    then show ?thesis using False by (simp add: post_receive_def httpd_req_recv_def Let_def k)
  qed
  then show ?thesis
    using d unfolding k_def [symmetric] by (auto simp: server_post_handler_def Let_def)
qed

theorem post_overreads_witness:
  "\<exists>req1 rx1. post_receive ((get_req ''/'' None)\<lparr>hr_junk := replicate 100 (CHR 0x00)\<rparr>)
       \<lparr>rx_pending = replicate 120 (CHR ''a''), rx_remaining = 120, rx_recvs = []\<rparr> = Some (req1, rx1) \<and>
     server_post_handler req1 boot_world = None"
  using post_overreads [of "\<lparr>rx_pending = replicate 120 (CHR ''a''), rx_remaining = 120, rx_recvs = []\<rparr>"
      "(get_req ''/'' None)\<lparr>hr_junk := replicate 100 (CHR 0x00)\<rparr>" boot_world]
  by (simp add: gives_all_def)

end
