(* ===== verification/HttpdSess.thy ===== *)
theory HttpdSess
  imports Httpd "HOL-Library.Multiset"
begin

text \<open>
  The sessions of the web server: the table of \<open>components/esp_http_server/src/httpd_sess.c\<close> and the loop of its task
  in \<open>httpd_main.c\<close>, with the control messages it sends itself and those of other tasks. What the sockets layer reports in a round
  is a parameter, and so is the outcome of the request of a session. User contexts are left out (the
  firmware sets none; the one of HTTPS is freed with its session), events for observers and WebSockets too.
\<close>

section \<open>The state\<close>

text \<open>
  A slot is free when its descriptor is -1. \<open>st_ctrl\<close> are the messages on the control socket: shutting down, or
  the work \<open>httpd_sess_close\<close> with the slot it gets. \<open>st_accepted\<close> and \<open>st_closed\<close> record the descriptors that
  \<open>accept\<close> gave and that \<open>close\<close> was called with, \<open>st_refused\<close> those whose opening function failed.
\<close>

type_synonym u64 = "64 word"

abbreviation (input) ESP_ERR_HTTPD_TASK :: esp_err where "ESP_ERR_HTTPD_TASK \<equiv> 0xb008"

record sock_db =
  sd_fd :: int
  sd_lru_counter :: u64
  sd_lru_socket :: bool
  sd_pending :: bool

datatype ctrl_msg = HTTPD_CTRL_SHUTDOWN | HTTPD_CTRL_WORK nat

record sess_table =
  st_sd :: "sock_db list"
  st_active_count :: int
  st_lru_counter :: u64
  st_lru_purge :: bool
  st_stopping :: bool
  st_ctrl :: "ctrl_msg list"
  st_accepted :: "int list"
  st_closed :: "int list"
  st_refused :: "int list"

text \<open>
  What happens around one round of the loop: whether \<open>select\<close> succeeds, which descriptors are readable, the control
  socket with what \<open>recv\<close> gives there (an error, a part of a message, a message), connection requests, the outcome of the request on
  a descriptor and whether bytes are left over, bytes held back by TLS, what \<open>accept\<close>, \<open>setsockopt\<close>, the opening
  function and the sending of a control message give, and the descriptors \<open>fcntl\<close> knows.
\<close>

datatype ctrl_recv = Recv_Error | Recv_Part | Recv_Message

record net_round =
  nr_select :: bool
  nr_ready :: "int \<Rightarrow> bool"
  nr_ctrl :: "ctrl_recv option"
  nr_listen :: bool
  nr_serve :: "int \<Rightarrow> bool \<times> bool"
  nr_tls_pending :: "int \<Rightarrow> bool"
  nr_accept :: int
  nr_sockopt :: bool
  nr_open :: esp_err
  nr_sent :: bool
  nr_valid :: "int \<Rightarrow> bool"

section \<open>Enumerating the slots\<close>

text \<open>The function returns whether to go on; its context may be the table itself.\<close>

fun enum_slots :: "(nat \<Rightarrow> 'c \<Rightarrow> bool \<times> 'c) \<Rightarrow> nat list \<Rightarrow> 'c \<Rightarrow> 'c" where
  "enum_slots f [] c = c"
| "enum_slots f (i # is) c = (case f i c of (go_on, c1) \<Rightarrow> if go_on then enum_slots f is c1 else c1)"

definition httpd_sess_enum :: "sess_table \<Rightarrow> (nat \<Rightarrow> 'c \<Rightarrow> bool \<times> 'c) \<Rightarrow> 'c \<Rightarrow> 'c" where
  "httpd_sess_enum t f c = enum_slots f [0..<length (st_sd t)] c"

definition set_slot :: "nat \<Rightarrow> sock_db \<Rightarrow> sess_table \<Rightarrow> sess_table" where
  "set_slot i s t = t\<lparr>st_sd := (st_sd t)[i := s]\<rparr>"

definition sock_close :: "int \<Rightarrow> sess_table \<Rightarrow> sess_table" where
  "sock_close fd t = t\<lparr>st_closed := st_closed t @ [fd]\<rparr>"

text \<open>The tasks that look for a session.\<close>

definition find_session :: "(sock_db \<Rightarrow> bool) \<Rightarrow> sess_table \<Rightarrow> nat option" where
  "find_session P t = httpd_sess_enum t (\<lambda>i c. if P (st_sd t ! i) then (False, Some i) else (True, c)) None"

definition httpd_sess_get_free :: "sess_table \<Rightarrow> nat option" where
  "httpd_sess_get_free t =
     (if st_active_count t = int (length (st_sd t)) then None else find_session (\<lambda>s. sd_fd s < 0) t)"

definition httpd_is_sess_available :: "sess_table \<Rightarrow> bool" where
  "httpd_is_sess_available t \<longleftrightarrow> httpd_sess_get_free t \<noteq> None"

text \<open>Called between requests only, so the session of the current request is not looked at.\<close>

definition httpd_sess_get :: "int \<Rightarrow> sess_table \<Rightarrow> nat option" where
  "httpd_sess_get sockfd t = find_session (\<lambda>s. sd_fd s = sockfd) t"

definition httpd_sess_set_descriptors :: "sess_table \<Rightarrow> int list \<times> int" where
  "httpd_sess_set_descriptors t =
     httpd_sess_enum t (\<lambda>i (fdset, max_fd).
       let fd = sd_fd (st_sd t ! i)
       in (True, if fd \<noteq> -1 then (fdset @ [fd], max max_fd fd) else (fdset, max_fd))) ([], -1)"

definition lowest_lru :: "sess_table \<Rightarrow> nat \<Rightarrow> u64 \<times> nat option \<Rightarrow> bool \<times> u64 \<times> nat option" where
  "lowest_lru t i = (\<lambda>(lru, session).
     if sd_fd (st_sd t ! i) = -1 then (False, lru, session)
     else if sd_lru_counter (st_sd t ! i) < lru then (True, sd_lru_counter (st_sd t ! i), Some i)
     else (True, lru, session))"

section \<open>Sessions\<close>

definition httpd_sess_delete :: "nat \<Rightarrow> sess_table \<Rightarrow> sess_table" where
  "httpd_sess_delete i t =
     (let s = st_sd t ! i; count = st_active_count t - 1
      in if sd_fd s < 0 then t
         else (set_slot i (s\<lparr>sd_fd := -1\<rparr>) (sock_close (sd_fd s) t))
                \<lparr>st_active_count := count, st_lru_counter := (if count = 0 then 0 else st_lru_counter t)\<rparr>)"

definition httpd_sess_new :: "esp_err \<Rightarrow> int \<Rightarrow> sess_table \<Rightarrow> esp_err \<times> sess_table" where
  "httpd_sess_new open_fn newfd t =
     (if httpd_sess_get newfd t \<noteq> None then (ESP_FAIL, t)
      else (case httpd_sess_get_free t of
              None \<Rightarrow> (ESP_FAIL, t)
            | Some i \<Rightarrow>
                let t1 = (set_slot i \<lparr>sd_fd = newfd, sd_lru_counter = 0, sd_lru_socket = False, sd_pending = False\<rparr> t)
                           \<lparr>st_active_count := st_active_count t + 1\<rparr>
                in if open_fn \<noteq> ESP_OK then (open_fn, httpd_sess_delete i (t1\<lparr>st_refused := st_refused t1 @ [newfd]\<rparr>))
                   else (ESP_OK, t1)))"

definition httpd_sess_close :: "nat \<Rightarrow> sess_table \<Rightarrow> sess_table" where
  "httpd_sess_close i t =
     (let s = st_sd t ! i
      in if sd_lru_counter s = 0 \<and> \<not> sd_lru_socket s then t
         else httpd_sess_delete i (set_slot i (s\<lparr>sd_lru_socket := False\<rparr>) t))"

definition httpd_sess_delete_invalid :: "(int \<Rightarrow> bool) \<Rightarrow> sess_table \<Rightarrow> sess_table" where
  "httpd_sess_delete_invalid fd_is_valid t =
     httpd_sess_enum t (\<lambda>i t1. (True, if \<not> fd_is_valid (sd_fd (st_sd t1 ! i)) then httpd_sess_delete i t1 else t1)) t"

definition httpd_sess_close_all :: "sess_table \<Rightarrow> sess_table" where
  "httpd_sess_close_all t =
     httpd_sess_enum t (\<lambda>i t1. (True, if sd_fd (st_sd t1 ! i) \<noteq> -1 then httpd_sess_delete i t1 else t1)) t"

definition httpd_sess_pending :: "net_round \<Rightarrow> sock_db \<Rightarrow> bool" where
  "httpd_sess_pending r s \<longleftrightarrow> nr_tls_pending r (sd_fd s) \<or> sd_pending s"

definition httpd_sess_process :: "net_round \<Rightarrow> nat \<Rightarrow> sess_table \<Rightarrow> esp_err \<times> sess_table" where
  "httpd_sess_process r i t =
     (case nr_serve r (sd_fd (st_sd t ! i)) of (served, left_over) \<Rightarrow>
        let s = (st_sd t ! i)\<lparr>sd_pending := left_over\<rparr>
        in if \<not> served then (ESP_FAIL, set_slot i s t)
           else (ESP_OK, (set_slot i (s\<lparr>sd_lru_counter := st_lru_counter t + 1\<rparr>) t)\<lparr>st_lru_counter := st_lru_counter t + 1\<rparr>))"

definition httpd_sess_update_lru_counter :: "int \<Rightarrow> sess_table \<Rightarrow> esp_err \<times> sess_table" where
  "httpd_sess_update_lru_counter sockfd t =
     (case find_session (\<lambda>s. sd_fd s = sockfd) t of
        Some i \<Rightarrow> (ESP_OK, (set_slot i ((st_sd t ! i)\<lparr>sd_lru_counter := st_lru_counter t + 1\<rparr>) t)
                     \<lparr>st_lru_counter := st_lru_counter t + 1\<rparr>)
      | None \<Rightarrow> (ESP_ERR_NOT_FOUND, t))"

definition httpd_queue_work :: "bool \<Rightarrow> nat \<Rightarrow> sess_table \<Rightarrow> esp_err \<times> sess_table" where
  "httpd_queue_work sent i t =
     (if \<not> sent then (ESP_FAIL, t) else (ESP_OK, t\<lparr>st_ctrl := st_ctrl t @ [HTTPD_CTRL_WORK i]\<rparr>))"

definition httpd_sess_close_lru :: "bool \<Rightarrow> sess_table \<Rightarrow> esp_err \<times> sess_table" where
  "httpd_sess_close_lru sent t =
     (case httpd_sess_enum t (lowest_lru t) (- 1, None) of
        (lru, None) \<Rightarrow> (ESP_OK, t)
      | (lru, Some i) \<Rightarrow> httpd_queue_work sent i (set_slot i ((st_sd t ! i)\<lparr>sd_lru_socket := True\<rparr>) t))"

definition httpd_sess_trigger_close :: "bool \<Rightarrow> int \<Rightarrow> sess_table \<Rightarrow> esp_err \<times> sess_table" where
  "httpd_sess_trigger_close sent sockfd t =
     (case httpd_sess_get sockfd t of None \<Rightarrow> (ESP_ERR_NOT_FOUND, t) | Some i \<Rightarrow> httpd_queue_work sent i t)"

text \<open>The descriptors of the clients, for an array of \<open>max_fds\<close> entries.\<close>

fun client_list :: "nat \<Rightarrow> sock_db list \<Rightarrow> int list \<Rightarrow> esp_err \<times> int list" where
  "client_list max_fds [] fds = (ESP_OK, fds)"
| "client_list max_fds (s # ss) fds =
     (if sd_fd s = -1 then client_list max_fds ss fds
      else if length fds < max_fds then client_list max_fds ss (fds @ [sd_fd s]) else (ESP_ERR_INVALID_ARG, fds))"

definition httpd_get_client_list :: "nat \<Rightarrow> sess_table \<Rightarrow> esp_err \<times> int list" where
  "httpd_get_client_list max_fds t = (if max_fds = 0 then (ESP_ERR_INVALID_ARG, []) else client_list max_fds (st_sd t) [])"

section \<open>The task of the server\<close>

definition httpd_accept_conn :: "net_round \<Rightarrow> sess_table \<Rightarrow> esp_err \<times> sess_table" where
  "httpd_accept_conn r t =
     (if st_lru_purge t \<and> \<not> httpd_is_sess_available t then httpd_sess_close_lru (nr_sent r) t
      else if nr_accept r < 0 then (ESP_FAIL, t)
      else
        let new_fd = nr_accept r; t1 = t\<lparr>st_accepted := st_accepted t @ [new_fd]\<rparr>
        in if \<not> nr_sockopt r then (ESP_FAIL, sock_close new_fd t1)
           else (case httpd_sess_new (nr_open r) new_fd t1 of (err, t2) \<Rightarrow>
                   if err \<noteq> ESP_OK then (ESP_FAIL, sock_close new_fd t2) else (ESP_OK, t2)))"

definition httpd_process_ctrl_msg :: "ctrl_recv \<Rightarrow> sess_table \<Rightarrow> sess_table" where
  "httpd_process_ctrl_msg received t =
     (case st_ctrl t of
        [] \<Rightarrow> t
      | msg # msgs \<Rightarrow>
          (case received of
             Recv_Error \<Rightarrow> t
           | Recv_Part \<Rightarrow> t\<lparr>st_ctrl := msgs\<rparr>
           | Recv_Message \<Rightarrow>
               (case msg of
                  HTTPD_CTRL_WORK i \<Rightarrow> httpd_sess_close i (t\<lparr>st_ctrl := msgs\<rparr>)
                | HTTPD_CTRL_SHUTDOWN \<Rightarrow> t\<lparr>st_ctrl := msgs, st_stopping := True\<rparr>)))"

definition httpd_process_session :: "net_round \<Rightarrow> int list \<Rightarrow> nat \<Rightarrow> sess_table \<Rightarrow> bool \<times> sess_table" where
  "httpd_process_session r fdset i t =
     (let s = st_sd t ! i
      in if sd_fd s < 0 then (True, t)
         else if (sd_fd s \<in> set fdset \<and> nr_ready r (sd_fd s)) \<or> httpd_sess_pending r s then
           (case httpd_sess_process r i t of (err, t1) \<Rightarrow> (True, if err \<noteq> ESP_OK then httpd_sess_delete i t1 else t1))
         else (True, t))"

definition httpd_server :: "net_round \<Rightarrow> sess_table \<Rightarrow> esp_err \<times> sess_table" where
  "httpd_server r t =
     (let listening = (st_lru_purge t \<or> httpd_is_sess_available t);
          fdset = fst (httpd_sess_set_descriptors t)
      in if \<not> nr_select r then (ESP_OK, httpd_sess_delete_invalid (nr_valid r) t)
         else
           let t1 = (case nr_ctrl r of Some received \<Rightarrow> httpd_process_ctrl_msg received t | None \<Rightarrow> t)
           in if nr_ctrl r \<noteq> None \<and> st_stopping t1 then (ESP_FAIL, t1)
              else
                let t2 = httpd_sess_enum t1 (httpd_process_session r fdset) t1
                in (ESP_OK, if listening \<and> nr_listen r then snd (httpd_accept_conn r t2) else t2))"

definition httpd_stop :: "bool \<Rightarrow> sess_table \<Rightarrow> esp_err \<times> sess_table" where
  "httpd_stop sent t =
     (if \<not> sent then (ESP_FAIL, t) else (ESP_OK, t\<lparr>st_ctrl := st_ctrl t @ [HTTPD_CTRL_SHUTDOWN]\<rparr>))"

text \<open>
  The loop over as many rounds as given, with the calls of other tasks that reach the control socket between
  them: \<open>httpd_stop\<close> and \<open>httpd_sess_trigger_close\<close>, each with whether its message can be sent. The first
  component tells whether the task has ended.
\<close>

datatype task_event = Round net_round | Stop bool | TriggerClose bool int

fun httpd_thread :: "task_event list \<Rightarrow> sess_table \<Rightarrow> bool \<times> sess_table" where
  "httpd_thread [] t = (False, t)"
| "httpd_thread (Round r # es) t =
     (case httpd_server r t of (ret, t1) \<Rightarrow>
        if ret \<noteq> ESP_OK then (True, httpd_sess_close_all t1) else httpd_thread es t1)"
| "httpd_thread (Stop sent # es) t = httpd_thread es (snd (httpd_stop sent t))"
| "httpd_thread (TriggerClose sent sockfd # es) t = httpd_thread es (snd (httpd_sess_trigger_close sent sockfd t))"

text \<open>
  \<open>httpd_start\<close> with \<open>max_sockets\<close> sockets in the whole system; the arguments tell whether memory, the sockets of
  the server and its task can be had. The slots are initialised by \<open>httpd_sess_init\<close>.
\<close>

definition httpd_sess_init :: "nat \<Rightarrow> sock_db list" where
  "httpd_sess_init n = replicate n \<lparr>sd_fd = -1, sd_lru_counter = 0, sd_lru_socket = False, sd_pending = False\<rparr>"

definition httpd_start :: "nat \<Rightarrow> bool \<Rightarrow> bool \<Rightarrow> bool \<Rightarrow> nat \<Rightarrow> bool \<Rightarrow> esp_err \<times> sess_table option" where
  "httpd_start max_sockets created sockets thread max_open_sockets lru_purge =
     (if max_sockets < max_open_sockets + 3 then (ESP_ERR_INVALID_ARG, None)
      else if \<not> created then (ESP_ERR_HTTPD_ALLOC_MEM, None)
      else if \<not> sockets then (ESP_FAIL, None)
      else if \<not> thread then (ESP_ERR_HTTPD_TASK, None)
      else (ESP_OK, Some \<lparr>st_sd = httpd_sess_init max_open_sockets, st_active_count = 0, st_lru_counter = 0,
          st_lru_purge = lru_purge, st_stopping = False, st_ctrl = [], st_accepted = [], st_closed = [],
          st_refused = []\<rparr>))"



section \<open>Searching\<close>

lemma enum_find:
  "enum_slots (\<lambda>i c. if Q i then (False, Some i) else (True, c)) is c = (case find Q is of Some i \<Rightarrow> Some i | None \<Rightarrow> c)"
  by (induction "is") simp_all

lemma find_session_eq: "find_session P t = find (\<lambda>i. P (st_sd t ! i)) [0..<length (st_sd t)]"
  by (simp add: find_session_def httpd_sess_enum_def enum_find split: option.split)

lemma find_session_Some: "find_session P t = Some i \<Longrightarrow> i < length (st_sd t) \<and> P (st_sd t ! i) \<and> (\<forall>j<i. \<not> P (st_sd t ! j))"
  unfolding find_session_eq find_Some_iff by auto

lemma find_session_None: "find_session P t = None \<longleftrightarrow> (\<forall>s\<in>set (st_sd t). \<not> P s)"
  unfolding find_session_eq find_None_iff by (auto simp: all_set_conv_all_nth)

text \<open>Enumerations that change the table keep what each step keeps.\<close>

lemma enum_keeps:
  assumes "\<And>i c. i \<in> set is \<Longrightarrow> P c \<Longrightarrow> P (snd (f i c))" "P c"
  shows "P (enum_slots f is c)"
  using assms
proof (induction "is" arbitrary: c)
  case (Cons i "is")
  have "P (snd (f i c))" using Cons.prems by simp
  then show ?case using Cons.IH Cons.prems(1) by (auto split: prod.split)
qed simp

section \<open>What the table promises\<close>

definition open_fds :: "sess_table \<Rightarrow> int list" where
  "open_fds t = filter (\<lambda>fd. 0 \<le> fd) (map sd_fd (st_sd t))"

text \<open>
  The count is the number of open sessions, no descriptor has two of them, control messages name slots, and every
  connection that was accepted is open or was closed, once; only those whose opening failed were closed once more.
\<close>

definition table_ok :: "sess_table \<Rightarrow> bool" where
  "table_ok t \<longleftrightarrow> (\<forall>s\<in>set (st_sd t). - 1 \<le> sd_fd s) \<and> st_active_count t = int (length (open_fds t)) \<and>
     distinct (open_fds t) \<and> (\<forall>i. HTTPD_CTRL_WORK i \<in> set (st_ctrl t) \<longrightarrow> i < length (st_sd t)) \<and>
     mset (st_accepted t) + mset (st_refused t) = mset (st_closed t) + mset (open_fds t)"

lemma open_fds_split:
  assumes "i < length (st_sd t)"
  shows "open_fds (set_slot i s t) =
     filter (\<lambda>fd. 0 \<le> fd) (map sd_fd (take i (st_sd t))) @ filter (\<lambda>fd. 0 \<le> fd) [sd_fd s] @
     filter (\<lambda>fd. 0 \<le> fd) (map sd_fd (drop (Suc i) (st_sd t)))"
    and "open_fds t =
     filter (\<lambda>fd. 0 \<le> fd) (map sd_fd (take i (st_sd t))) @ filter (\<lambda>fd. 0 \<le> fd) [sd_fd (st_sd t ! i)] @
     filter (\<lambda>fd. 0 \<le> fd) (map sd_fd (drop (Suc i) (st_sd t)))"
proof -
  show "open_fds (set_slot i s t) =
     filter (\<lambda>fd. 0 \<le> fd) (map sd_fd (take i (st_sd t))) @ filter (\<lambda>fd. 0 \<le> fd) [sd_fd s] @
     filter (\<lambda>fd. 0 \<le> fd) (map sd_fd (drop (Suc i) (st_sd t)))"
    using assms by (simp add: open_fds_def set_slot_def upd_conv_take_nth_drop)
  show "open_fds t =
     filter (\<lambda>fd. 0 \<le> fd) (map sd_fd (take i (st_sd t))) @ filter (\<lambda>fd. 0 \<le> fd) [sd_fd (st_sd t ! i)] @
     filter (\<lambda>fd. 0 \<le> fd) (map sd_fd (drop (Suc i) (st_sd t)))"
    unfolding open_fds_def by (subst (1) id_take_nth_drop [OF assms]) simp
qed

lemma open_fds_fields [simp]:
  "open_fds (t\<lparr>st_active_count := n\<rparr>) = open_fds t" "open_fds (t\<lparr>st_lru_counter := l\<rparr>) = open_fds t"
  "open_fds (t\<lparr>st_ctrl := q\<rparr>) = open_fds t" "open_fds (t\<lparr>st_stopping := b\<rparr>) = open_fds t"
  "open_fds (t\<lparr>st_accepted := a\<rparr>) = open_fds t" "open_fds (t\<lparr>st_refused := a\<rparr>) = open_fds t" "open_fds (sock_close fd t) = open_fds t"
  "open_fds (t\<lparr>st_active_count := n, st_lru_counter := l\<rparr>) = open_fds t"
  by (simp_all add: open_fds_def sock_close_def)

lemma slot_fields [simp]:
  "st_sd (set_slot i s t) = (st_sd t)[i := s]" "st_active_count (set_slot i s t) = st_active_count t"
  "st_ctrl (set_slot i s t) = st_ctrl t" "st_accepted (set_slot i s t) = st_accepted t" "st_closed (set_slot i s t) = st_closed t"
  "st_refused (set_slot i s t) = st_refused t"
  "st_lru_counter (set_slot i s t) = st_lru_counter t" "st_lru_purge (set_slot i s t) = st_lru_purge t"
  "st_stopping (set_slot i s t) = st_stopping t"
  by (simp_all add: set_slot_def)

lemma close_fields [simp]:
  "st_sd (sock_close fd t) = st_sd t" "st_active_count (sock_close fd t) = st_active_count t" "st_ctrl (sock_close fd t) = st_ctrl t"
  "st_accepted (sock_close fd t) = st_accepted t" "st_closed (sock_close fd t) = st_closed t @ [fd]"
  "st_refused (sock_close fd t) = st_refused t"
  "st_lru_counter (sock_close fd t) = st_lru_counter t" "st_lru_purge (sock_close fd t) = st_lru_purge t"
  "st_stopping (sock_close fd t) = st_stopping t"
  by (simp_all add: sock_close_def)

lemma slot_same_fd:
  assumes "sd_fd s = sd_fd (st_sd t ! i)"
  shows "open_fds (set_slot i s t) = open_fds t" "table_ok (set_slot i s t) = table_ok t"
proof -
  have o: "map sd_fd ((st_sd t)[i := s]) = map sd_fd (st_sd t)" using assms by (simp add: map_update list_update_same_conv) (metis list_update_id map_update)
  then show "open_fds (set_slot i s t) = open_fds t" by (simp add: open_fds_def)
  moreover have "(\<forall>s\<in>set ((st_sd t)[i := s]). - 1 \<le> sd_fd s) = (\<forall>s\<in>set (st_sd t). - 1 \<le> sd_fd s)"
    using o by (metis (no_types, lifting) image_iff list.set_map)
  ultimately show "table_ok (set_slot i s t) = table_ok t" by (simp add: table_ok_def)
qed

lemma delete_ok:
  assumes "table_ok t" "i < length (st_sd t)"
  shows "table_ok (httpd_sess_delete i t)" "length (st_sd (httpd_sess_delete i t)) = length (st_sd t)"
proof -
  let ?s = "st_sd t ! i"
  have b: "- 1 \<le> sd_fd x" if "x \<in> set ((st_sd t)[i := ?s\<lparr>sd_fd := -1\<rparr>])" for x
    using that assms(1) set_update_subset_insert [of "st_sd t" i "?s\<lparr>sd_fd := -1\<rparr>"] by (auto simp: table_ok_def)
  show "table_ok (httpd_sess_delete i t)"
  proof (cases "sd_fd ?s < 0")
    case True
    then show ?thesis using assms(1) by (simp add: httpd_sess_delete_def)
  next
    case False
    have o: "open_fds (set_slot i (?s\<lparr>sd_fd := -1\<rparr>) (sock_close (sd_fd ?s) t)) = remove1 (sd_fd ?s) (open_fds t)"
      using False open_fds_split(1) [of i "sock_close (sd_fd ?s) t" "?s\<lparr>sd_fd := -1\<rparr>"] open_fds_split(2) [OF assms(2)] assms
      by (simp add: table_ok_def remove1_append)
    have m: "sd_fd ?s \<in> set (open_fds t)" using False open_fds_split(2) [OF assms(2)] by simp
    then have "Suc 0 \<le> length (open_fds t)" by (cases "open_fds t") auto
    then show ?thesis
      using assms(1) m b False by (simp add: httpd_sess_delete_def Let_def table_ok_def o length_remove1 of_nat_diff)
  qed
  show "length (st_sd (httpd_sess_delete i t)) = length (st_sd t)" by (simp add: httpd_sess_delete_def Let_def)
qed


lemma table_fields [simp]:
  "table_ok (t\<lparr>st_lru_counter := l\<rparr>) = table_ok t" "table_ok (t\<lparr>st_stopping := b\<rparr>) = table_ok t"
  by (simp_all add: table_ok_def)

lemma free_slot:
  assumes "httpd_sess_get_free t = Some i"
  shows "i < length (st_sd t)" "sd_fd (st_sd t ! i) < 0"
  using assms find_session_Some [of "\<lambda>s. sd_fd s < 0" t i] by (auto simp: httpd_sess_get_free_def split: if_splits)

text \<open>In the table as it is kept, a slot is found exactly when one is free.\<close>

lemma available_iff: "table_ok t \<Longrightarrow> httpd_is_sess_available t \<longleftrightarrow> (\<exists>s\<in>set (st_sd t). sd_fd s < 0)"
proof -
  assume t: "table_ok t"
  have "length (open_fds t) = length (st_sd t) \<longleftrightarrow> (\<forall>s\<in>set (st_sd t). 0 \<le> sd_fd s)"
    using filter_True [of "map sd_fd (st_sd t)" "\<lambda>fd. 0 \<le> fd"] length_filter_less [of _ "map sd_fd (st_sd t)" "\<lambda>fd. 0 \<le> fd"]
    by (fastforce simp: open_fds_def)
  then show ?thesis
    using t find_session_None [of "\<lambda>s. sd_fd s < 0" t]
    by (auto simp: httpd_is_sess_available_def httpd_sess_get_free_def table_ok_def not_le [symmetric])
qed

lemma new_slot:
  assumes "table_ok t" "0 \<le> fd" "httpd_sess_get fd t = None" "httpd_sess_get_free t = Some i" "sd_fd s = fd"
  defines "t1 \<equiv> (set_slot i s t)\<lparr>st_active_count := st_active_count t + 1\<rparr>"
  shows "mset (open_fds t1) = add_mset fd (mset (open_fds t))" "distinct (open_fds t1)"
    and "st_active_count t1 = int (length (open_fds t1))" "\<forall>s\<in>set (st_sd t1). - 1 \<le> sd_fd s"
proof -
  note i = free_slot [OF assms(4)]
  show m: "mset (open_fds t1) = add_mset fd (mset (open_fds t))"
    using i assms(2,5) open_fds_split [OF i(1)] by (simp add: t1_def)
  have "fd \<notin> set (open_fds t)"
    using assms(2,3) find_session_None [of "\<lambda>s. sd_fd s = fd" t] by (auto simp: httpd_sess_get_def open_fds_def)
  moreover have "distinct (open_fds t)" using assms(1) by (simp add: table_ok_def)
  ultimately have "distinct (fd # open_fds t)" by simp
  then show "distinct (open_fds t1)" using m mset_eq_imp_distinct_iff [of "fd # open_fds t" "open_fds t1"] by simp
  have "length (open_fds t1) = Suc (length (open_fds t))" using m by (metis size_add_mset size_mset)
  then show "st_active_count t1 = int (length (open_fds t1))" using assms(1) by (simp add: t1_def table_ok_def)
  show "\<forall>s\<in>set (st_sd t1). - 1 \<le> sd_fd s"
    using assms(1,2,5) set_update_subset_insert [of "st_sd t" i s] by (fastforce simp: t1_def table_ok_def)
qed

lemma delete_sock_close: "0 \<le> fd \<Longrightarrow> sd_fd (st_sd t ! i) = fd \<Longrightarrow> sock_close fd (httpd_sess_delete i t) = httpd_sess_delete i (sock_close fd t)"
  by (simp add: httpd_sess_delete_def Let_def sock_close_def set_slot_def)

text \<open>A new session of an accepted connection; when opening fails the descriptor is closed here, and again by the caller.\<close>

lemma new_ok:
  assumes "table_ok t" "0 \<le> fd" "httpd_sess_new open_fn fd (t\<lparr>st_accepted := st_accepted t @ [fd]\<rparr>) = (err, t1)"
  shows "length (st_sd t1) = length (st_sd t)" "err = ESP_OK \<Longrightarrow> table_ok t1"
    and "err \<noteq> ESP_OK \<Longrightarrow> table_ok (sock_close fd t1)"
proof -
  let ?t = "t\<lparr>st_accepted := st_accepted t @ [fd]\<rparr>"
  let ?s = "\<lparr>sd_fd = fd, sd_lru_counter = 0, sd_lru_socket = False, sd_pending = False\<rparr>"
  show "length (st_sd t1) = length (st_sd t)"
    using assms(3) by (auto simp: httpd_sess_new_def httpd_sess_delete_def Let_def split: if_splits option.splits)
  show "err \<noteq> ESP_OK \<Longrightarrow> table_ok (sock_close fd t1)"
  proof -
    assume e: "err \<noteq> ESP_OK"
    show ?thesis
    proof (cases "httpd_sess_get fd ?t = None \<and> httpd_sess_get_free ?t \<noteq> None")
      case False
      then have "t1 = ?t" using assms(3) by (auto simp: httpd_sess_new_def split: if_splits)
      then show ?thesis using assms(1) by (simp add: table_ok_def)
    next
      case True
      then obtain i where i: "httpd_sess_get fd ?t = None" "httpd_sess_get_free ?t = Some i" by auto
      then have i': "httpd_sess_get fd t = None" "httpd_sess_get_free t = Some i" "sd_fd ?s = fd"
        by (auto simp: httpd_sess_get_def httpd_sess_get_free_def find_session_eq split: if_splits)
      let ?u = "(set_slot i ?s t)\<lparr>st_active_count := st_active_count t + 1\<rparr>"
      let ?v = "?u\<lparr>st_accepted := st_accepted t @ [fd], st_refused := st_refused t @ [fd]\<rparr>"
      let ?w = "(set_slot i ?s ?t)\<lparr>st_active_count := st_active_count t + 1, st_refused := st_refused t @ [fd]\<rparr>"
      have "t1 = httpd_sess_delete i ?w"
        using assms(3) e i by (auto simp: httpd_sess_new_def Let_def split: if_splits)
      moreover have "?w = ?v" by (cases t) (simp add: set_slot_def)
      ultimately have "t1 = httpd_sess_delete i ?v" by simp
      then have "sock_close fd t1 = httpd_sess_delete i (sock_close fd ?v)"
        using free_slot [OF i'(2)] assms(2) by (simp add: delete_sock_close)
      moreover have "table_ok (sock_close fd ?v)"
        using new_slot [OF assms(1,2) i'] assms(1) unfolding table_ok_def by simp
      ultimately show ?thesis using delete_ok(1) [of "sock_close fd ?v" i] free_slot [OF i'(2)] by simp
    qed
  qed
  assume e: "err = ESP_OK"
  from e obtain i where i: "httpd_sess_get fd t = None" "httpd_sess_get_free t = Some i" "sd_fd ?s = fd"
      and t1: "t1 = (set_slot i ?s ?t)\<lparr>st_active_count := st_active_count ?t + 1\<rparr>"
    using assms(3)
    by (auto simp: httpd_sess_new_def Let_def httpd_sess_get_def httpd_sess_get_free_def find_session_eq split: if_splits option.splits)
  let ?u = "(set_slot i ?s t)\<lparr>st_active_count := st_active_count t + 1\<rparr>"
  have u: "t1 = ?u\<lparr>st_accepted := st_accepted t @ [fd]\<rparr>" by (simp add: t1 set_slot_def)
  show "table_ok t1"
    using new_slot [OF assms(1,2) i(1,2,3)] assms(1) unfolding u table_ok_def by simp
qed

definition keeps_table :: "(sess_table \<Rightarrow> sess_table) \<Rightarrow> sess_table \<Rightarrow> bool" where
  "keeps_table f t \<longleftrightarrow> table_ok (f t) \<and> length (st_sd (f t)) = length (st_sd t)"

lemma close_keeps: "table_ok t \<Longrightarrow> i < length (st_sd t) \<Longrightarrow> keeps_table (httpd_sess_close i) t"
  using delete_ok [of "set_slot i ((st_sd t ! i)\<lparr>sd_lru_socket := False\<rparr>) t" i] slot_same_fd(2) [of "(st_sd t ! i)\<lparr>sd_lru_socket := False\<rparr>" t i]
  by (auto simp: keeps_table_def httpd_sess_close_def Let_def)

lemma ctrl_keeps:
  assumes "table_ok t"
  shows "keeps_table (httpd_process_ctrl_msg received) t"
proof (cases "st_ctrl t")
  case Nil
  then show ?thesis using assms by (simp add: keeps_table_def httpd_process_ctrl_msg_def)
next
  case (Cons msg msgs)
  have t: "table_ok (t\<lparr>st_ctrl := msgs\<rparr>)" using assms Cons by (auto simp: table_ok_def)
  show ?thesis
  proof (cases msg)
    case (HTTPD_CTRL_WORK i)
    then have "i < length (st_sd (t\<lparr>st_ctrl := msgs\<rparr>))" using assms Cons by (simp add: table_ok_def)
    from close_keeps [OF t this] show ?thesis
      using assms t HTTPD_CTRL_WORK by (simp add: keeps_table_def httpd_process_ctrl_msg_def Cons split: ctrl_recv.split)
  qed (use assms t Cons in \<open>auto simp: keeps_table_def httpd_process_ctrl_msg_def table_ok_def split: ctrl_recv.split\<close>)
qed

lemma process_keeps:
  assumes "table_ok t" "i < length (st_sd t)"
  shows "keeps_table (\<lambda>t. snd (httpd_process_session r fdset i t)) t"
proof -
  obtain ok left where sv: "nr_serve r (sd_fd (st_sd t ! i)) = (ok, left)" by fastforce
  let ?s = "(st_sd t ! i)\<lparr>sd_pending := left\<rparr>"
  let ?s' = "?s\<lparr>sd_lru_counter := st_lru_counter t + 1\<rparr>"
  have "table_ok (set_slot i ?s t)" "table_ok (set_slot i ?s' t)" using assms(1) slot_same_fd(2) [of ?s t i] slot_same_fd(2) [of ?s' t i] by simp_all
  then show ?thesis
    using assms delete_ok [of "set_slot i ?s t" i]
    by (auto simp: keeps_table_def httpd_process_session_def httpd_sess_process_def Let_def sv)
qed

lemma enum_keeps_table:
  assumes "table_ok t" "\<And>i u. table_ok u \<Longrightarrow> i < length (st_sd u) \<Longrightarrow> keeps_table (\<lambda>u. snd (f i u)) u"
  shows "keeps_table (httpd_sess_enum t f) t"
proof -
  have "table_ok (enum_slots f [0..<length (st_sd t)] t) \<and> length (st_sd (enum_slots f [0..<length (st_sd t)] t)) = length (st_sd t)"
    by (rule enum_keeps) (use assms in \<open>auto simp: keeps_table_def\<close>)
  then show ?thesis by (simp add: keeps_table_def httpd_sess_enum_def)
qed

lemma lowest_slot:
  "enum_slots (lowest_lru t) is (l, c) = (l', Some i) \<Longrightarrow> c = Some i \<or> i \<in> set is"
  by (induction "is" arbitrary: l c) (auto simp: lowest_lru_def split: if_splits)

lemma close_lru_keeps:
  assumes "table_ok t"
  shows "keeps_table (\<lambda>t. snd (httpd_sess_close_lru sent t)) t"
proof (cases "httpd_sess_enum t (lowest_lru t) (- 1, None)")
  case (Pair l c)
  show ?thesis
  proof (cases c)
    case None
    then show ?thesis using assms Pair by (simp add: keeps_table_def httpd_sess_close_lru_def)
  next
    case (Some i)
    then have i: "i < length (st_sd t)" using Pair lowest_slot by (fastforce simp: httpd_sess_enum_def)
    let ?t = "set_slot i ((st_sd t ! i)\<lparr>sd_lru_socket := True\<rparr>) t"
    have t: "table_ok ?t" using assms slot_same_fd(2) [of "(st_sd t ! i)\<lparr>sd_lru_socket := True\<rparr>" t i] by simp
    then have "table_ok (?t\<lparr>st_ctrl := st_ctrl t @ [HTTPD_CTRL_WORK i]\<rparr>)" using i by (auto simp: table_ok_def)
    then show ?thesis using t Pair Some by (simp add: keeps_table_def httpd_sess_close_lru_def httpd_queue_work_def)
  qed
qed

lemma accept_keeps:
  assumes "table_ok t"
  shows "keeps_table (\<lambda>t. snd (httpd_accept_conn r t)) t"
proof -
  let ?fd = "nr_accept r"
  let ?t = "t\<lparr>st_accepted := st_accepted t @ [?fd]\<rparr>"
  have c: "keeps_table (\<lambda>t. sock_close ?fd (t\<lparr>st_accepted := st_accepted t @ [?fd]\<rparr>)) t"
    using assms(1) by (simp add: keeps_table_def table_ok_def)
  obtain err t1 where n: "httpd_sess_new (nr_open r) ?fd ?t = (err, t1)" by fastforce
  show ?thesis
    using assms(1) close_lru_keeps [OF assms(1), of "nr_sent r"] c new_ok [OF assms(1) _ n]
    by (auto simp: keeps_table_def httpd_accept_conn_def Let_def n)
qed

lemma close_all_keeps: "table_ok t \<Longrightarrow> keeps_table httpd_sess_close_all t"
  using enum_keeps_table [of t "\<lambda>i t1. (True, if sd_fd (st_sd t1 ! i) \<noteq> -1 then httpd_sess_delete i t1 else t1)"]
  by (auto simp: keeps_table_def httpd_sess_close_all_def delete_ok)

lemma server_keeps:
  assumes "table_ok t"
  shows "keeps_table (\<lambda>t. snd (httpd_server r t)) t"
proof -
  let ?fds = "fst (httpd_sess_set_descriptors t)"
  define t1 where "t1 = (case nr_ctrl r of Some received \<Rightarrow> httpd_process_ctrl_msg received t | None \<Rightarrow> t)"
  define t2 where "t2 = httpd_sess_enum t1 (httpd_process_session r ?fds) t1"
  have "keeps_table (httpd_sess_delete_invalid (nr_valid r)) t"
    using enum_keeps_table [OF assms(1), of "\<lambda>i t1. (True, if \<not> nr_valid r (sd_fd (st_sd t1 ! i)) then httpd_sess_delete i t1 else t1)"]
    by (auto simp: keeps_table_def httpd_sess_delete_invalid_def delete_ok)
  moreover have t1: "table_ok t1" "length (st_sd t1) = length (st_sd t)"
    using assms(1) ctrl_keeps [OF assms(1)] by (auto simp: t1_def keeps_table_def split: option.split)
  moreover have t2: "table_ok t2" "length (st_sd t2) = length (st_sd t)"
    using enum_keeps_table [OF t1(1), of "httpd_process_session r ?fds"] process_keeps t1(2) by (auto simp: t2_def keeps_table_def)
  moreover have "keeps_table (\<lambda>t. snd (httpd_accept_conn r t)) t2" using accept_keeps [OF t2(1)] .
  ultimately show ?thesis
    unfolding httpd_server_def Let_def t1_def [symmetric] t2_def [symmetric] keeps_table_def by simp
qed

text \<open>Closing everything leaves nothing open.\<close>

lemma enum_all: "(\<And>i t. fst (f i t)) \<Longrightarrow> enum_slots f is t = fold (\<lambda>i t. snd (f i t)) is t"
  by (induction "is" arbitrary: t) (auto split: prod.split simp: prod_eq_iff dest: meta_spec)

lemma close_all_empty:
  assumes "table_ok t"
  shows "open_fds (httpd_sess_close_all t) = []"
proof -
  let ?f = "\<lambda>i t1. if sd_fd (st_sd t1 ! i) \<noteq> -1 then httpd_sess_delete i t1 else t1"
  have "table_ok (fold ?f [0..<n] t) \<and> length (st_sd (fold ?f [0..<n] t)) = length (st_sd t) \<and>
      (\<forall>j<n. sd_fd (st_sd (fold ?f [0..<n] t) ! j) = -1)" if "n \<le> length (st_sd t)" for n
    using that
  proof (induction n)
    case (Suc n)
    let ?t = "fold ?f [0..<n] t"
    have t: "table_ok ?t" "n < length (st_sd ?t)" "\<forall>j<n. sd_fd (st_sd ?t ! j) = -1" "length (st_sd ?t) = length (st_sd t)"
      using Suc by simp_all
    have "- 1 \<le> sd_fd (st_sd ?t ! n)" using t(1,2) by (simp add: table_ok_def)
    then have "sd_fd (st_sd (?f n ?t) ! j) = -1" if "j < Suc n" for j
      using that t(2,3) by (cases "j = n") (auto simp: httpd_sess_delete_def Let_def less_Suc_eq)
    then show ?case using t delete_ok [OF t(1,2)] by simp
  qed (use assms in simp)
  then have "\<forall>j<length (st_sd t). sd_fd (st_sd (fold ?f [0..<length (st_sd t)] t) ! j) = -1"
      "length (st_sd (fold ?f [0..<length (st_sd t)] t)) = length (st_sd t)" by blast+
  moreover have "httpd_sess_close_all t = fold ?f [0..<length (st_sd t)] t"
    by (simp add: httpd_sess_close_all_def httpd_sess_enum_def enum_all)
  ultimately show ?thesis by (auto simp: open_fds_def filter_empty_conv in_set_conv_nth)
qed

lemma trigger_keeps: "table_ok t \<Longrightarrow> keeps_table (\<lambda>t. snd (httpd_sess_trigger_close sent fd t)) t"
  using find_session_Some [of "\<lambda>s. sd_fd s = fd" t]
  by (auto simp: keeps_table_def httpd_sess_trigger_close_def httpd_queue_work_def httpd_sess_get_def table_ok_def
      split: option.split)

lemma stop_keeps: "table_ok t \<Longrightarrow> keeps_table (\<lambda>t. snd (httpd_stop sent t)) t"
  by (auto simp: keeps_table_def httpd_stop_def table_ok_def)

lemma thread_keeps:
  "table_ok t \<Longrightarrow> httpd_thread es t = (ended, t') \<Longrightarrow>
   table_ok t' \<and> length (st_sd t') = length (st_sd t) \<and> (ended \<longrightarrow> open_fds t' = [])"
proof (induction es t rule: httpd_thread.induct)
  case (2 r es t)
  obtain ret t1 where s: "httpd_server r t = (ret, t1)" by fastforce
  then have t1: "table_ok t1" "length (st_sd t1) = length (st_sd t)"
    using server_keeps [OF "2.prems"(1), of r] by (auto simp: keeps_table_def)
  show ?case
  proof (cases "ret = ESP_OK")
    case True
    then show ?thesis using "2.IH" [OF s [symmetric]] "2.prems" s t1 by simp
  next
    case False
    then show ?thesis using "2.prems"(2) s t1 close_all_keeps [OF t1(1)] close_all_empty [OF t1(1)] by (auto simp: keeps_table_def)
  qed
next
  case (3 sent es t)
  then show ?case using stop_keeps [OF "3.prems"(1), of sent] by (simp add: keeps_table_def)
next
  case (4 sent fd es t)
  then show ?case using trigger_keeps [OF "4.prems"(1), of sent fd] by (simp add: keeps_table_def)
qed auto

lemma start_ok: "httpd_start max_sockets created sockets thread n purge = (err, Some t) \<Longrightarrow> table_ok t \<and> length (st_sd t) = n"
  by (auto simp: httpd_start_def httpd_sess_init_def table_ok_def open_fds_def split: if_splits)


section \<open>Closing the least recently used session\<close>

lemma lowest_spec:
  "\<forall>i\<in>set is. sd_fd (st_sd t ! i) \<noteq> -1 \<Longrightarrow> enum_slots (lowest_lru t) is (l, c) = (l', c') \<Longrightarrow>
   l' \<le> l \<and> (\<forall>i\<in>set is. l' \<le> sd_lru_counter (st_sd t ! i)) \<and>
   (c' = c \<and> l' = l \<or> (\<exists>i\<in>set is. c' = Some i \<and> sd_lru_counter (st_sd t ! i) = l'))"
proof (induction "is" arbitrary: l c)
  case (Cons i "is")
  show ?case
  proof (cases "sd_lru_counter (st_sd t ! i) < l")
    case True
    then have "lowest_lru t i (l, c) = (True, sd_lru_counter (st_sd t ! i), Some i)" using Cons.prems(1) by (simp add: lowest_lru_def)
    then have "enum_slots (lowest_lru t) is (sd_lru_counter (st_sd t ! i), Some i) = (l', c')" using Cons.prems(2) by simp
    from Cons.IH [OF _ this] Cons.prems(1) True show ?thesis by auto
  next
    case False
    then have "lowest_lru t i (l, c) = (True, l, c)" using Cons.prems(1) by (simp add: lowest_lru_def)
    then have "enum_slots (lowest_lru t) is (l, c) = (l', c')" using Cons.prems(2) by simp
    from Cons.IH [OF _ this] Cons.prems(1) False show ?thesis by auto
  qed
qed simp

lemma idle_sessions:
  assumes "\<forall>fd. \<not> nr_ready r fd \<and> \<not> nr_tls_pending r fd" "\<forall>s\<in>set (st_sd t). \<not> sd_pending s"
  shows "httpd_sess_enum t (httpd_process_session r fdset) t = t"
  unfolding httpd_sess_enum_def
proof (rule enum_keeps [where P = "\<lambda>u. u = t"])
  fix i u assume i: "i \<in> set [0..<length (st_sd t)]" "u = t"
  then have "\<not> sd_pending (st_sd t ! i)" using assms(2) by simp
  then show "snd (httpd_process_session r fdset i u) = t"
    using i assms(1) by (simp add: httpd_process_session_def httpd_sess_pending_def Let_def)
qed simp

text \<open>A full table: the session to close is marked, and the message to close it is sent.\<close>

lemma close_lru_full:
  assumes "\<forall>s\<in>set (st_sd t). 0 \<le> sd_fd s \<and> sd_lru_counter s \<noteq> - 1" "st_sd t \<noteq> []"
  obtains i where "i < length (st_sd t)" "\<forall>j<length (st_sd t). sd_lru_counter (st_sd t ! i) \<le> sd_lru_counter (st_sd t ! j)"
    and "httpd_sess_close_lru True t =
       (ESP_OK, (set_slot i ((st_sd t ! i)\<lparr>sd_lru_socket := True\<rparr>) t)\<lparr>st_ctrl := st_ctrl t @ [HTTPD_CTRL_WORK i]\<rparr>)"
proof -
  obtain l c where e: "httpd_sess_enum t (lowest_lru t) (- 1, None) = (l, c)" by fastforce
  have o: "\<forall>i\<in>set [0..<length (st_sd t)]. sd_fd (st_sd t ! i) \<noteq> -1"
    using assms(1) by (fastforce simp: all_set_conv_all_nth)
  have s: "\<forall>i\<in>set [0..<length (st_sd t)]. l \<le> sd_lru_counter (st_sd t ! i)"
      "c = None \<and> l = - 1 \<or> (\<exists>i\<in>set [0..<length (st_sd t)]. c = Some i \<and> sd_lru_counter (st_sd t ! i) = l)"
    using lowest_spec [OF o e [unfolded httpd_sess_enum_def]] by blast+
  have "l \<noteq> - 1"
  proof
    assume "l = - 1"
    then have "- 1 \<le> sd_lru_counter (st_sd t ! 0)" using s(1) assms(2) by simp
    then have "sd_lru_counter (st_sd t ! 0) = - 1" using word_order.extremum_uniqueI by blast
    then show False using assms by simp
  qed
  then obtain i where i: "i < length (st_sd t)" "c = Some i" "sd_lru_counter (st_sd t ! i) = l" using s(2) by auto
  show ?thesis
    by (rule that [of i]) (use i s(1) e in \<open>simp_all add: httpd_sess_close_lru_def httpd_queue_work_def\<close>)
qed

text \<open>The table with one session replaced by another, as the loop does it in two rounds.\<close>

lemma purge_and_accept:
  assumes "table_ok t" "i < length (st_sd t)" "\<forall>s\<in>set (st_sd t). 0 \<le> sd_fd s" "0 \<le> fd" "fd \<notin> set (open_fds t)"
  defines "t1 \<equiv> httpd_sess_delete i (set_slot i ((st_sd t ! i)\<lparr>sd_lru_socket := False\<rparr>) t)"
  shows "httpd_is_sess_available t1"
    and "\<exists>t2. httpd_sess_new ESP_OK fd (t1\<lparr>st_accepted := a\<rparr>) = (ESP_OK, t2) \<and> map sd_fd (st_sd t2) = (map sd_fd (st_sd t))[i := fd] \<and>
      st_closed t2 = st_closed t @ [sd_fd (st_sd t ! i)]"
proof -
  let ?s = "(st_sd t ! i)\<lparr>sd_lru_socket := False\<rparr>"
  have i: "\<not> sd_fd (st_sd t ! i) < 0" using assms(2,3) by (simp add: not_less)
  have t1: "table_ok t1"
    unfolding t1_def using delete_ok [of "set_slot i ?s t" i] slot_same_fd(2) [of ?s t i] assms(1,2) by simp
  have sd: "st_sd t1 = (st_sd t)[i := ?s\<lparr>sd_fd := -1\<rparr>]" "st_closed t1 = st_closed t @ [sd_fd (st_sd t ! i)]"
    using i assms(2) by (simp_all add: t1_def httpd_sess_delete_def Let_def)
  have f: "sd_fd (st_sd t1 ! j) < 0 \<longleftrightarrow> j = i" if "j < length (st_sd t)" for j
    using that assms(2,3) by (cases "j = i") (simp_all add: sd not_less)
  show av: "httpd_is_sess_available t1"
    unfolding available_iff [OF t1] by (rule bexI [of _ "st_sd t1 ! i"]) (use f [OF assms(2)] assms(2) in \<open>simp_all add: sd(1) set_update_memI\<close>)
  then obtain j where j: "httpd_sess_get_free t1 = Some j" by (auto simp: httpd_is_sess_available_def)
  then have "j = i" using free_slot [OF j] f sd(1) by simp
  let ?t1 = "t1\<lparr>st_accepted := a\<rparr>"
  have g: "httpd_sess_get_free ?t1 = Some i" "httpd_sess_get fd ?t1 = None"
  proof -
    show "httpd_sess_get_free ?t1 = Some i" using j \<open>j = i\<close> by (auto simp: httpd_sess_get_free_def find_session_eq split: if_splits)
    have "sd_fd s \<noteq> fd" if s: "s \<in> set (st_sd t1)" for s
    proof -
      have "s = ?s\<lparr>sd_fd := -1\<rparr> \<or> s \<in> set (st_sd t)" using s set_update_subset_insert [of "st_sd t" i "?s\<lparr>sd_fd := -1\<rparr>"] by (auto simp: sd(1))
      then show ?thesis using assms(3,4,5) by (auto simp: open_fds_def)
    qed
    then show "httpd_sess_get fd ?t1 = None" unfolding httpd_sess_get_def find_session_None by simp
  qed
  show "\<exists>t2. httpd_sess_new ESP_OK fd ?t1 = (ESP_OK, t2) \<and> map sd_fd (st_sd t2) = (map sd_fd (st_sd t))[i := fd] \<and>
      st_closed t2 = st_closed t @ [sd_fd (st_sd t ! i)]"
    unfolding httpd_sess_new_def g by (simp add: sd map_update)
qed

text \<open>
  C29. The web server over HTTPS with all sessions open and idle, and a client waiting: in the next two rounds of the
  loop the waiting client gets the slot of a session with the smallest counter, and only that session is
  closed. Sessions that have not completed a request have the counter 0, so they go first.
\<close>

theorem purge_least_recent:
  assumes "table_ok t" "st_lru_purge t" "st_ctrl t = []" "\<not> st_stopping t" "st_sd t \<noteq> []"
    and "\<forall>s\<in>set (st_sd t). 0 \<le> sd_fd s \<and> sd_lru_counter s \<noteq> - 1 \<and> \<not> sd_pending s"
    and "\<forall>r\<in>{r1, r2}. nr_select r \<and> nr_listen r \<and> (\<forall>fd. \<not> nr_ready r fd \<and> \<not> nr_tls_pending r fd)"
    and "nr_ctrl r1 = None" "nr_sent r1" "nr_ctrl r2 = Some Recv_Message"
    and "nr_accept r2 = fd" "0 \<le> fd" "fd \<notin> set (open_fds t)" "nr_sockopt r2" "nr_open r2 = ESP_OK"
  shows "\<exists>i t2. i < length (st_sd t) \<and> (\<forall>j<length (st_sd t). sd_lru_counter (st_sd t ! i) \<le> sd_lru_counter (st_sd t ! j)) \<and>
     httpd_thread [Round r1, Round r2] t = (False, t2) \<and> map sd_fd (st_sd t2) = (map sd_fd (st_sd t))[i := fd] \<and>
     st_closed t2 = st_closed t @ [sd_fd (st_sd t ! i)]"
proof -
  have full: "\<not> httpd_is_sess_available t" using assms(6) unfolding available_iff [OF assms(1)] by force
  have a: "\<forall>s\<in>set (st_sd t). 0 \<le> sd_fd s \<and> sd_lru_counter s \<noteq> - 1" using assms(6) by blast
  obtain i where i: "i < length (st_sd t)" "\<forall>j<length (st_sd t). sd_lru_counter (st_sd t ! i) \<le> sd_lru_counter (st_sd t ! j)"
      "httpd_sess_close_lru True t =
       (ESP_OK, (set_slot i ((st_sd t ! i)\<lparr>sd_lru_socket := True\<rparr>) t)\<lparr>st_ctrl := st_ctrl t @ [HTTPD_CTRL_WORK i]\<rparr>)"
    using close_lru_full [OF a assms(5)] by blast
  let ?s = "(st_sd t ! i)\<lparr>sd_lru_socket := True\<rparr>"
  let ?u = "set_slot i ?s t"
  let ?t1 = "?u\<lparr>st_ctrl := [HTTPD_CTRL_WORK i]\<rparr>"
  have idle: "httpd_sess_enum t (httpd_process_session r1 fds) t = t" for fds
    by (rule idle_sessions) (use assms(6,7) in auto)
  have "httpd_server r1 t = (ESP_OK, snd (httpd_accept_conn r1 t))"
    unfolding httpd_server_def Let_def assms(8) option.case idle using assms(2,7) by simp
  then have r1: "httpd_server r1 t = (ESP_OK, ?t1)"
    using assms(2,3,9) full i(3) by (simp add: httpd_accept_conn_def)
  have u: "table_ok ?u" "open_fds ?u = open_fds t" using assms(1) slot_same_fd [of ?s t i] by simp_all
  have uo: "\<forall>s\<in>set (st_sd ?u). 0 \<le> sd_fd s \<and> \<not> sd_pending s"
    using assms(6) set_update_subset_insert [of "st_sd t" i ?s] i(1) by (auto dest!: subsetD)
  let ?d = "httpd_sess_delete i (set_slot i ((st_sd ?u ! i)\<lparr>sd_lru_socket := False\<rparr>) ?u)"
  have "fd \<notin> set (open_fds ?u)" "i < length (st_sd ?u)" "\<forall>s\<in>set (st_sd ?u). 0 \<le> sd_fd s" using u assms(13) i(1) uo by simp_all
  note p = purge_and_accept [OF u(1) this(2,3) assms(12) this(1)]
  obtain t2 where t2: "httpd_sess_new ESP_OK fd (?d\<lparr>st_accepted := st_accepted ?d @ [fd]\<rparr>) = (ESP_OK, t2)"
      "map sd_fd (st_sd t2) = (map sd_fd (st_sd ?u))[i := fd]" "st_closed t2 = st_closed ?u @ [sd_fd (st_sd ?u ! i)]"
    using p(2) by blast
  have "?t1\<lparr>st_ctrl := []\<rparr> = ?u" using assms(3) by (cases t) (simp add: set_slot_def)
  then have "httpd_process_ctrl_msg Recv_Message ?t1 = httpd_sess_close i ?u" by (simp add: httpd_process_ctrl_msg_def)
  then have c: "httpd_process_ctrl_msg Recv_Message ?t1 = ?d" using i(1) by (simp add: httpd_sess_close_def)
  have dp: "\<forall>s\<in>set (st_sd ?d). \<not> sd_pending s"
  proof -
    have "\<exists>k. st_sd ?d = (st_sd t)[i := k] \<and> \<not> sd_pending k" 
      using i(1) assms(6) by (auto simp: httpd_sess_delete_def Let_def)
    then show ?thesis using assms(6) set_update_subset_insert by fastforce
  qed
  have idle2: "httpd_sess_enum ?d (httpd_process_session r2 fds) ?d = ?d" for fds
    by (rule idle_sessions [OF _ dp]) (use assms(7) in simp)
  have st: "\<not> st_stopping ?d" "st_lru_purge ?d" using assms(2,4) by (simp_all add: httpd_sess_delete_def Let_def)
  have "httpd_server r2 ?t1 = (ESP_OK, snd (httpd_accept_conn r2 ?d))"
    unfolding httpd_server_def Let_def assms(10) option.case c idle2 using assms(2,7) st by simp
  moreover have "httpd_accept_conn r2 ?d = (ESP_OK, t2)"
    using assms(11,12,14,15) p(1) t2(1) by (simp add: httpd_accept_conn_def Let_def)
  ultimately have "httpd_thread [Round r1, Round r2] t = (False, t2)" using r1 by simp
  then show ?thesis
    using i(1,2) t2(2,3) by (intro exI [of _ i] exI [of _ t2]) (simp add: map_update)
qed

text \<open>
  C27. The connections of the web server in every run of its task from the start, with stop and close messages of
  other tasks arriving in any order between the rounds, some of them lost: each connection it accepts is open in
  exactly one slot or was closed exactly once, except that one whose opening function failed was closed
  twice (C28); no descriptor has two slots, the count is right, and when the task has ended (which a
  stop message brings about) none is left open.
\<close>

theorem connections_accounted:
  assumes "httpd_start max_sockets created sockets thread n purge = (err, Some t)" "httpd_thread es t = (ended, t')"
  shows "mset (st_accepted t') + mset (st_refused t') = mset (st_closed t') + mset (open_fds t') \<and> distinct (open_fds t') \<and>
     length (open_fds t') \<le> n \<and> st_active_count t' = int (length (open_fds t')) \<and> (ended \<longrightarrow> open_fds t' = [])"
proof -
  have t: "table_ok t'" "length (st_sd t') = n" "ended \<longrightarrow> open_fds t' = []"
    using start_ok [OF assms(1)] thread_keeps [OF _ assms(2)] by auto
  have "length (open_fds t') \<le> n" using length_filter_le [of "\<lambda>fd. 0 \<le> fd" "map sd_fd (st_sd t')"] t(2) by (simp add: open_fds_def)
  then show ?thesis using t by (simp add: table_ok_def)
qed

text \<open>
  C28. A connection whose session cannot be opened (over HTTPS, a failed handshake) is closed twice: by
  \<open>httpd_sess_delete\<close> and again by \<open>httpd_accept_conn\<close>. In between, the descriptor may already belong to a
  connection of another task, which the second call then closes.
\<close>

theorem failed_open_closes_twice:
  assumes "table_ok t" "httpd_is_sess_available t" "nr_accept r = fd" "0 \<le> fd" "fd \<notin> set (open_fds t)"
    and "nr_sockopt r" "nr_open r \<noteq> ESP_OK"
  shows "\<exists>t'. httpd_accept_conn r t = (ESP_FAIL, t') \<and> open_fds t' = open_fds t \<and> st_accepted t' = st_accepted t @ [fd] \<and>
     st_closed t' = st_closed t @ [fd, fd]"
proof -
  let ?t = "t\<lparr>st_accepted := st_accepted t @ [fd]\<rparr>"
  obtain i where i: "httpd_sess_get_free ?t = Some i" "i < length (st_sd t)" "sd_fd (st_sd t ! i) < 0"
    using assms(2) free_slot by (auto simp: httpd_is_sess_available_def httpd_sess_get_free_def find_session_eq split: if_splits)
  have g: "httpd_sess_get fd ?t = None"
    unfolding httpd_sess_get_def find_session_None using assms(4,5) by (auto simp: open_fds_def)
  let ?s = "\<lparr>sd_fd = fd, sd_lru_counter = 0, sd_lru_socket = False, sd_pending = False\<rparr>"
  let ?t1 = "(set_slot i ?s ?t)\<lparr>st_active_count := st_active_count ?t + 1, st_refused := st_refused ?t @ [fd]\<rparr>"
  have n: "httpd_sess_new (nr_open r) fd ?t = (nr_open r, httpd_sess_delete i ?t1)"
    unfolding httpd_sess_new_def g i(1) using assms(7) by (simp add: Let_def)
  have d: "open_fds (httpd_sess_delete i ?t1) = open_fds t" "st_accepted (httpd_sess_delete i ?t1) = st_accepted t @ [fd]"
      "st_closed (httpd_sess_delete i ?t1) = st_closed t @ [fd]"
    using i(2,3) assms(4) open_fds_split(2) [OF i(2)] open_fds_split(1) [of i ?t "?s\<lparr>sd_fd := -1\<rparr>"]
    by (simp_all add: httpd_sess_delete_def Let_def open_fds_def)
  then show ?thesis
    using assms(2,3,4,6,7) n by (simp add: httpd_accept_conn_def Let_def)
qed

section \<open>Examples\<close>

text \<open>A round in which one client waits and nothing else happens.\<close>

definition waiting_client :: "int \<Rightarrow> net_round" where
  "waiting_client fd = \<lparr>nr_select = True, nr_ready = (\<lambda>_. False), nr_ctrl = None, nr_listen = True, nr_serve = (\<lambda>_. (True, False)),
     nr_tls_pending = (\<lambda>_. False), nr_accept = fd, nr_sockopt = True, nr_open = ESP_OK, nr_sent = True, nr_valid = (\<lambda>_. True)\<rparr>"

definition two_sessions :: sess_table where
  "two_sessions = \<lparr>st_sd = [\<lparr>sd_fd = 5, sd_lru_counter = 3, sd_lru_socket = False, sd_pending = False\<rparr>,
       \<lparr>sd_fd = 6, sd_lru_counter = 0, sd_lru_socket = False, sd_pending = False\<rparr>],
     st_active_count = 2, st_lru_counter = 3, st_lru_purge = True, st_stopping = False, st_ctrl = [],
     st_accepted = [5, 6], st_closed = [], st_refused = []\<rparr>"

theorem purge_least_recent_witness:
  "\<exists>t2. httpd_thread [Round (waiting_client 7), Round ((waiting_client 7)\<lparr>nr_ctrl := Some Recv_Message\<rparr>)] two_sessions = (False, t2) \<and>
     map sd_fd (st_sd t2) = [5, 7] \<and> st_closed t2 = [6]"
proof -
  obtain i t2 where i: "i < length (st_sd two_sessions)"
      "\<forall>j<length (st_sd two_sessions). sd_lru_counter (st_sd two_sessions ! i) \<le> sd_lru_counter (st_sd two_sessions ! j)"
      and t2: "httpd_thread [Round (waiting_client 7), Round ((waiting_client 7)\<lparr>nr_ctrl := Some Recv_Message\<rparr>)] two_sessions = (False, t2)"
      "map sd_fd (st_sd t2) = (map sd_fd (st_sd two_sessions))[i := 7]"
      "st_closed t2 = st_closed two_sessions @ [sd_fd (st_sd two_sessions ! i)]"
    using purge_least_recent [of two_sessions "waiting_client 7" "(waiting_client 7)\<lparr>nr_ctrl := Some Recv_Message\<rparr>" 7]
    by (auto simp: two_sessions_def waiting_client_def table_ok_def open_fds_def)
  have "i = 1"
  proof (rule ccontr)
    assume "i \<noteq> 1"
    then have "i = 0" using i(1) by (simp add: two_sessions_def)
    then show False using i(2) by (auto simp: two_sessions_def dest: spec [of _ 1])
  qed
  then show ?thesis using t2 by (simp add: two_sessions_def)
qed

text \<open>A run that ends: one client is let in, the handshake of another fails, and the server is stopped.\<close>

definition stopped_run :: "task_event list" where
  "stopped_run = [Round (waiting_client 5), Round ((waiting_client 6)\<lparr>nr_open := ESP_FAIL\<rparr>), Stop True,
     Round ((waiting_client 7)\<lparr>nr_ctrl := Some Recv_Message\<rparr>)]"

lemma stopped_run_ends:
  "\<exists>t t'. httpd_start 10 True True True 2 False = (ESP_OK, Some t) \<and> httpd_thread stopped_run t = (True, t') \<and>
     st_accepted t' = [5, 6] \<and> st_refused t' = [6] \<and> st_closed t' = [6, 6, 5]"
  by (simp add: stopped_run_def waiting_client_def httpd_start_def httpd_sess_init_def httpd_server_def Let_def
      httpd_sess_enum_def httpd_process_session_def httpd_sess_pending_def httpd_accept_conn_def httpd_is_sess_available_def
      httpd_sess_get_free_def httpd_sess_get_def find_session_def httpd_sess_new_def set_slot_def sock_close_def
      httpd_sess_delete_def httpd_stop_def httpd_process_ctrl_msg_def httpd_sess_close_all_def httpd_sess_set_descriptors_def
      upt_rec numeral_2_eq_2)

theorem connections_accounted_witness:
  "\<exists>t t'. httpd_start 10 True True True 2 False = (ESP_OK, Some t) \<and> httpd_thread stopped_run t = (True, t') \<and>
     open_fds t' = [] \<and> st_accepted t' = [5, 6] \<and> st_closed t' = [6, 6, 5]"
proof -
  obtain t t' where t: "httpd_start 10 True True True 2 False = (ESP_OK, Some t)" "httpd_thread stopped_run t = (True, t')"
      "st_accepted t' = [5, 6]" "st_closed t' = [6, 6, 5]"
    using stopped_run_ends by blast
  show ?thesis using t connections_accounted [OF t(1,2)] by blast
qed

theorem failed_open_closes_twice_witness:
  "\<exists>t'. httpd_accept_conn ((waiting_client 8)\<lparr>nr_open := ESP_FAIL\<rparr>)
       (two_sessions\<lparr>st_sd := st_sd two_sessions @ httpd_sess_init 2\<rparr>) = (ESP_FAIL, t') \<and> st_closed t' = [8, 8]"
proof -
  let ?t = "two_sessions\<lparr>st_sd := st_sd two_sessions @ httpd_sess_init 2\<rparr>"
  have t: "table_ok ?t" by (simp add: table_ok_def open_fds_def two_sessions_def httpd_sess_init_def)
  have a: "httpd_is_sess_available ?t" unfolding available_iff [OF t] by (simp add: httpd_sess_init_def)
  show ?thesis
    using failed_open_closes_twice [OF t a, of "(waiting_client 8)\<lparr>nr_open := ESP_FAIL\<rparr>" 8]
    by (auto simp: waiting_client_def open_fds_def two_sessions_def httpd_sess_init_def)
qed

end
