(* ===== verification/Login.thy ===== *)
theory Login
  imports World
begin

text \<open>
  The login that \<open>app_main\<close> performs with \<open>components/esp_firebase\<close>: the class \<open>FirebaseApp\<close> of
  \<open>app.cpp\<close> and the requests of the class \<open>RTDB\<close> of \<open>rtdb.cpp\<close>. The server is a parameter (\<open>fa_replies\<close>),
  and so is the JSON library: \<open>json_field text name\<close> is what \<open>Json::Reader::parse\<close> followed by
  \<open>[name].asString()\<close> gives, \<open>None\<close> when it throws. A result \<open>None\<close> is an abort or undefined behaviour.
  Log output is left out, also that of \<open>performRequest\<close> for an error, which prints the response buffer as a C string
  (a full buffer has no terminator then).
\<close>

section \<open>State\<close>

definition HTTP_RECV_BUFFER_SIZE :: nat where "HTTP_RECV_BUFFER_SIZE = 4096"

datatype fb_method = FB_GET | FB_POST | FB_PUT | FB_PATCH | FB_DELETE

datatype fb_event = FB_ON_CONNECTED | FB_ON_DATA string | FB_ON_FINISH | FB_OTHER

record fb_reply =
  fr_events :: "fb_event list"
  fr_err :: esp_err
  fr_status :: int

record fb_request =
  fq_method :: fb_method
  fq_url :: string
  fq_body :: string
  fq_content_type :: "string option"

text \<open>\<open>fa_output_len\<close> is the static variable \<open>output_len\<close>; \<open>fa_bad_url\<close> tells what \<open>esp_http_client_set_url\<close> refuses.\<close>

record fb_app =
  fa_register_url :: string
  fa_login_url :: string
  fa_auth_url :: string
  fa_refresh_token :: string
  fa_auth_token :: string
  fa_email :: string
  fa_password :: string
  fa_buffer :: string
  fa_output_len :: nat
  fa_content_type :: "string option"
  fa_replies :: "nat \<Rightarrow> fb_reply"
  fa_bad_url :: "string \<Rightarrow> bool"
  fa_requests :: "fb_request list"

text \<open>The memory from \<open>new char[]\<close> is not initialised.\<close>

definition FirebaseApp :: "string \<Rightarrow> string \<Rightarrow> (nat \<Rightarrow> fb_reply) \<Rightarrow> (string \<Rightarrow> bool) \<Rightarrow> fb_app" where
  "FirebaseApp api_key junk replies bad_url =
     \<lparr>fa_register_url = ''https://identitytoolkit.googleapis.com/v1/accounts:signUp?key='' @ api_key,
      fa_login_url = ''https://identitytoolkit.googleapis.com/v1/accounts:signInWithPassword?key='' @ api_key,
      fa_auth_url = ''https://securetoken.googleapis.com/v1/token?key='' @ api_key,
      fa_refresh_token = [], fa_auth_token = [], fa_email = [], fa_password = [],
      fa_buffer = junk, fa_output_len = 0, fa_content_type = None, fa_replies = replies, fa_bad_url = bad_url,
      fa_requests = []\<rparr>"

section \<open>Requests\<close>

definition zeros :: string where "zeros = replicate HTTP_RECV_BUFFER_SIZE NUL"

definition clearHTTPBuffer :: "fb_app \<Rightarrow> fb_app" where
  "clearHTTPBuffer a = a\<lparr>fa_buffer := zeros, fa_output_len := 0\<rparr>"

fun http_event_handler :: "fb_event \<Rightarrow> fb_app \<Rightarrow> fb_app option" where
  "http_event_handler FB_ON_CONNECTED a = Some (a\<lparr>fa_buffer := zeros, fa_output_len := 0\<rparr>)"
| "http_event_handler FB_ON_FINISH a = Some (a\<lparr>fa_output_len := 0\<rparr>)"
| "http_event_handler (FB_ON_DATA data) a =
     (let n = fa_output_len a
      in if n + length data \<le> length (fa_buffer a)
         then Some (a\<lparr>fa_buffer := take n (fa_buffer a) @ data @ drop (n + length data) (fa_buffer a),
                fa_output_len := n + length data\<rparr>)
         else None)"
| "http_event_handler FB_OTHER a = Some a"

fun fb_events :: "fb_event list \<Rightarrow> fb_app \<Rightarrow> fb_app option" where
  "fb_events [] a = Some a"
| "fb_events (e # es) a = Option.bind (http_event_handler e a) (fb_events es)"

definition performRequest :: "string \<Rightarrow> fb_method \<Rightarrow> string \<Rightarrow> fb_app \<Rightarrow> (esp_err \<times> int \<times> fb_app) option" where
  "performRequest u m post_field a =
     (if fa_bad_url a u then None
      else let rp = fa_replies a (length (fa_requests a));
               rq = \<lparr>fq_method = m, fq_url = u, fq_body = post_field, fq_content_type = fa_content_type a\<rparr>
           in map_option (\<lambda>a1. (fr_err rp, fr_status rp, a1))
                (fb_events (fr_events rp) (a\<lparr>fa_requests := fa_requests a @ [rq]\<rparr>)))"

definition setHeader :: "string \<Rightarrow> fb_app \<Rightarrow> fb_app" where
  "setHeader v a = a\<lparr>fa_content_type := Some v\<rparr>"

text \<open>\<open>strlen\<close> of the response needs a terminator inside of the buffer.\<close>

definition response_text :: "fb_app \<Rightarrow> string option" where
  "response_text a = (if NUL \<in> set (fa_buffer a) then Some (cstr (fa_buffer a)) else None)"

section \<open>Tokens\<close>

definition quoted :: "string \<Rightarrow> string" where "quoted s = [QUOTE] @ s @ [QUOTE]"

definition account_json :: "fb_app \<Rightarrow> string" where
  "account_json a = ''{'' @ quoted ''email'' @ '':'' @ quoted (fa_email a) @ '', '' @ quoted ''password'' @ '':'' @
     quoted (fa_password a) @ '', '' @ quoted ''returnSecureToken'' @ '': true}''"

definition getRefreshToken :: "(string \<Rightarrow> string \<Rightarrow> string option) \<Rightarrow> bool \<Rightarrow> fb_app \<Rightarrow> (esp_err \<times> fb_app) option" where
  "getRefreshToken json_field register_account a =
     (let a1 = setHeader ''application/json'' a
      in Option.bind (performRequest (if register_account then fa_register_url a1 else fa_login_url a1) FB_POST (account_json a1) a1)
           (\<lambda>(err, status, a2).
              if err = ESP_OK \<and> status = 200 then
                Option.bind (response_text a2) (\<lambda>text.
                Option.bind (json_field text ''refreshToken'') (\<lambda>token.
                  Some (ESP_OK, a2\<lparr>fa_refresh_token := token\<rparr>)))
              else Some (ESP_FAIL, a2)))"

definition token_post_data :: "fb_app \<Rightarrow> string" where
  "token_post_data a = ''{'' @ quoted ''grant_type'' @ '': '' @ quoted ''refresh_token'' @ '', '' @ quoted ''refresh_token'' @
     '':'' @ quoted (fa_refresh_token a) @ ''}''"

definition getAuthToken :: "(string \<Rightarrow> string \<Rightarrow> string option) \<Rightarrow> fb_app \<Rightarrow> (esp_err \<times> fb_app) option" where
  "getAuthToken json_field a =
     (let a1 = setHeader ''application/json'' a
      in Option.bind (performRequest (fa_auth_url a1) FB_POST (token_post_data a1) a1)
           (\<lambda>(err, status, a2).
              if err = ESP_OK \<and> status = 200 then
                Option.bind (response_text a2) (\<lambda>text.
                Option.bind (json_field text ''access_token'') (\<lambda>token.
                  Some (ESP_OK, a2\<lparr>fa_auth_token := token\<rparr>)))
              else Some (ESP_FAIL, a2)))"

definition userAccount :: "bool \<Rightarrow> (string \<Rightarrow> string \<Rightarrow> string option) \<Rightarrow> string \<times> string \<Rightarrow> fb_app \<Rightarrow> (esp_err \<times> fb_app) option" where
  "userAccount register_account json_field account a =
     (let a1 = (if fa_email a \<noteq> fst account \<or> fa_password a \<noteq> snd account
                then a\<lparr>fa_email := fst account, fa_password := snd account\<rparr> else a)
      in Option.bind (getRefreshToken json_field register_account a1) (\<lambda>(err, a2).
           if err \<noteq> ESP_OK then Some (ESP_FAIL, a2)
           else Option.bind (getAuthToken json_field (clearHTTPBuffer a2)) (\<lambda>(err, a3).
             if err \<noteq> ESP_OK then Some (ESP_FAIL, a3)
             else Some (ESP_OK, clearHTTPBuffer a3))))"

definition registerUserAccount :: "(string \<Rightarrow> string \<Rightarrow> string option) \<Rightarrow> string \<times> string \<Rightarrow> fb_app \<Rightarrow> (esp_err \<times> fb_app) option" where
  "registerUserAccount = userAccount True"

definition loginUserAccount :: "(string \<Rightarrow> string \<Rightarrow> string option) \<Rightarrow> string \<times> string \<Rightarrow> fb_app \<Rightarrow> (esp_err \<times> fb_app) option" where
  "loginUserAccount = userAccount False"

section \<open>The database\<close>

definition rtdb_url :: "string \<Rightarrow> string \<Rightarrow> fb_app \<Rightarrow> string" where
  "rtdb_url base path a = base @ path @ ''.json?auth='' @ fa_auth_token a"

text \<open>\<open>json_value\<close> is the value the JSON reader gives, \<open>null\<close> the default value.\<close>

definition getData ::
    "(string \<Rightarrow> 'j) \<Rightarrow> 'j \<Rightarrow> (string \<Rightarrow> string \<Rightarrow> string option) \<Rightarrow> string \<Rightarrow> string \<Rightarrow> fb_app \<Rightarrow> ('j \<times> fb_app) option" where
  "getData json_value null json_field base path a =
     (let u = rtdb_url base path a
      in Option.bind (performRequest u FB_GET [] (setHeader ''application/json'' a)) (\<lambda>(err, status, a1).
           if err = ESP_OK \<and> status = 200 then
             map_option (\<lambda>text. (json_value text, clearHTTPBuffer a1)) (response_text a1)
           else
             Option.bind (loginUserAccount json_field (fa_email a1, fa_password a1) a1) (\<lambda>(_, a2).
             Option.bind (performRequest u FB_GET [] (setHeader ''application/json'' a2)) (\<lambda>(err, status, a3).
               if err = ESP_OK \<and> status = 200 then
                 map_option (\<lambda>text. (json_value text, clearHTTPBuffer a3)) (response_text a3)
               else Some (null, clearHTTPBuffer a3)))))"

definition sendData :: "fb_method \<Rightarrow> string \<Rightarrow> string \<Rightarrow> string \<Rightarrow> fb_app \<Rightarrow> (esp_err \<times> fb_app) option" where
  "sendData m base path json_str a =
     map_option (\<lambda>(err, status, a1). (if err = ESP_OK \<and> status = 200 then ESP_OK else ESP_FAIL, clearHTTPBuffer a1))
       (performRequest (rtdb_url base path a) m json_str (setHeader ''application/json'' a))"

definition putData :: "string \<Rightarrow> string \<Rightarrow> string \<Rightarrow> fb_app \<Rightarrow> (esp_err \<times> fb_app) option" where "putData = sendData FB_PUT"
definition postData :: "string \<Rightarrow> string \<Rightarrow> string \<Rightarrow> fb_app \<Rightarrow> (esp_err \<times> fb_app) option" where "postData = sendData FB_POST"
definition patchData :: "string \<Rightarrow> string \<Rightarrow> string \<Rightarrow> fb_app \<Rightarrow> (esp_err \<times> fb_app) option" where "patchData = sendData FB_PATCH"
definition deleteData :: "string \<Rightarrow> string \<Rightarrow> fb_app \<Rightarrow> (esp_err \<times> fb_app) option" where
  "deleteData base path = sendData FB_DELETE base path []"

section \<open>Responses\<close>

text \<open>
  The events of a response: the connection, unless it is kept alive from the request before, the body in
  fragments, the end.
\<close>

definition fb_answer :: "bool \<Rightarrow> string list \<Rightarrow> fb_event list" where
  "fb_answer conn ds = (if conn then [FB_ON_CONNECTED] else []) @ map FB_ON_DATA ds @ [FB_ON_FINISH]"

lemma length_zeros [simp]: "length zeros = 4096"
  by (simp add: zeros_def HTTP_RECV_BUFFER_SIZE_def)

lemma fb_data_fits:
  "fa_output_len a + length (concat ds) \<le> length (fa_buffer a) \<Longrightarrow>
   fb_events (map FB_ON_DATA ds @ es) a = fb_events es (a
     \<lparr>fa_buffer := take (fa_output_len a) (fa_buffer a) @ concat ds @ drop (fa_output_len a + length (concat ds)) (fa_buffer a),
      fa_output_len := fa_output_len a + length (concat ds)\<rparr>)"
proof (induction ds arbitrary: a)
  case Nil
  then show ?case by simp
next
  case (Cons d ds)
  let ?n = "fa_output_len a + length d"
  let ?b = "take (fa_output_len a) (fa_buffer a) @ d @ drop ?n (fa_buffer a)"
  let ?a = "a\<lparr>fa_buffer := ?b, fa_output_len := ?n\<rparr>"
  have "fb_events (map FB_ON_DATA (d # ds) @ es) a = fb_events (map FB_ON_DATA ds @ es) ?a"
    using Cons.prems by (simp add: Let_def)
  moreover have "take ?n ?b = take (fa_output_len a) (fa_buffer a) @ d"
      "drop (?n + length (concat ds)) ?b = drop (?n + length (concat ds)) (fa_buffer a)"
    using Cons.prems by (simp_all add: add.commute add.left_commute)
  ultimately show ?case using Cons.IH [of ?a] Cons.prems by (simp add: add.assoc)
qed

lemma fb_data_overflow:
  "length (fa_buffer a) < fa_output_len a + length (concat ds) \<Longrightarrow> fa_output_len a \<le> length (fa_buffer a) \<Longrightarrow>
   fb_events (map FB_ON_DATA ds @ es) a = None"
proof (induction ds arbitrary: a)
  case (Cons d ds)
  show ?case
  proof (cases "fa_output_len a + length d \<le> length (fa_buffer a)")
    case True
    then show ?thesis using Cons.prems by (simp add: Let_def, intro Cons.IH) simp_all
  qed simp
qed simp

lemma answer_start:
  assumes "conn \<or> fa_buffer a = zeros \<and> fa_output_len a = 0"
  shows "fb_events (fb_answer conn ds) a =
    fb_events (map FB_ON_DATA ds @ [FB_ON_FINISH]) (a\<lparr>fa_buffer := zeros, fa_output_len := 0\<rparr>)"
proof (cases conn)
  case True
  then show ?thesis by (simp add: fb_answer_def)
next
  case False
  with assms have "a = a\<lparr>fa_buffer := zeros, fa_output_len := 0\<rparr>" by (cases a) simp
  then show ?thesis using False by (simp add: fb_answer_def)
qed

text \<open>With the buffer zeroed, by the connection or by \<open>clearHTTPBuffer\<close>, the body is what the buffer holds.\<close>

lemma answer_stored:
  assumes "conn \<or> fa_buffer a = zeros \<and> fa_output_len a = 0" "length (concat ds) \<le> 4096"
  shows "fb_events (fb_answer conn ds) a =
    Some (a\<lparr>fa_buffer := concat ds @ drop (length (concat ds)) zeros, fa_output_len := 0\<rparr>)"
proof -
  let ?a = "a\<lparr>fa_buffer := zeros, fa_output_len := 0\<rparr>"
  note answer_start [OF assms(1), of ds]
  then show ?thesis using fb_data_fits [of ?a ds "[FB_ON_FINISH]"] assms(2) by simp
qed

lemma answer_overflow:
  assumes "conn \<or> fa_buffer a = zeros \<and> fa_output_len a = 0" "4096 < length (concat ds)"
  shows "fb_events (fb_answer conn ds) a = None"
proof -
  let ?a = "a\<lparr>fa_buffer := zeros, fa_output_len := 0\<rparr>"
  note answer_start [OF assms(1), of ds]
  then show ?thesis using fb_data_overflow [of ?a ds "[FB_ON_FINISH]"] assms(2) by simp
qed

lemma text_stored:
  assumes "NUL \<notin> set body" "length body \<le> 4096" "fa_buffer a = body @ drop (length body) zeros"
  shows "response_text a = (if length body = 4096 then None else Some body)"
proof (cases "length body = 4096")
  case True
  then show ?thesis using assms by (simp add: response_text_def)
next
  case False
  then obtain k where "drop (length body) zeros = NUL # k"
    using assms(2) by (cases "4096 - length body") (auto simp: zeros_def HTTP_RECV_BUFFER_SIZE_def)
  then show ?thesis using assms False
    by (simp add: response_text_def cstr_def NUL_def takeWhile_append)
qed

lemma request_answered:
  assumes "\<not> fa_bad_url a u" "fa_replies a (length (fa_requests a)) = \<lparr>fr_events = fb_answer conn ds, fr_err = e, fr_status = st\<rparr>"
    and "conn \<or> fa_buffer a = zeros \<and> fa_output_len a = 0" "length (concat ds) \<le> 4096"
  shows "performRequest u m b a = Some (e, st, a\<lparr>fa_buffer := concat ds @ drop (length (concat ds)) zeros, fa_output_len := 0,
     fa_requests := fa_requests a @ [\<lparr>fq_method = m, fq_url = u, fq_body = b, fq_content_type = fa_content_type a\<rparr>]\<rparr>)"
  using assms answer_stored [of conn "a\<lparr>fa_requests := fa_requests a @ [rq]\<rparr>" ds for rq]
  by (simp add: performRequest_def Let_def)

lemma request_overflows:
  assumes "fa_replies a (length (fa_requests a)) = \<lparr>fr_events = fb_answer conn ds, fr_err = e, fr_status = st\<rparr>"
    and "conn \<or> fa_buffer a = zeros \<and> fa_output_len a = 0" "4096 < length (concat ds)"
  shows "performRequest u m b a = None"
  using assms answer_overflow [of conn "a\<lparr>fa_requests := fa_requests a @ [rq]\<rparr>" ds for rq]
  by (simp add: performRequest_def Let_def)

text \<open>The two requests of the login, with the tokens in the answers.\<close>

definition login_answers :: "(string \<Rightarrow> string \<Rightarrow> string option) \<Rightarrow> fb_app \<Rightarrow> string list \<Rightarrow> bool \<Rightarrow> string list \<Rightarrow> string \<Rightarrow> string \<Rightarrow> bool" where
  "login_answers json_field a ds1 conn ds2 rt auth \<longleftrightarrow>
     fa_replies a (length (fa_requests a)) = \<lparr>fr_events = fb_answer True ds1, fr_err = ESP_OK, fr_status = 200\<rparr> \<and>
     fa_replies a (Suc (length (fa_requests a))) = \<lparr>fr_events = fb_answer conn ds2, fr_err = ESP_OK, fr_status = 200\<rparr> \<and>
     \<not> fa_bad_url a (fa_login_url a) \<and> \<not> fa_bad_url a (fa_auth_url a) \<and>
     NUL \<notin> set (concat ds1) \<and> NUL \<notin> set (concat ds2) \<and> length (concat ds2) < 4096 \<and>
     json_field (concat ds1) ''refreshToken'' = Some rt \<and> json_field (concat ds2) ''access_token'' = Some auth"

definition logged_in :: "string \<Rightarrow> string \<Rightarrow> string \<Rightarrow> string \<Rightarrow> fb_app \<Rightarrow> fb_app" where
  "logged_in email password rt auth a =
     a\<lparr>fa_email := email, fa_password := password, fa_refresh_token := rt, fa_auth_token := auth,
       fa_buffer := zeros, fa_output_len := 0, fa_content_type := Some ''application/json'',
       fa_requests := fa_requests a @
         [\<lparr>fq_method = FB_POST, fq_url = fa_login_url a, fq_body = account_json (a\<lparr>fa_email := email, fa_password := password\<rparr>),
           fq_content_type = Some ''application/json''\<rparr>,
          \<lparr>fq_method = FB_POST, fq_url = fa_auth_url a, fq_body = token_post_data (a\<lparr>fa_refresh_token := rt\<rparr>),
           fq_content_type = Some ''application/json''\<rparr>]\<rparr>"

lemma login_ok:
  assumes "login_answers json_field a ds1 conn ds2 rt auth"
  shows "loginUserAccount json_field (email, password) a =
     (if length (concat ds1) < 4096 then Some (ESP_OK, logged_in email password rt auth a) else None)"
proof -
  note l = assms [unfolded login_answers_def]
  let ?a1 = "a\<lparr>fa_email := email, fa_password := password\<rparr>"
  have a1: "(if fa_email a \<noteq> fst (email, password) \<or> fa_password a \<noteq> snd (email, password)
      then a\<lparr>fa_email := fst (email, password), fa_password := snd (email, password)\<rparr> else a) = ?a1"
    by (cases a) auto
  let ?h = "setHeader ''application/json'' ?a1"
  have h: "\<not> fa_bad_url ?h (fa_login_url a)" "account_json ?h = account_json ?a1" "fa_login_url ?h = fa_login_url a"
      "fa_replies ?h (length (fa_requests ?h)) = \<lparr>fr_events = fb_answer True ds1, fr_err = ESP_OK, fr_status = 200\<rparr>"
    using l by (simp_all add: setHeader_def account_json_def)
  show ?thesis
  proof (cases "length (concat ds1) \<le> 4096")
    case False
    then have "performRequest (fa_login_url a) FB_POST (account_json ?a1) ?h = None"
      by (intro request_overflows [OF h(4)]) simp_all
    with False show ?thesis
      unfolding loginUserAccount_def userAccount_def a1 Let_def getRefreshToken_def by (simp add: h(2,3))
  next
    case True
    let ?rq1 = "\<lparr>fq_method = FB_POST, fq_url = fa_login_url a, fq_body = account_json ?a1, fq_content_type = Some ''application/json''\<rparr>"
    let ?a2 = "?h\<lparr>fa_buffer := concat ds1 @ drop (length (concat ds1)) zeros, fa_output_len := 0, fa_requests := fa_requests a @ [?rq1]\<rparr>"
    have p1: "performRequest (fa_login_url a) FB_POST (account_json ?a1) ?h = Some (ESP_OK, 200, ?a2)"
      using request_answered [OF h(1,4), of FB_POST "account_json ?a1"] True by (simp add: setHeader_def)
    have t1: "response_text ?a2 = (if length (concat ds1) = 4096 then None else Some (concat ds1))"
      by (rule text_stored) (use l True in simp_all)
    have r: "getRefreshToken json_field False ?a1 =
        (if length (concat ds1) = 4096 then None else Some (ESP_OK, ?a2\<lparr>fa_refresh_token := rt\<rparr>))"
      unfolding getRefreshToken_def Let_def using l by (simp add: h(2,3) p1 t1)
    let ?c = "setHeader ''application/json'' (clearHTTPBuffer (?a2\<lparr>fa_refresh_token := rt\<rparr>))"
    have c: "\<not> fa_bad_url ?c (fa_auth_url a)" "fa_buffer ?c = zeros \<and> fa_output_len ?c = 0"
        "fa_replies ?c (length (fa_requests ?c)) = \<lparr>fr_events = fb_answer conn ds2, fr_err = ESP_OK, fr_status = 200\<rparr>"
        "fa_auth_url ?c = fa_auth_url a" "token_post_data ?c = token_post_data (a\<lparr>fa_refresh_token := rt\<rparr>)"
      using l by (simp_all add: setHeader_def clearHTTPBuffer_def token_post_data_def)
    let ?rq2 = "\<lparr>fq_method = FB_POST, fq_url = fa_auth_url a, fq_body = token_post_data (a\<lparr>fa_refresh_token := rt\<rparr>),
        fq_content_type = Some ''application/json''\<rparr>"
    let ?a3 = "?c\<lparr>fa_buffer := concat ds2 @ drop (length (concat ds2)) zeros, fa_output_len := 0, fa_requests := fa_requests a @ [?rq1, ?rq2]\<rparr>"
    have p2: "performRequest (fa_auth_url a) FB_POST (token_post_data (a\<lparr>fa_refresh_token := rt\<rparr>)) ?c = Some (ESP_OK, 200, ?a3)"
      using request_answered [OF c(1,3) disjI2 [OF c(2)], of FB_POST "token_post_data (a\<lparr>fa_refresh_token := rt\<rparr>)"] l
      by (simp add: setHeader_def clearHTTPBuffer_def)
    have t2: "response_text ?a3 = Some (concat ds2)"
      using text_stored [of "concat ds2" ?a3] l by simp
    have "getAuthToken json_field (clearHTTPBuffer (?a2\<lparr>fa_refresh_token := rt\<rparr>)) = Some (ESP_OK, ?a3\<lparr>fa_auth_token := auth\<rparr>)"
      unfolding getAuthToken_def Let_def using l by (simp add: c(4,5) p2 t2)
    then show ?thesis
      unfolding loginUserAccount_def userAccount_def a1 Let_def r using True
      by (simp add: logged_in_def setHeader_def clearHTTPBuffer_def)
  qed
qed

section \<open>Properties\<close>

text \<open>
  C21. The login: two accepted POST requests, to the login and to the token address, with the account and then
  the refresh token in the body; both tokens are taken from the answers, in any fragments, the second one also
  over a connection that is kept alive; the response buffer is zeroed afterwards. A first answer that fills
  the 4096 bytes of the buffer is written or read behind its end.
\<close>

theorem login_user_account:
  assumes "login_answers json_field a ds1 conn ds2 rt auth"
  shows "loginUserAccount json_field (email, password) a =
     (if length (concat ds1) < 4096 then Some (ESP_OK, logged_in email password rt auth a) else None)"
  using assms by (rule login_ok)

theorem login_user_account_witness:
  "let a = FirebaseApp ''k'' [] (\<lambda>n. \<lparr>fr_events = fb_answer True [''r'', ''t''], fr_err = ESP_OK, fr_status = 200\<rparr>) (\<lambda>_. False)
   in loginUserAccount (\<lambda>t _. Some t) (''u'', ''p'') a = Some (ESP_OK, logged_in ''u'' ''p'' ''rt'' ''rt'' a)"
proof -
  let ?a = "FirebaseApp ''k'' [] (\<lambda>n. \<lparr>fr_events = fb_answer True [''r'', ''t''], fr_err = ESP_OK, fr_status = 200\<rparr>) (\<lambda>_. False)"
  have "login_answers (\<lambda>t _. Some t) ?a [''r'', ''t''] True [''r'', ''t''] ''rt'' ''rt''"
    by (simp add: login_answers_def FirebaseApp_def NUL_def)
  from login_user_account [OF this] show ?thesis by simp
qed

text \<open>
  C38. Renewing the token: when the first request of \<open>getData\<close> is refused, it logs in again and repeats the
  request; but the repeated request carries the old token in its address, which was built before.
\<close>

theorem getData_repeats_old_token:
  assumes "\<not> fa_bad_url a (rtdb_url base path a)"
    and "fa_replies a (length (fa_requests a)) = \<lparr>fr_events = fb_answer True ds0, fr_err = e, fr_status = st\<rparr>"
    and "length (concat ds0) \<le> 4096" "\<not> (e = ESP_OK \<and> st = 200)"
    and "login_answers json_field (a\<lparr>fa_requests := fa_requests a @ [r]\<rparr>) ds1 conn ds2 rt auth" "length (concat ds1) < 4096"
    and "fa_replies a (length (fa_requests a) + 3) = \<lparr>fr_events = fb_answer conn' ds3, fr_err = ESP_OK, fr_status = 200\<rparr>"
    and "NUL \<notin> set (concat ds3)" "length (concat ds3) < 4096"
  shows "\<exists>a' r1 r2. getData json_value null json_field base path a = Some (json_value (concat ds3), a') \<and> fa_auth_token a' = auth \<and>
     fa_requests a' = fa_requests a @
       (let get = \<lparr>fq_method = FB_GET, fq_url = base @ path @ ''.json?auth='' @ fa_auth_token a, fq_body = [],
              fq_content_type = Some ''application/json''\<rparr>
        in [get, r1, r2, get])"
proof -
  let ?u = "rtdb_url base path a"
  let ?get = "\<lparr>fq_method = FB_GET, fq_url = ?u, fq_body = [], fq_content_type = Some ''application/json''\<rparr>"
  let ?a1 = "a\<lparr>fa_content_type := Some ''application/json'', fa_buffer := concat ds0 @ drop (length (concat ds0)) zeros,
      fa_output_len := 0, fa_requests := fa_requests a @ [?get]\<rparr>"
  have 1: "performRequest ?u FB_GET [] (setHeader ''application/json'' a) = Some (e, st, ?a1)"
    using request_answered [of "setHeader ''application/json'' a" ?u True ds0 e st FB_GET "[]"] assms(1-3)
    by (simp add: setHeader_def)
  have "login_answers json_field ?a1 ds1 conn ds2 rt auth"
    using assms(5) by (simp add: login_answers_def)
  from login_ok [OF this, of "fa_email a" "fa_password a"] assms(6)
  have 2: "loginUserAccount json_field (fa_email ?a1, fa_password ?a1) ?a1 =
      Some (ESP_OK, logged_in (fa_email a) (fa_password a) rt auth ?a1)" by simp
  let ?a2 = "setHeader ''application/json'' (logged_in (fa_email a) (fa_password a) rt auth ?a1)"
  have r: "fa_replies ?a2 (length (fa_requests ?a2)) = \<lparr>fr_events = fb_answer conn' ds3, fr_err = ESP_OK, fr_status = 200\<rparr>"
    using assms(7) by (simp add: logged_in_def setHeader_def eval_nat_numeral)
  have z: "fa_buffer ?a2 = zeros \<and> fa_output_len ?a2 = 0" "\<not> fa_bad_url ?a2 ?u"
    using assms(1) by (simp_all add: logged_in_def setHeader_def)
  let ?a3 = "?a2\<lparr>fa_buffer := concat ds3 @ drop (length (concat ds3)) zeros, fa_output_len := 0,
      fa_requests := fa_requests ?a2 @ [?get]\<rparr>"
  have 3: "performRequest ?u FB_GET [] ?a2 = Some (ESP_OK, 200, ?a3)"
    using request_answered [OF z(2) r disjI2 [OF z(1)], of FB_GET "[]"] assms(9) by (simp add: setHeader_def)
  have 4: "response_text ?a3 = Some (concat ds3)" using text_stored [of "concat ds3" ?a3] assms(8,9) by simp
  have "getData json_value null json_field base path a = Some (json_value (concat ds3), clearHTTPBuffer ?a3)"
    unfolding getData_def Let_def 1 bind.bind_lunit prod.case if_not_P [OF assms(4)] 2 3
    by (simp only: if_True 4 option.map simp_thms)
  then show ?thesis
    by (auto simp: clearHTTPBuffer_def logged_in_def setHeader_def rtdb_url_def Let_def)
qed

theorem getData_repeats_old_token_witness:
  "let a = (FirebaseApp ''k'' [] (\<lambda>n. \<lparr>fr_events = fb_answer True [''t''], fr_err = ESP_OK,
         fr_status = if n = 0 then 401 else 200\<rparr>) (\<lambda>_. False))\<lparr>fa_auth_token := ''old''\<rparr>
   in \<exists>a'. getData (\<lambda>t. t) [] (\<lambda>t _. Some t) ''b/'' ''x'' a = Some (''t'', a') \<and> fa_auth_token a' = ''t'' \<and>
        fq_url (last (fa_requests a')) = ''b/x.json?auth=old''"
proof -
  let ?a = "(FirebaseApp ''k'' [] (\<lambda>n. \<lparr>fr_events = fb_answer True [''t''], fr_err = ESP_OK,
         fr_status = if n = 0 then 401 else 200\<rparr>) (\<lambda>_. False))\<lparr>fa_auth_token := ''old''\<rparr>"
  have "\<exists>a' r1 r2. getData (\<lambda>t. t) [] (\<lambda>t _. Some t) ''b/'' ''x'' ?a = Some (concat [''t''], a') \<and> fa_auth_token a' = ''t'' \<and>
     fa_requests a' = fa_requests ?a @
       (let get = \<lparr>fq_method = FB_GET, fq_url = ''b/'' @ ''x'' @ ''.json?auth='' @ fa_auth_token ?a, fq_body = [],
              fq_content_type = Some ''application/json''\<rparr>
        in [get, r1, r2, get])"
    by (rule getData_repeats_old_token [where e = ESP_OK and st = 401 and ?ds0.0 = "[''t'']" and ?ds1.0 = "[''t'']" and ?ds2.0 = "[''t'']"
        and conn = True and conn' = True and rt = "''t''" and r = "\<lparr>fq_method = FB_GET, fq_url = [], fq_body = [], fq_content_type = None\<rparr>"])
      (simp_all add: FirebaseApp_def login_answers_def NUL_def)
  then show ?thesis by (auto simp: Let_def)
qed

end
