(* ===== verification/Spiffs.thy ===== *)
theory Spiffs
  imports Prelude
begin

text \<open>
  \<open>main/spiffs.c\<close>: mounting the file system and listing its files on the log. The results of the
  library calls are parameters (\<open>0x105\<close> is \<open>ESP_ERR_NOT_FOUND\<close>); the effect is the list of log entries. \<open>fs\<close> gives the size of the files
  that can be opened.
\<close>

datatype spiffs_log =
    Mount_failed | Partition_missing | Init_failed int | Info_failed int | Partition_size nat nat
  | Directory_failed | Path_too_long string | File_size string nat | Open_failed string

definition SPIFFS_PATH_MAX :: nat where "SPIFFS_PATH_MAX = 256"

definition spiffs_entry :: "(string \<rightharpoonup> nat) \<Rightarrow> string \<Rightarrow> spiffs_log" where
  "spiffs_entry fs name =
     (if SPIFFS_PATH_MAX < length name + length ''/spiffs/'' + 1 then Path_too_long name
      else let filepath = strlcat_s SPIFFS_PATH_MAX (strlcpy_s SPIFFS_PATH_MAX ''/spiffs/'') name
           in (case fs filepath of Some file_size \<Rightarrow> File_size filepath file_size | None \<Rightarrow> Open_failed filepath))"

definition init_spiffs ::
    "int \<Rightarrow> int \<Rightarrow> nat \<Rightarrow> nat \<Rightarrow> string list option \<Rightarrow> (string \<rightharpoonup> nat) \<Rightarrow> spiffs_log list" where
  "init_spiffs register_ret info_ret tot in_use dir fs =
     (if register_ret \<noteq> 0 then
        [if register_ret = -1 then Mount_failed
         else if register_ret = 0x105 then Partition_missing
         else Init_failed register_ret]
      else
        (if info_ret \<noteq> 0 then Info_failed info_ret else Partition_size tot in_use) #
        (case dir of None \<Rightarrow> [Directory_failed] | Some entries \<Rightarrow> map (spiffs_entry fs) entries))"

text \<open>A path is never cut: a name is either refused or complete.\<close>

lemma spiffs_entry_complete:
  "spiffs_entry fs name =
     (if 247 < length name then Path_too_long name
      else case fs (''/spiffs/'' @ name) of
             Some n \<Rightarrow> File_size (''/spiffs/'' @ name) n
           | None \<Rightarrow> Open_failed (''/spiffs/'' @ name))"
  by (simp add: spiffs_entry_def SPIFFS_PATH_MAX_def strlcpy_s_fits strlcat_s_fits Let_def split: option.split)

end
