(* ===== verification/Infrared.thy ===== *)
theory Infrared
  imports Prelude "HOL-Library.Multiset"
begin

text \<open>
  \<open>main/nec_utils.c\<close>: the table of infrared codes and the frames of the NEC protocol. The file is not in
  the list of sources that are built, and the constants of the timing are defined nowhere: they are the
  parameter \<open>nec_timing\<close>. The RMT driver is the list of items it is given.
\<close>

section \<open>The table of codes\<close>

record nec_code =
  ne_address :: "u16"
  ne_command :: "u16"

definition NEC_CODES_MAX :: nat where "NEC_CODES_MAX = 10"

definition no_code :: nec_code where "no_code = \<lparr>ne_address = 0, ne_command = 0\<rparr>"

definition init_nec_codes :: "nec_code list \<Rightarrow> nec_code list" where
  "init_nec_codes codes = [\<lparr>ne_address = 0x0440, ne_command = 0x3003\<rparr>, \<lparr>ne_address = 0x0450, ne_command = 0x3103\<rparr>,
     \<lparr>ne_address = 0x0460, ne_command = 0x3203\<rparr>, \<lparr>ne_address = 0x0470, ne_command = 0x3303\<rparr>,
     \<lparr>ne_address = 0x0480, ne_command = 0x3403\<rparr>] @ drop 5 codes"

fun append_nec_code :: "u16 \<Rightarrow> u16 \<Rightarrow> nec_code list \<Rightarrow> nec_code list" where
  "append_nec_code address command [] = []"
| "append_nec_code address command (c # cs) =
     (if ne_address c = 0 \<and> ne_command c = 0 then \<lparr>ne_address = address, ne_command = command\<rparr> # cs
      else c # append_nec_code address command cs)"

section \<open>Frames\<close>

record nec_timing =
  NEC_HEADER_HIGH_US :: int
  NEC_HEADER_LOW_US :: int
  NEC_BIT_ONE_HIGH_US :: int
  NEC_BIT_ONE_LOW_US :: int
  RMT_TICK_10_US :: int
  NEC_DATA_ITEM_NUM :: nat

text \<open>The durations are bit fields of 15 bits.\<close>

record rmt_item32 =
  ri_level0 :: bool
  ri_duration0 :: "15 word"
  ri_level1 :: bool
  ri_duration1 :: "15 word"

definition quot10 :: "int \<Rightarrow> int" where
  "quot10 x = (if x < 0 then - (- x div 10) else x div 10)"

definition nec_build_item :: "nec_timing \<Rightarrow> int \<Rightarrow> int \<Rightarrow> rmt_item32" where
  "nec_build_item t high_us low_us =
     \<lparr>ri_level0 = True, ri_duration0 = of_int (quot10 high_us * RMT_TICK_10_US t),
      ri_level1 = False, ri_duration1 = of_int (quot10 low_us * RMT_TICK_10_US t)\<rparr>"

text \<open>The items that are transmitted, \<open>None\<close> when they do not fit into the local array.\<close>

definition nec_send_frame :: "nec_timing \<Rightarrow> u16 \<Rightarrow> u16 \<Rightarrow> rmt_item32 list option" where
  "nec_send_frame t address command =
     (let items = nec_build_item t (NEC_HEADER_HIGH_US t) (NEC_HEADER_LOW_US t) #
            replicate 16 (nec_build_item t (NEC_BIT_ONE_HIGH_US t) (NEC_BIT_ONE_LOW_US t))
      in if length items \<le> NEC_DATA_ITEM_NUM t then Some items else None)"

text \<open>\<open>1 << i\<close> is undefined from bit 31 on; the result is cut to 16 bits.\<close>

fun nec_parser_loop :: "nec_timing \<Rightarrow> nat \<Rightarrow> rmt_item32 list \<Rightarrow> u16 \<times> u16 \<Rightarrow> (u16 \<times> u16) option" where
  "nec_parser_loop t i [] (address, command) = Some (address, command)"
| "nec_parser_loop t i (x # xs) (address, command) =
     (let long = ri_level0 x \<and> NEC_BIT_ONE_HIGH_US t < uint (ri_duration0 x);
          longer = ri_level0 x \<and> NEC_BIT_ONE_LOW_US t < uint (ri_duration0 x)
      in if (long \<or> longer) \<and> 31 \<le> i then None
         else nec_parser_loop t (Suc i) xs
           (if long then address OR push_bit i 1 else address, if longer then command OR push_bit i 1 else command))"

definition nec_parser_frame :: "nec_timing \<Rightarrow> rmt_item32 list \<Rightarrow> (u16 \<times> u16) option" where
  "nec_parser_frame t items = nec_parser_loop t 0 items (0, 0)"

section \<open>Facts\<close>

definition codes_in :: "nec_code list \<Rightarrow> nec_code list" where
  "codes_in cs = filter (\<lambda>c. c \<noteq> no_code) cs"

lemma no_code_iff: "c = no_code \<longleftrightarrow> ne_address c = 0 \<and> ne_command c = 0"
  by (cases c) (simp add: no_code_def)

text \<open>A code is stored in the first free entry and nothing is lost; a full table stays as it is.\<close>

lemma append_length [simp]: "length (append_nec_code a k cs) = length cs"
  by (induction a k cs rule: append_nec_code.induct) simp_all

lemma append_full: "no_code \<notin> set cs \<Longrightarrow> append_nec_code a k cs = cs"
  by (induction a k cs rule: append_nec_code.induct) (auto simp flip: no_code_iff)

lemma append_codes:
  assumes "no_code \<in> set cs" "\<lparr>ne_address = a, ne_command = k\<rparr> \<noteq> no_code"
  shows "mset (codes_in (append_nec_code a k cs)) = add_mset \<lparr>ne_address = a, ne_command = k\<rparr> (mset (codes_in cs))"
  using assms
proof (induction cs)
  case (Cons c cs)
  then show ?case
    by (cases "c = no_code") (auto simp: codes_in_def simp flip: no_code_iff)
qed simp

text \<open>The frame does not depend on the code.\<close>

lemma frame_ignores_code: "nec_send_frame t a k = nec_send_frame t a' k'"
  by (simp add: nec_send_frame_def)

end
